(* ===== verification/Deckard_Prelude.thy ===== *)
theory Deckard_Prelude
  imports Complex_Main "HOL-Library.AList" "HOL-Library.Multiset"
begin

text \<open>
  The vocabulary the components of Deckard share: Go errors as values, 64-bit integers as
  \<open>int\<close> with the wrap-around written out, Go maps as association lists whose iteration order
  is a parameter, the insertion sort behind \<^verbatim>\<open>sort.SliceStable\<close>, and the list lemmas that the
  component theories use.
\<close>

section \<open>Errors\<close>

text \<open>
  A Go \<^verbatim>\<open>error\<close> is a value: a fresh error, an error wrapped with \<^verbatim>\<open>fmt.Errorf("...: %w")\<close>, or a gRPC
  status. \<open>Panic\<close> is the run-time panic of the Go program, where the code can reach one.
\<close>

datatype go_error =
    Err string
  | Wrap string go_error
  | Status string string
  | Panic string

type_synonym 'a result = "go_error + 'a"

named_theorems go_defs \<open>definitions that proofs unfold\<close>
named_theorems inv_intros \<open>operations keep the invariants\<close>

section \<open>Machine integers\<close>

type_synonym int64 = int

text \<open>Two's complement wrap-around of 64-bit arithmetic.\<close>

definition wrap64 :: "int \<Rightarrow> int64" where
  "wrap64 x = (x + 2 ^ 63) mod 2 ^ 64 - 2 ^ 63"

definition int64_range :: "int \<Rightarrow> bool" where
  "int64_range x \<longleftrightarrow> - (2 ^ 63) \<le> x \<and> x < 2 ^ 63"

lemma wrap64_range [simp]: "int64_range (wrap64 x)"
  by (simp add: int64_range_def wrap64_def)

lemma wrap64_id: "int64_range x \<Longrightarrow> wrap64 x = x"
  by (simp add: int64_range_def wrap64_def)

lemma wrap64_mod: "wrap64 x mod 2 ^ 64 = x mod 2 ^ 64"
  by (simp add: wrap64_def mod_diff_left_eq)

text \<open>Go's integer division truncates towards zero.\<close>

definition tdiv :: "int \<Rightarrow> int \<Rightarrow> int" where
  "tdiv a b = sgn a * sgn b * (\<bar>a\<bar> div \<bar>b\<bar>)"

definition tmod :: "int \<Rightarrow> int \<Rightarrow> int" where
  "tmod a b = a - b * tdiv a b"

lemma tdiv_nonneg: "0 \<le> a \<Longrightarrow> 0 < b \<Longrightarrow> tdiv a b = a div b"
  by (cases "a = 0") (simp_all add: tdiv_def)

section \<open>Go maps\<close>

text \<open>
  A Go map is an association list with distinct keys. Indexing is \<open>map_of\<close>, assignment is
  \<open>AList.update\<close> and \<^verbatim>\<open>delete\<close> is \<open>AList.delete\<close>. The order in which \<^verbatim>\<open>range\<close> visits a map is not
  specified by the language: an operation that ranges over a map takes a function \<open>ord\<close> that
  permutes the list of keys, and its lemmas assume no more of it than \<open>any_order ord\<close>.
\<close>

type_synonym ('k, 'v) gomap = "('k \<times> 'v) list"

definition gomap_wf :: "('k, 'v) gomap \<Rightarrow> bool" where
  "gomap_wf m \<longleftrightarrow> distinct (map fst m)"

definition any_order :: "('a list \<Rightarrow> 'a list) \<Rightarrow> bool" where
  "any_order ord \<longleftrightarrow> (\<forall>xs. mset (ord xs) = mset xs)"

lemma any_order_set: "any_order ord \<Longrightarrow> set (ord xs) = set xs"
  by (metis any_order_def set_mset_mset)

lemma any_order_length: "any_order ord \<Longrightarrow> length (ord xs) = length xs"
  by (metis any_order_def size_mset)

lemma any_order_distinct: "any_order ord \<Longrightarrow> distinct (ord xs) = distinct xs"
  by (rule mset_eq_imp_distinct_iff) (simp add: any_order_def)

lemma any_order_mset: "any_order ord \<Longrightarrow> mset (ord xs) = mset xs"
  by (simp add: any_order_def)

lemma any_order_id [simp]: "any_order (\<lambda>xs. xs)" "any_order id"
  by (simp_all add: any_order_def)

lemma any_order_rev [simp]: "any_order rev"
  by (simp add: any_order_def)

lemma map_of_update [simp]: "map_of (AList.update k v m) = (map_of m)(k \<mapsto> v)"
  by (rule update_conv')

lemma map_of_delete [simp]: "map_of (AList.delete k m) = (map_of m)(k := None)"
  by (rule delete_conv')

lemma gomap_wf_update [simp]: "gomap_wf m \<Longrightarrow> gomap_wf (AList.update k v m)"
  by (simp add: gomap_wf_def distinct_update)

lemma gomap_wf_delete [simp]: "gomap_wf m \<Longrightarrow> gomap_wf (AList.delete k m)"
  by (simp add: gomap_wf_def distinct_delete)

lemma gomap_wf_Nil [simp]: "gomap_wf []"
  by (simp add: gomap_wf_def)

lemma gomap_wf_values:
  "gomap_wf m \<Longrightarrow> (k, v) \<in> set m \<longleftrightarrow> map_of m k = Some v"
  by (simp add: gomap_wf_def)

section \<open>Sorting\<close>

text \<open>
  \<^verbatim>\<open>sort.SliceStable\<close> is Go's insertion sort on blocks followed by in-place stable merges; with a
  comparison that is a strict weak order its result is the one stable order, which the
  insertion sort below computes. It moves each element to the left while it is less than its
  neighbour, on the reversed prefix.
\<close>

fun ins_back :: "('a \<Rightarrow> 'a \<Rightarrow> bool) \<Rightarrow> 'a \<Rightarrow> 'a list \<Rightarrow> 'a list" where
  "ins_back lt x [] = [x]"
| "ins_back lt x (y # ys) = (if lt x y then y # ins_back lt x ys else x # y # ys)"

definition stable_sort :: "('a \<Rightarrow> 'a \<Rightarrow> bool) \<Rightarrow> 'a list \<Rightarrow> 'a list" where
  "stable_sort lt xs = rev (fold (ins_back lt) xs [])"

text \<open>
  \<^verbatim>\<open>sort.Slice\<close> is not stable: its result is a stable sort of some permutation of the slice.
\<close>

definition unstable_sort :: "('a list \<Rightarrow> 'a list) \<Rightarrow> ('a \<Rightarrow> 'a \<Rightarrow> bool) \<Rightarrow> 'a list \<Rightarrow> 'a list" where
  "unstable_sort ord lt xs = stable_sort lt (ord xs)"

definition weak_order :: "('a \<Rightarrow> 'a \<Rightarrow> bool) \<Rightarrow> 'a set \<Rightarrow> bool" where
  "weak_order lt A \<longleftrightarrow>
     (\<forall>x\<in>A. \<forall>y\<in>A. lt x y \<longrightarrow> \<not> lt y x) \<and>
     (\<forall>x\<in>A. \<forall>y\<in>A. \<forall>z\<in>A. \<not> lt x y \<longrightarrow> \<not> lt y z \<longrightarrow> \<not> lt x z)"

lemma mset_ins_back [simp]: "mset (ins_back lt x ys) = add_mset x (mset ys)"
  by (induction ys) auto

lemma set_ins_back [simp]: "set (ins_back lt x ys) = insert x (set ys)"
  by (induction ys) auto

lemma mset_fold_ins_back: "mset (fold (ins_back lt) xs acc) = mset xs + mset acc"
  by (induction xs arbitrary: acc) auto

lemma mset_stable_sort [simp]: "mset (stable_sort lt xs) = mset xs"
  by (simp add: stable_sort_def mset_fold_ins_back)

lemma set_stable_sort [simp]: "set (stable_sort lt xs) = set xs"
  by (metis mset_stable_sort set_mset_mset)

lemma length_stable_sort [simp]: "length (stable_sort lt xs) = length xs"
  by (metis mset_stable_sort size_mset)

lemma mset_unstable_sort: "any_order ord \<Longrightarrow> mset (unstable_sort ord lt xs) = mset xs"
  by (simp add: unstable_sort_def any_order_mset)

lemma weak_order_subset: "weak_order lt A \<Longrightarrow> B \<subseteq> A \<Longrightarrow> weak_order lt B"
  unfolding weak_order_def by blast

lemma weak_order_asym: "weak_order lt A \<Longrightarrow> x \<in> A \<Longrightarrow> y \<in> A \<Longrightarrow> lt x y \<Longrightarrow> \<not> lt y x"
  unfolding weak_order_def by blast

lemma weak_order_ntrans:
  "weak_order lt A \<Longrightarrow> x \<in> A \<Longrightarrow> y \<in> A \<Longrightarrow> z \<in> A \<Longrightarrow> \<not> lt x y \<Longrightarrow> \<not> lt y z \<Longrightarrow> \<not> lt x z"
  unfolding weak_order_def by blast

text \<open>The reversed prefix is ordered: no element is less than one that comes after it in it.\<close>

lemma ins_back_ordered:
  assumes "weak_order lt (insert x (set ys))" "sorted_wrt (\<lambda>a b. \<not> lt a b) ys"
  shows "sorted_wrt (\<lambda>a b. \<not> lt a b) (ins_back lt x ys)"
  using assms
proof (induction ys)
  case Nil
  then show ?case by simp
next
  case (Cons y ys)
  have wo: "weak_order lt (insert x (set ys))"
    by (rule weak_order_subset [OF Cons.prems(1)]) auto
  have y: "\<forall>z\<in>set ys. \<not> lt y z" and ys: "sorted_wrt (\<lambda>a b. \<not> lt a b) ys"
    using Cons.prems(2) by simp_all
  show ?case
  proof (cases "lt x y")
    case True
    then have "\<not> lt y x" by (rule weak_order_asym [OF Cons.prems(1), rotated 2]) simp_all
    with True y Cons.IH [OF wo ys] show ?thesis by simp
  next
    case False
    have "\<not> lt x z" if "z \<in> set ys" for z
      by (rule weak_order_ntrans [OF Cons.prems(1), of x y]) (use that False y in simp_all)
    with False y ys show ?thesis by simp
  qed
qed

lemma fold_ins_back_ordered:
  assumes "weak_order lt (set xs \<union> set acc)" "sorted_wrt (\<lambda>a b. \<not> lt a b) acc"
  shows "sorted_wrt (\<lambda>a b. \<not> lt a b) (fold (ins_back lt) xs acc)"
  using assms
proof (induction xs arbitrary: acc)
  case Nil
  then show ?case by simp
next
  case (Cons x xs)
  have "weak_order lt (insert x (set acc))"
    by (rule weak_order_subset [OF Cons.prems(1)]) auto
  then have "sorted_wrt (\<lambda>a b. \<not> lt a b) (ins_back lt x acc)"
    using Cons.prems(2) by (rule ins_back_ordered)
  moreover have "weak_order lt (set xs \<union> set (ins_back lt x acc))"
    by (rule weak_order_subset [OF Cons.prems(1)]) auto
  ultimately show ?case using Cons.IH by simp
qed

lemma stable_sort_sorted:
  "weak_order lt (set xs) \<Longrightarrow> sorted_wrt (\<lambda>a b. \<not> lt b a) (stable_sort lt xs)"
  using fold_ins_back_ordered [of lt xs "[]"]
  by (simp add: stable_sort_def sorted_wrt_rev)

lemma unstable_sort_sorted:
  "any_order ord \<Longrightarrow> weak_order lt (set xs) \<Longrightarrow>
   sorted_wrt (\<lambda>a b. \<not> lt b a) (unstable_sort ord lt xs)"
  by (simp add: unstable_sort_def stable_sort_sorted any_order_set)

end
