(* ===== verification/Go_Float.thy ===== *)
theory Go_Float
  imports Deckard_Prelude "HOL-Library.Log_Nat"
begin

text \<open>
  Priority scores are Go \<^verbatim>\<open>float64\<close> values. A value is a NaN, an infinity or a finite number; a
  finite one is the rational it denotes (the sign of zero is not observable in Deckard).
  Comparisons are those of IEEE 754, so every comparison with a NaN is false. Sums, differences and
  conversions from \<^verbatim>\<open>int64\<close> round to nearest, ties to even, at 53 bits of precision.
\<close>

section \<open>Values and comparisons\<close>

datatype float64 = NaN | NInf | PInf | Fin rat

fun fle :: "float64 \<Rightarrow> float64 \<Rightarrow> bool" where
  "fle NaN y = False"
| "fle x NaN = False"
| "fle NInf y = True"
| "fle x PInf = True"
| "fle (Fin a) (Fin b) = (a \<le> b)"
| "fle x y = False"

instantiation float64 :: ord
begin
definition less_eq_float64 :: "float64 \<Rightarrow> float64 \<Rightarrow> bool" where
  "less_eq_float64 x y = fle x y"
definition less_float64 :: "float64 \<Rightarrow> float64 \<Rightarrow> bool" where
  "less_float64 x y = (fle x y \<and> \<not> fle y x)"
instance ..
end

text \<open>Go's \<^verbatim>\<open>==\<close> on floats, which no NaN satisfies.\<close>

definition feq :: "float64 \<Rightarrow> float64 \<Rightarrow> bool" where
  "feq x y \<longleftrightarrow> fle x y \<and> fle y x"

definition is_nan :: "float64 \<Rightarrow> bool" where
  "is_nan x \<longleftrightarrow> x = NaN"

lemma float_le_simps [simp]:
  "\<not> NaN \<le> x" "\<not> x \<le> NaN" "NInf \<le> Fin a" "Fin a \<le> PInf" "(Fin a \<le> Fin b) = (a \<le> b)"
  "\<not> PInf \<le> Fin a" "\<not> Fin a \<le> NInf" "NInf \<le> NInf" "PInf \<le> PInf" "NInf \<le> PInf" "\<not> PInf \<le> NInf"
  by (cases x; simp add: less_eq_float64_def)+

lemma float_less_simps [simp]:
  "\<not> NaN < x" "\<not> x < NaN" "NInf < Fin a" "Fin a < PInf" "(Fin a < Fin b) = (a < b)"
  "\<not> PInf < Fin a" "\<not> Fin a < NInf" "\<not> NInf < NInf" "\<not> PInf < PInf" "NInf < PInf" "\<not> PInf < NInf"
  by (cases x; auto simp: less_float64_def)+

lemma feq_simps [simp]:
  "\<not> feq NaN x" "\<not> feq x NaN" "feq (Fin a) (Fin b) = (a = b)" "\<not> feq PInf (Fin a)"
  "\<not> feq (Fin a) PInf" "\<not> feq NInf (Fin a)" "\<not> feq (Fin a) NInf" "feq PInf PInf" "feq NInf NInf"
  "\<not> feq PInf NInf" "\<not> feq NInf PInf"
  by (cases x; auto simp: feq_def)+

lemma feq_iff: "feq x y \<longleftrightarrow> x = y \<and> x \<noteq> NaN"
  by (cases x; cases y) auto

lemma float_le_refl: "x \<noteq> NaN \<Longrightarrow> x \<le> (x :: float64)"
  by (cases x) auto

lemma float_le_trans: "x \<le> y \<Longrightarrow> y \<le> z \<Longrightarrow> x \<le> (z :: float64)"
  by (cases x; cases y; cases z) auto

lemma float_le_linear: "x \<noteq> NaN \<Longrightarrow> y \<noteq> NaN \<Longrightarrow> x \<le> y \<or> y \<le> (x :: float64)"
  by (cases x; cases y) auto

lemma float_not_le: "x \<noteq> NaN \<Longrightarrow> y \<noteq> NaN \<Longrightarrow> \<not> x \<le> y \<longleftrightarrow> y < (x :: float64)"
  by (cases x; cases y) auto

lemma float_not_less: "x \<noteq> NaN \<Longrightarrow> y \<noteq> NaN \<Longrightarrow> \<not> x < y \<longleftrightarrow> y \<le> (x :: float64)"
  by (cases x; cases y) auto

lemma float_less_imp_le: "x < y \<Longrightarrow> x \<le> (y :: float64)"
  by (cases x; cases y) auto

lemma float_le_not_NaN: "x \<le> y \<Longrightarrow> x \<noteq> NaN \<and> y \<noteq> (NaN :: float64)"
  by auto

lemma weak_order_float:
  "\<forall>x\<in>A. f x \<noteq> NaN \<Longrightarrow> weak_order (\<lambda>x y. f x < (f y :: float64)) A"
  unfolding weak_order_def
  by (auto simp: float_not_less dest: float_less_imp_le intro: float_le_trans)

section \<open>Rounding\<close>

definition flog2 :: "rat \<Rightarrow> int" where
  "flog2 x = (let (n, d) = quotient_of x; k = bitlen n - bitlen d
              in if 2 powi k \<le> x then k else k - 1)"

definition round_half_even :: "rat \<Rightarrow> int" where
  "round_half_even x =
     (let f = \<lfloor>x\<rfloor>; r = x - of_int f
      in if r < 1 / 2 then f else if 1 / 2 < r then f + 1 else if even f then f else f + 1)"

definition round64 :: "rat \<Rightarrow> float64" where
  "round64 x =
     (if x = 0 then Fin 0
      else let e = max (flog2 \<bar>x\<bar> - 52) (- 1074);
               y = of_int (round_half_even (x / 2 powi e)) * 2 powi e
           in if 2 ^ 1024 \<le> \<bar>y\<bar> then (if 0 < x then PInf else NInf) else Fin y)"

definition float_of_int :: "int \<Rightarrow> float64" where
  "float_of_int n = round64 (of_int n)"

fun fadd :: "float64 \<Rightarrow> float64 \<Rightarrow> float64" where
  "fadd NaN y = NaN"
| "fadd x NaN = NaN"
| "fadd (Fin a) (Fin b) = round64 (a + b)"
| "fadd PInf NInf = NaN"
| "fadd NInf PInf = NaN"
| "fadd PInf y = PInf"
| "fadd x PInf = PInf"
| "fadd NInf y = NInf"
| "fadd x NInf = NInf"

fun fneg :: "float64 \<Rightarrow> float64" where
  "fneg NaN = NaN"
| "fneg PInf = NInf"
| "fneg NInf = PInf"
| "fneg (Fin a) = Fin (- a)"

definition fsub :: "float64 \<Rightarrow> float64 \<Rightarrow> float64" where
  "fsub x y = fadd x (fneg y)"

text \<open>
  Conversion to \<^verbatim>\<open>int64\<close> truncates; a value that does not fit gives the smallest \<^verbatim>\<open>int64\<close>, as the
  amd64 implementation of Go does.
\<close>

fun int_of_float :: "float64 \<Rightarrow> int64" where
  "int_of_float (Fin a) =
     (let n = (if 0 \<le> a then \<lfloor>a\<rfloor> else \<lceil>a\<rceil>) in if int64_range n then n else - (2 ^ 63))"
| "int_of_float x = - (2 ^ 63)"

lemma round_half_even_of_int [simp]: "round_half_even (of_int n) = n"
  by (simp add: round_half_even_def)

lemma flog2_of_int:
  assumes "0 < n"
  shows "flog2 (of_int n) = bitlen n - 1"
proof -
  have b: "bitlen 1 = 1" by (simp add: bitlen_def floorlog_def)
  have "2 ^ nat (bitlen n - 1) \<le> n" using bitlen_bounds [OF assms] by simp
  moreover have "0 \<le> bitlen n - 1"
    using assms by (simp add: bitlen_def floorlog_def)
  ultimately have "(2 :: rat) powi (bitlen n - 1) \<le> of_int n"
    by (simp add: power_int_def)
  then show ?thesis
    by (simp add: flog2_def b)
qed

text \<open>Integers of at most 53 bits are exact.\<close>

lemma round64_exact:
  assumes "x = of_int n" "\<bar>n\<bar> \<le> 2 ^ 53"
  shows "round64 x = Fin x"
proof (cases "n = 0")
  case True
  then show ?thesis using assms by (simp add: round64_def)
next
  case False
  define k where "k = bitlen \<bar>n\<bar> - 1"
  have k0: "0 \<le> k" using False by (simp add: k_def bitlen_def floorlog_def)
  have lo: "2 ^ nat k \<le> \<bar>n\<bar>" using bitlen_bounds [of "\<bar>n\<bar>"] False by (simp add: k_def)
  have k53: "nat k \<le> 53"
  proof (rule ccontr)
    assume "\<not> nat k \<le> 53"
    then have "(2 :: int) ^ 54 \<le> 2 ^ nat k" by (intro power_increasing) auto
    with lo assms(2) show False by simp
  qed
  have fl: "flog2 \<bar>x\<bar> = k" using flog2_of_int [of "\<bar>n\<bar>"] False by (simp add: assms(1) k_def)
  have e: "max (flog2 \<bar>x\<bar> - 52) (- 1074) = k - 52" using fl k0 by simp
  have "\<exists>m. x / 2 powi (k - 52) = of_int m"
  proof (cases "k \<le> 52")
    case True
    have "x / 2 powi (k - 52) = x * 2 powi (52 - k)"
      by (metis divide_inverse minus_diff_eq power_int_minus)
    also have "\<dots> = of_int (n * 2 ^ nat (52 - k))"
      using True assms(1) by (simp add: power_int_def)
    finally show ?thesis by blast
  next
    case False
    then have "k = 53" using k53 by simp
    with lo assms(2) have "n = 2 * (2 ^ 52) \<or> n = 2 * (- (2 ^ 52))" by auto
    then have "\<exists>m. n = 2 * m" by blast
    then show ?thesis using \<open>k = 53\<close> assms(1) by auto
  qed
  then obtain m where m: "x / 2 powi (k - 52) = of_int m" by blast
  then have mx: "of_int m * 2 powi (k - 52) = x"
    by (metis nonzero_eq_divide_eq power_int_eq_0_iff zero_neq_numeral)
  have "\<bar>x\<bar> < 2 ^ 1024"
  proof -
    have "\<bar>x\<bar> \<le> of_int (2 ^ 53)" using assms by (metis of_int_abs of_int_le_iff)
    also have "\<dots> < 2 ^ 1024" by simp
    finally show ?thesis .
  qed
  moreover have "x \<noteq> 0" using False assms(1) by simp
  ultimately show ?thesis
    by (simp add: round64_def e m mx Let_def)
qed

lemma float_of_int_exact: "\<bar>n\<bar> \<le> 2 ^ 53 \<Longrightarrow> float_of_int n = Fin (of_int n)"
  by (simp add: float_of_int_def round64_exact)

lemma float_of_int_code [code]:
  "float_of_int n = (if \<bar>n\<bar> \<le> 2 ^ 53 then Fin (of_int n) else round64 (of_int n))"
  using float_of_int_exact [of n] by (simp add: float_of_int_def)

lemma round64_not_NaN [simp]: "round64 x \<noteq> NaN"
  by (simp add: round64_def Let_def)

lemma float_of_int_not_NaN [simp]: "float_of_int n \<noteq> NaN"
  by (simp add: float_of_int_def)

lemma int_of_float_of_int:
  "\<bar>n\<bar> \<le> 2 ^ 53 \<Longrightarrow> int_of_float (float_of_int n) = n"
  by (auto simp: float_of_int_exact int64_range_def)

lemma fsub_exact:
  "\<bar>m - n\<bar> \<le> 2 ^ 53 \<Longrightarrow> fsub (Fin (of_int m)) (Fin (of_int n)) = Fin (of_int (m - n))"
  using round64_exact [of "of_int (m - n)" "m - n"] by (simp add: fsub_def)

end
