(* ===== verification/Go_Time.thy ===== *)
theory Go_Time
  imports Go_Float
begin

text \<open>
  \<^verbatim>\<open>time.Time\<close> and the package \<^verbatim>\<open>internal/dtime\<close>. An instant is the number of nanoseconds since
  the Unix epoch. The clock is not part of the program: every operation that calls \<^verbatim>\<open>dtime.Now()\<close>
  takes the instant it reads as an argument.
\<close>

type_synonym time = int

section \<open>Instants\<close>

definition millisPerSecond :: int64 where
  "millisPerSecond = 1000"

definition nanosPerMillisecond :: int64 where
  "nanosPerMillisecond = 1000000"

text \<open>The zero \<^verbatim>\<open>time.Time{}\<close> is midnight of January 1 of year 1, UTC.\<close>

definition zero_time :: time where
  "zero_time = - 62135596800 * 1000000000"

definition UnixNano :: "time \<Rightarrow> int64" where
  "UnixNano t = wrap64 t"

definition Unix :: "time \<Rightarrow> int64" where
  "Unix t = t div 1000000000"

definition TimeToMs :: "time \<Rightarrow> int64" where
  "TimeToMs t = tdiv (UnixNano t) nanosPerMillisecond"

definition MsToTime :: "int64 \<Rightarrow> time" where
  "MsToTime ms =
     tdiv ms millisPerSecond * 1000000000 + tmod ms millisPerSecond * nanosPerMillisecond"

definition MsPrecision :: "time \<Rightarrow> time" where
  "MsPrecision t = MsToTime (TimeToMs t)"

definition NowMs :: "time \<Rightarrow> int64" where
  "NowMs now = TimeToMs now"

definition ElapsedTime :: "time \<Rightarrow> time \<Rightarrow> int64" where
  "ElapsedTime now since = tdiv (now - since) nanosPerMillisecond"

text \<open>
  The mocked clock of \<^verbatim>\<open>SetNowProviderValues\<close>: each reading takes the head of the list, the last
  value stays. An empty list is an index out of range.
\<close>

fun mocked_now :: "time list \<Rightarrow> (time \<times> time list) result" where
  "mocked_now [] = Inl (Panic ''index out of range'')"
| "mocked_now [t] = Inr (t, [t])"
| "mocked_now (t # u # ts) = Inr (t, u # ts)"

fun mocked_readings :: "nat \<Rightarrow> time list \<Rightarrow> (time list) result" where
  "mocked_readings 0 vs = Inr []"
| "mocked_readings (Suc n) vs =
     (case mocked_now vs of Inl e \<Rightarrow> Inl e
      | Inr (t, vs') \<Rightarrow> (case mocked_readings n vs' of Inl e \<Rightarrow> Inl e | Inr ts \<Rightarrow> Inr (t # ts)))"

text \<open>\<^verbatim>\<open>t.Add(time.Minute * time.Duration(n))\<close>: the product is an \<^verbatim>\<open>int64\<close> and wraps around.\<close>

definition AddMinutes :: "time \<Rightarrow> int64 \<Rightarrow> time" where
  "AddMinutes t n = t + wrap64 (60000000000 * n)"

text \<open>
  \<^verbatim>\<open>t.AddDate(years, 0, 0)\<close> in UTC. With years counted from March 1, a day of the Gregorian
  calendar is a year and the day within it; adding years keeps the latter.
\<close>

definition days_before_year :: "int \<Rightarrow> int" where
  "days_before_year y = 365 * y + y div 4 - y div 100 + y div 400"

definition civil_year :: "int \<Rightarrow> int" where
  "civil_year z =
     (let era = z div 146097; doe = z mod 146097;
          yoe = (doe - doe div 1460 + doe div 36524 - doe div 146096) div 365
      in yoe + 400 * era)"

definition AddYears :: "time \<Rightarrow> int \<Rightarrow> time" where
  "AddYears t n =
     (let day = 86400 * 1000000000; z = t div day + 719468; y = civil_year z;
          doy = z - days_before_year y
      in (days_before_year (y + n) + doy - 719468) * day + t mod day)"

section \<open>Properties\<close>

definition clock_range :: "time \<Rightarrow> bool" where
  "clock_range t \<longleftrightarrow> 0 \<le> t \<and> t < 2 ^ 63"

lemma TimeToMs_clock: "clock_range t \<Longrightarrow> TimeToMs t = t div 1000000"
  by (simp add: TimeToMs_def UnixNano_def clock_range_def wrap64_id int64_range_def
        nanosPerMillisecond_def tdiv_nonneg)

lemma NowMs_bound: "clock_range t \<Longrightarrow> 0 \<le> NowMs t \<and> NowMs t < 2 ^ 53"
  by (auto simp: NowMs_def TimeToMs_clock clock_range_def)

lemma TimeToMs_mono: "clock_range s \<Longrightarrow> clock_range t \<Longrightarrow> s \<le> t \<Longrightarrow> TimeToMs s \<le> TimeToMs t"
  by (simp add: TimeToMs_clock zdiv_mono1)

lemma MsToTime_ms: "MsToTime ms = 1000000 * ms"
proof -
  have "1000 * tdiv ms 1000 + tmod ms 1000 = ms" by (simp add: tmod_def)
  then show ?thesis
    by (simp add: MsToTime_def millisPerSecond_def nanosPerMillisecond_def)
qed

lemma TimeToMs_MsToTime:
  assumes "\<bar>ms\<bar> * 1000000 < 2 ^ 63"
  shows "TimeToMs (MsToTime ms) = ms"
proof -
  have "int64_range (1000000 * ms)" using assms by (auto simp: int64_range_def)
  moreover have "tdiv (1000000 * ms) 1000000 = ms"
    by (simp add: tdiv_def abs_mult sgn_mult mult_sgn_abs)
  ultimately show ?thesis
    by (simp add: TimeToMs_def UnixNano_def MsToTime_ms wrap64_id nanosPerMillisecond_def)
qed

lemma MsPrecision_clock:
  "clock_range t \<Longrightarrow> MsPrecision t \<le> t \<and> t < MsPrecision t + 1000000"
  unfolding MsPrecision_def MsToTime_ms by (auto simp: TimeToMs_clock)

lemma days_before_year_100:
  "\<exists>d. (d = 36524 \<or> d = 36525) \<and> days_before_year (y + 100) = days_before_year y + d"
proof -
  have "(y + 100) div 4 = y div 4 + 25" "(y + 100) div 100 = y div 100 + 1" by simp_all
  moreover have "(y + 100) div 400 = y div 400 \<or> (y + 100) div 400 = y div 400 + 1" by linarith
  ultimately show ?thesis by (auto simp: days_before_year_def)
qed

lemma AddYears_100:
  "\<exists>d. (d = 36524 \<or> d = 36525) \<and> AddYears t 100 = t + d * (86400 * 1000000000)"
proof -
  define day where "day = (86400 * 1000000000 :: int)"
  define z where "z = t div day + 719468"
  define y where "y = civil_year z"
  obtain d where d: "d = 36524 \<or> d = 36525"
    and eq: "days_before_year (y + 100) = days_before_year y + d"
    using days_before_year_100 by blast
  have "AddYears t 100 =
    (days_before_year (y + 100) + (z - days_before_year y) - 719468) * day + t mod day"
    unfolding AddYears_def Let_def day_def [symmetric] z_def [symmetric] y_def [symmetric] ..
  also have "\<dots> = (t div day + d) * day + t mod day" by (simp add: eq z_def)
  also have "\<dots> = t + d * day" by (simp add: distrib_right)
  finally show ?thesis using d day_def by blast
qed

lemma mocked_readings_append:
  "vs \<noteq> [] \<Longrightarrow> n \<le> k \<Longrightarrow> mocked_readings n vs = Inr (take n (vs @ replicate k (last vs)))"
proof (induction n arbitrary: vs k)
  case 0
  then show ?case by simp
next
  case (Suc n)
  obtain j where k: "k = Suc j" using Suc.prems(2) by (cases k) auto
  show ?case
  proof (cases vs rule: mocked_now.cases)
    case 1
    then show ?thesis using Suc.prems by simp
  next
    case (2 t)
    then show ?thesis using Suc.IH [of "[t]" j] Suc.prems k by simp
  next
    case (3 t u ts)
    then show ?thesis using Suc.IH [of "u # ts" k] Suc.prems by simp
  qed
qed

lemma mocked_readings_last:
  "vs \<noteq> [] \<Longrightarrow> mocked_readings n vs = Inr (take n (vs @ replicate n (last vs)))"
  by (rule mocked_readings_append) simp_all

end
