(* ===== verification/Score.thy ===== *)
theory Score
  imports Go_Time
begin

text \<open>
  The package \<^verbatim>\<open>internal/queue/score\<close>: bounds of the priority scores, the score of a new message,
  and the score filters of a pull request. A nil \<^verbatim>\<open>*float64\<close> is \<open>None\<close>.
\<close>

section \<open>Definitions\<close>

definition score_Max :: float64 where
  "score_Max = Fin 9007199254740992"

definition score_Min :: float64 where
  "score_Min = Fin 0"

definition score_Undefined :: float64 where
  "score_Undefined = Fin (- 1)"

definition GetPullMaxScore :: "float64 \<Rightarrow> float64 option" where
  "GetPullMaxScore score =
     (if feq score (Fin 0) then None
      else if score > score_Max then Some score_Max
      else if score < score_Min then Some score_Min
      else Some score)"

definition GetPullMinScore :: "float64 \<Rightarrow> float64 option" where
  "GetPullMinScore score =
     (if feq score (Fin 0) then None
      else if score > score_Max then Some score_Max
      else if score \<le> score_Min then Some score_Min
      else Some score)"

definition GetScoreByDefaultAlgorithm :: "time \<Rightarrow> float64" where
  "GetScoreByDefaultAlgorithm now = float_of_int (NowMs now)"

definition GetAddScore :: "time \<Rightarrow> float64 \<Rightarrow> float64" where
  "GetAddScore now addRequestScore =
     (if feq addRequestScore (Fin 0) then GetScoreByDefaultAlgorithm now
      else if addRequestScore < score_Min then score_Min
      else if addRequestScore > score_Max then score_Max
      else addRequestScore)"

definition GetScoreFromTime :: "time \<Rightarrow> float64" where
  "GetScoreFromTime t = float_of_int (TimeToMs t)"

definition IsUndefined :: "float64 \<Rightarrow> bool" where
  "IsUndefined score \<longleftrightarrow> feq score score_Undefined"

text \<open>The scores Deckard accepts.\<close>

definition in_score_range :: "float64 \<Rightarrow> bool" where
  "in_score_range s \<longleftrightarrow> score_Min \<le> s \<and> s \<le> score_Max"

lemmas score_consts [go_defs] = score_Max_def score_Min_def score_Undefined_def

section \<open>Properties\<close>

lemma in_score_range_not_NaN: "in_score_range s \<Longrightarrow> s \<noteq> NaN"
  by (auto simp: in_score_range_def)

lemma in_score_range_consts [simp]: "in_score_range score_Min" "in_score_range score_Max"
  by (simp_all add: in_score_range_def score_consts)

lemma not_IsUndefined_range: "in_score_range s \<Longrightarrow> \<not> IsUndefined s"
  by (cases s) (auto simp: in_score_range_def IsUndefined_def score_consts)

lemma default_score_exact:
  "clock_range now \<Longrightarrow> GetScoreByDefaultAlgorithm now = Fin (of_int (NowMs now))"
  using NowMs_bound [of now] by (auto simp: GetScoreByDefaultAlgorithm_def float_of_int_exact)

lemma of_int_le_rat_numeral: "x \<le> 9007199254740992 \<Longrightarrow> (of_int x :: rat) \<le> 9007199254740992"
  by (metis of_int_le_iff of_int_numeral)

lemma default_score_range:
  "clock_range now \<Longrightarrow> in_score_range (GetScoreByDefaultAlgorithm now)"
  using NowMs_bound [of now]
  by (auto simp: in_score_range_def score_consts default_score_exact intro: of_int_le_rat_numeral)

text \<open>
  C32. A message that is added with a score other than NaN gets a score between 0 and
  9007199254740992, whatever the request asks for: 0 asks for the current time in milliseconds,
  scores outside the range are capped, and scores inside it are kept as they are.
\<close>

theorem GetAddScore_range:
  assumes "clock_range now" "req \<noteq> NaN"
  shows "in_score_range (GetAddScore now req) \<and>
    GetAddScore now req =
      (if req = Fin 0 then Fin (of_int (NowMs now))
       else if req < score_Min then score_Min
       else if req > score_Max then score_Max else req)"
proof -
  have "in_score_range req" if "\<not> req < score_Min" "\<not> req > score_Max"
    using that assms(2) by (auto simp: in_score_range_def score_consts float_not_less)
  then show ?thesis
    using assms default_score_range [OF assms(1)] default_score_exact [OF assms(1)]
    by (auto simp: GetAddScore_def feq_iff)
qed

theorem GetAddScore_range_witness:
  "in_score_range (GetAddScore 1700000000000000000 (Fin (- 5))) \<and>
   GetAddScore 1700000000000000000 (Fin (- 5)) = Fin 0"
  using GetAddScore_range [of 1700000000000000000 "Fin (- 5)"]
  by (auto simp: clock_range_def score_consts)

text \<open>
  A NaN score passes both caps of \<^verbatim>\<open>GetAddScore\<close> unchanged, so the documented cap of the score to the accepted
  range does not hold for it.
\<close>

lemma GetAddScore_NaN: "GetAddScore now NaN = NaN \<and> \<not> in_score_range (GetAddScore now NaN)"
  by (simp add: GetAddScore_def in_score_range_def)

text \<open>
  What the limits of a pull request mean for a message with an accepted score: a lower limit above the largest
  score stands for it, a negative upper limit for the smallest score, and 0 for no upper limit.
\<close>

definition request_allows :: "float64 \<Rightarrow> float64 \<Rightarrow> float64 \<Rightarrow> bool" where
  "request_allows lo hi s \<longleftrightarrow>
     (lo \<le> s \<or> s = score_Max \<and> lo > score_Max) \<and> (hi = Fin 0 \<or> s \<le> hi \<or> s = score_Min \<and> hi < score_Min)"

lemma pull_limits_allow:
  assumes "in_score_range s" "lo \<noteq> NaN" "hi \<noteq> NaN"
  shows "\<not> ((case GetPullMinScore lo of None \<Rightarrow> False | Some l \<Rightarrow> s < l) \<or>
      (case GetPullMaxScore hi of None \<Rightarrow> False | Some h \<Rightarrow> s > h)) \<longleftrightarrow> request_allows lo hi s"
  using assms
  by (cases s; cases lo; cases hi)
    (auto simp: GetPullMinScore_def GetPullMaxScore_def request_allows_def score_consts in_score_range_def)

end
