(* ===== verification/Message.thy ===== *)
theory Message
  imports Score "HOL-Library.Sublist"
begin

text \<open>
  The data the components exchange: \<^verbatim>\<open>internal/queue/message\<close>, \<^verbatim>\<open>internal/queue/pool\<close>,
  \<^verbatim>\<open>internal/queue/configuration\<close> and the small helpers of \<^verbatim>\<open>internal/queue/utils\<close>. Strings are byte
  strings, as in Go.
\<close>

section \<open>Strings\<close>

fun strings_Index :: "string \<Rightarrow> string \<Rightarrow> nat option" where
  "strings_Index [] sep = (if sep = [] then Some 0 else None)"
| "strings_Index (c # cs) sep =
     (if prefix sep (c # cs) then Some 0 else map_option Suc (strings_Index cs sep))"

definition strings_Contains :: "string \<Rightarrow> string \<Rightarrow> bool" where
  "strings_Contains s sep \<longleftrightarrow> strings_Index s sep \<noteq> None"

text \<open>\<^verbatim>\<open>strings.SplitN(s, sep, 2)\<close> for a separator that is not empty.\<close>

definition strings_SplitN2 :: "string \<Rightarrow> string \<Rightarrow> string list" where
  "strings_SplitN2 s sep =
     (case strings_Index s sep of None \<Rightarrow> [s]
      | Some i \<Rightarrow> [take i s, drop (i + length sep) s])"

lemma strings_Index_Some:
  "strings_Index s sep = Some i \<Longrightarrow>
   s = take i s @ sep @ drop (i + length sep) s \<and> i + length sep \<le> length s"
proof (induction s sep arbitrary: i rule: strings_Index.induct)
  case (1 sep)
  then show ?case by (auto split: if_splits)
next
  case (2 c cs sep)
  show ?case
  proof (cases "prefix sep (c # cs)")
    case True
    then obtain zs where "c # cs = sep @ zs" by (auto simp: prefix_def)
    moreover have "i = 0" using True 2 by simp
    ultimately show ?thesis by simp
  next
    case False
    with 2 obtain j where "strings_Index cs sep = Some j" "i = Suc j" by auto
    with 2 False show ?thesis by simp
  qed
qed

lemma strings_Index_None:
  "strings_Index s sep = None \<longleftrightarrow> (\<nexists>p q. s = p @ sep @ q)"
proof (induction s sep rule: strings_Index.induct)
  case (1 sep)
  then show ?case by auto
next
  case (2 c cs sep)
  show ?case
  proof (cases "prefix sep (c # cs)")
    case True
    then show ?thesis by (auto simp: prefix_def) (metis append_Nil)
  next
    case False
    then have "(\<exists>p q. c # cs = p @ sep @ q) = (\<exists>p q. cs = p @ sep @ q)"
      by (metis append_Cons append_eq_Cons_conv prefixI)
    with False 2 show ?thesis by simp
  qed
qed

text \<open>The occurrence found is the first one.\<close>

lemma strings_Index_first:
  "strings_Index s sep = Some i \<Longrightarrow> j < i \<Longrightarrow> \<not> prefix sep (drop j s)"
proof (induction s sep arbitrary: i j rule: strings_Index.induct)
  case (1 sep)
  then show ?case by (auto split: if_splits)
next
  case (2 c cs sep)
  then have np: "\<not> prefix sep (c # cs)" by (auto split: if_splits)
  with 2 obtain k where k: "strings_Index cs sep = Some k" "i = Suc k" by auto
  show ?case
  proof (cases j)
    case 0
    with np show ?thesis by simp
  next
    case (Suc l)
    with 2 np k show ?thesis by simp
  qed
qed

section \<open>Pools, lock types and queue configuration\<close>

datatype PoolType = PRIMARY_POOL | PROCESSING_POOL | LOCK_ACK_POOL | LOCK_NACK_POOL

datatype LockType = LOCK_ACK | LOCK_NACK

definition lock_type_string :: "LockType \<Rightarrow> string" where
  "lock_type_string t = (case t of LOCK_ACK \<Rightarrow> ''lock_ack'' | LOCK_NACK \<Rightarrow> ''lock_nack'')"

definition QUEUE_SEPARATOR :: string where
  "QUEUE_SEPARATOR = ''::''"

record QueueConfiguration =
  cfg_Queue :: string
  cfg_MaxElements :: int64

definition MinInt64 :: "int64 \<Rightarrow> int64 \<Rightarrow> int64" where
  "MinInt64 x y = (if x < y then x else y)"

section \<open>Messages\<close>

text \<open>
  Pointers to numbers are options. An \<^verbatim>\<open>anypb.Any\<close> is its type URL and its bytes. The internal id
  is an \<^verbatim>\<open>interface{}\<close>: nil, the \<^verbatim>\<open>int64\<close> of the memory storage or the \<^verbatim>\<open>ObjectID\<close> of MongoDB.
\<close>

record MessageDiagnostics =
  dg_Acks :: "int64 option"
  dg_Nacks :: "int64 option"
  dg_ConsecutiveAcks :: "int64 option"
  dg_ConsecutiveNacks :: "int64 option"

datatype internal_id = IdNil | IdInt int64 | IdObject string

type_synonym any = "string \<times> string"

record Message =
  msg_ID :: string
  msg_Description :: string
  msg_Queue :: string
  msg_ExpiryDate :: time
  msg_Timeless :: bool
  msg_Metadata :: "(string, string) gomap option"
  msg_Payload :: "(string, any) gomap option"
  msg_StringPayload :: string
  msg_LockMs :: int64
  msg_InternalId :: internal_id
  msg_Score :: float64
  msg_LastUsage :: "time option"
  msg_Breakpoint :: string
  msg_LastScoreSubtract :: float64
  msg_TotalScoreSubtract :: float64
  msg_UsageCount :: int64
  msg_QueuePrefix :: string
  msg_QueueSuffix :: string
  msg_Diagnostics :: "MessageDiagnostics option"

text \<open>The zero value of the struct.\<close>

definition zero_Message :: Message where
  "zero_Message =
     \<lparr>msg_ID = [], msg_Description = [], msg_Queue = [], msg_ExpiryDate = zero_time,
      msg_Timeless = False, msg_Metadata = None, msg_Payload = None, msg_StringPayload = [],
      msg_LockMs = 0, msg_InternalId = IdNil, msg_Score = Fin 0, msg_LastUsage = None,
      msg_Breakpoint = [], msg_LastScoreSubtract = Fin 0, msg_TotalScoreSubtract = Fin 0,
      msg_UsageCount = 0, msg_QueuePrefix = [], msg_QueueSuffix = [], msg_Diagnostics = None\<rparr>"

definition GetQueueParts :: "string \<Rightarrow> string \<times> string" where
  "GetQueueParts queue =
     (if \<not> strings_Contains queue QUEUE_SEPARATOR then (queue, [])
      else let data = strings_SplitN2 queue QUEUE_SEPARATOR in (data ! 0, data ! 1))"

definition Message_GetQueueParts :: "Message \<Rightarrow> string \<times> string" where
  "Message_GetQueueParts q = GetQueueParts (msg_Queue q)"

definition GetQueuePrefix :: "string \<Rightarrow> string" where
  "GetQueuePrefix queue = (let (queuePrefix, _) = GetQueueParts queue in queuePrefix)"

section \<open>Properties\<close>

lemma GetQueueParts_no_sep:
  "\<not> strings_Contains q QUEUE_SEPARATOR \<Longrightarrow> GetQueueParts q = (q, [])"
  by (simp add: GetQueueParts_def)

lemma GetQueueParts_sep:
  assumes "strings_Index q QUEUE_SEPARATOR = Some i"
  shows "GetQueueParts q = (take i q, drop (i + 2) q)"
  using assms by (simp add: GetQueueParts_def strings_Contains_def strings_SplitN2_def
      QUEUE_SEPARATOR_def)

text \<open>
  C34. Splitting a queue name at its separator loses nothing: a name with a separator is the prefix,
  the separator and the suffix, and the prefix itself contains no separator; a name without one is
  its own prefix with an empty suffix.
\<close>

theorem GetQueueParts_roundtrip:
  "(if strings_Contains q QUEUE_SEPARATOR
    then fst (GetQueueParts q) @ QUEUE_SEPARATOR @ snd (GetQueueParts q) = q \<and>
         \<not> strings_Contains (fst (GetQueueParts q)) QUEUE_SEPARATOR
    else GetQueueParts q = (q, [])) \<and>
   GetQueuePrefix q = fst (GetQueueParts q)"
proof (cases "strings_Index q QUEUE_SEPARATOR")
  case None
  then show ?thesis
    by (simp add: strings_Contains_def GetQueueParts_def GetQueuePrefix_def)
next
  case (Some i)
  note split = strings_Index_Some [OF Some]
  have "\<not> strings_Contains (take i q) QUEUE_SEPARATOR"
  proof
    assume "strings_Contains (take i q) QUEUE_SEPARATOR"
    then obtain p r where pr: "take i q = p @ QUEUE_SEPARATOR @ r"
      by (auto simp: strings_Contains_def strings_Index_None)
    then have "length (take i q) = length p + (2 + length r)"
      by (simp add: QUEUE_SEPARATOR_def)
    then have "length p + 2 \<le> i" by simp
    moreover have "prefix QUEUE_SEPARATOR (drop (length p) q)"
      by (metis append.assoc append_eq_conv_conj append_take_drop_id pr prefixI)
    ultimately show False using strings_Index_first [OF Some, of "length p"] by simp
  qed
  then show ?thesis
    using Some split
    by (simp add: GetQueueParts_sep [OF Some] strings_Contains_def GetQueuePrefix_def
        QUEUE_SEPARATOR_def)
qed

end
