(* ===== verification/Cache_Interface.thy ===== *)
theory Cache_Interface
  imports Message
begin

text \<open>
  \<^verbatim>\<open>internal/queue/cache/cache.go\<close>: the interface \<^verbatim>\<open>Cache\<close> that the memory and the Redis caches
  implement, as a record of its methods over the state \<open>'c\<close> of an implementation, and the contract
  its clients rely on, as a locale. A method that reads the clock takes the instant it reads.
\<close>

section \<open>The interface\<close>

definition DefaultTimeoutMs :: int64 where
  "DefaultTimeoutMs = 300000"

definition RECOVERY_RUNNING :: string where
  "RECOVERY_RUNNING = ''recovery''"

definition RECOVERY_FINISHED :: string where
  "RECOVERY_FINISHED = ''recovery_finished''"

definition RECOVERY_STORAGE_BREAKPOINT_KEY :: string where
  "RECOVERY_STORAGE_BREAKPOINT_KEY = ''recovery_storage_breakpoint''"

definition RECOVERY_BREAKPOINT_KEY :: string where
  "RECOVERY_BREAKPOINT_KEY = ''recovery_breakpoint''"

record 'c Cache =
  c_MakeAvailable :: "'c \<Rightarrow> Message \<Rightarrow> 'c \<times> bool result"
  c_IsProcessing :: "'c \<Rightarrow> string \<Rightarrow> string \<Rightarrow> bool result"
  c_PullMessages :: "time \<Rightarrow> 'c \<Rightarrow> string \<Rightarrow> int64 \<Rightarrow> float64 option \<Rightarrow> float64 option \<Rightarrow> int64 \<Rightarrow>
                     'c \<times> string list result"
  c_TimeoutMessages :: "time \<Rightarrow> 'c \<Rightarrow> string \<Rightarrow> 'c \<times> string list result"
  c_LockMessage :: "time \<Rightarrow> 'c \<Rightarrow> Message \<Rightarrow> LockType \<Rightarrow> 'c \<times> bool result"
  c_UnlockMessages :: "time \<Rightarrow> 'c \<Rightarrow> string \<Rightarrow> LockType \<Rightarrow> 'c \<times> string list result"
  c_ListQueues :: "'c \<Rightarrow> string \<Rightarrow> PoolType \<Rightarrow> string list result"
  c_Insert :: "'c \<Rightarrow> string \<Rightarrow> Message list \<Rightarrow> 'c \<times> string list result"
  c_Remove :: "'c \<Rightarrow> string \<Rightarrow> string list \<Rightarrow> 'c \<times> int64 \<times> go_error option"
  c_Flush :: "'c \<Rightarrow> 'c"
  c_Get :: "'c \<Rightarrow> string \<Rightarrow> string result"
  c_Set :: "'c \<Rightarrow> string \<Rightarrow> string \<Rightarrow> 'c \<times> go_error option"

section \<open>The abstract state and its moves\<close>

text \<open>
  What clients can rely on of a cache is which ids each pool of each queue holds. The methods move ids
  between the pools of a queue.
\<close>

type_synonym pool_ids = "PoolType \<Rightarrow> string \<Rightarrow> string set"

definition lock_pool :: "LockType \<Rightarrow> PoolType" where
  "lock_pool t = (case t of LOCK_ACK \<Rightarrow> LOCK_ACK_POOL | LOCK_NACK \<Rightarrow> LOCK_NACK_POOL)"

lemma lock_pool_neq [simp]:
  "lock_pool t \<noteq> PRIMARY_POOL" "lock_pool t \<noteq> PROCESSING_POOL"
  "PRIMARY_POOL \<noteq> lock_pool t" "PROCESSING_POOL \<noteq> lock_pool t"
  by (simp_all add: lock_pool_def split: LockType.splits)

definition known_ids :: "pool_ids \<Rightarrow> string \<Rightarrow> string set" where
  "known_ids v q = (\<Union>p. v p q)"

definition pool_disjoint :: "pool_ids \<Rightarrow> bool" where
  "pool_disjoint v \<longleftrightarrow> (\<forall>p p' q. p \<noteq> p' \<longrightarrow> v p q \<inter> v p' q = {})"

definition pool_add :: "pool_ids \<Rightarrow> string \<Rightarrow> string set \<Rightarrow> pool_ids" where
  "pool_add v q I = (\<lambda>p q'. if q' = q \<and> p = PRIMARY_POOL then v p q' \<union> I else v p q')"

definition pool_move :: "pool_ids \<Rightarrow> PoolType \<Rightarrow> PoolType \<Rightarrow> string \<Rightarrow> string set \<Rightarrow> pool_ids" where
  "pool_move v p p' q I =
     (\<lambda>r q'. if q' = q \<and> r = p then v r q' - I
            else if q' = q \<and> r = p' then v r q' \<union> I else v r q')"

definition pool_moves :: "pool_ids \<Rightarrow> PoolType \<Rightarrow> PoolType \<Rightarrow> (string \<Rightarrow> string set) \<Rightarrow> pool_ids" where
  "pool_moves v p p' I =
     (\<lambda>r q'. if r = p then v r q' - I q' else if r = p' then v r q' \<union> I q' else v r q')"

definition pool_remove :: "pool_ids \<Rightarrow> string \<Rightarrow> string set \<Rightarrow> pool_ids" where
  "pool_remove v q I = (\<lambda>p q'. if q' = q then v p q' - I else v p q')"

lemma pool_add_empty [simp]: "pool_add v q {} = v"
  by (simp add: pool_add_def fun_eq_iff)

lemma pool_remove_empty [simp]: "pool_remove v q {} = v"
  by (simp add: pool_remove_def fun_eq_iff)

text \<open>The life of one message in the cache, as a transition relation on the pool that holds it.\<close>

inductive lifecycle :: "PoolType option \<Rightarrow> PoolType option \<Rightarrow> bool" where
  inserted: "lifecycle None (Some PRIMARY_POOL)"
| pulled: "lifecycle (Some PRIMARY_POOL) (Some PROCESSING_POOL)"
| returned: "lifecycle (Some PROCESSING_POOL) (Some PRIMARY_POOL)"
| locked: "lifecycle (Some PROCESSING_POOL) (Some (lock_pool t))"
| unlocked: "lifecycle (Some (lock_pool t)) (Some PRIMARY_POOL)"
| removed: "lifecycle (Some p) None"

inductive_simps lifecycle_simps:
  "lifecycle None l" "lifecycle (Some PRIMARY_POOL) l" "lifecycle (Some PROCESSING_POOL) l"

definition location :: "pool_ids \<Rightarrow> string \<Rightarrow> string \<Rightarrow> PoolType option" where
  "location v q i =
     (if i \<in> v PRIMARY_POOL q then Some PRIMARY_POOL
      else if i \<in> v PROCESSING_POOL q then Some PROCESSING_POOL
      else if i \<in> v LOCK_ACK_POOL q then Some LOCK_ACK_POOL
      else if i \<in> v LOCK_NACK_POOL q then Some LOCK_NACK_POOL else None)"

lemma location_Some:
  "pool_disjoint v \<Longrightarrow> location v q i = Some p \<longleftrightarrow> i \<in> v p q"
  by (cases p) (auto simp: location_def pool_disjoint_def disjoint_iff)

lemma UNIV_PoolType: "UNIV = {PRIMARY_POOL, PROCESSING_POOL, LOCK_ACK_POOL, LOCK_NACK_POOL}"
  by (auto intro: PoolType.exhaust)

lemma known_ids_pools:
  "known_ids v q = v PRIMARY_POOL q \<union> v PROCESSING_POOL q \<union> v LOCK_ACK_POOL q \<union> v LOCK_NACK_POOL q"
  by (simp add: known_ids_def UNIV_PoolType Un_assoc)

lemma known_ids_iff: "i \<in> known_ids v q \<longleftrightarrow> location v q i \<noteq> None"
proof -
  have "i \<in> known_ids v q \<longleftrightarrow> (\<exists>p. i \<in> v p q)" by (simp add: known_ids_def)
  also have "\<dots> \<longleftrightarrow> location v q i \<noteq> None"
  proof
    assume "\<exists>p. i \<in> v p q"
    then obtain p where "i \<in> v p q" ..
    then show "location v q i \<noteq> None" by (cases p) (simp_all add: location_def)
  qed (auto simp: location_def split: if_splits)
  finally show ?thesis .
qed

lemma location_None: "location v q i = None \<longleftrightarrow> (\<forall>p. i \<notin> v p q)"
  using known_ids_iff [of i v q] by (auto simp: known_ids_def)

text \<open>One step of the lifecycle, or none.\<close>

abbreviation lifecycle_opt :: "PoolType option \<Rightarrow> PoolType option \<Rightarrow> bool" where
  "lifecycle_opt l l' \<equiv> l = l' \<or> lifecycle l l'"

lemma location_eqI: "(\<And>p. (i \<in> v' p q) = (i \<in> v p q)) \<Longrightarrow> location v' q i = location v q i"
  by (simp add: location_def)

lemma pool_moves_disjoint:
  assumes "pool_disjoint v" "p \<noteq> p'" "\<And>q. I q \<subseteq> v p q"
  shows "pool_disjoint (pool_moves v p p' I)"
  unfolding pool_disjoint_def
proof (intro allI impI)
  fix r r' :: PoolType and q
  assume "r \<noteq> r'"
  then have "v r q \<inter> v r' q = {}" using assms(1) by (simp add: pool_disjoint_def)
  moreover have "s \<noteq> p \<Longrightarrow> I q \<inter> v s q = {}" for s
    using assms(1,3) by (fastforce simp: pool_disjoint_def)
  ultimately show "pool_moves v p p' I r q \<inter> pool_moves v p p' I r' q = {}"
    using \<open>r \<noteq> r'\<close> by (auto simp: pool_moves_def)
qed

lemma pool_move_moves: "pool_move v p p' q I = pool_moves v p p' (\<lambda>q'. if q' = q then I else {})"
  by (auto simp: pool_move_def pool_moves_def fun_eq_iff)

lemma pool_move_empty [simp]: "pool_move v p p' q {} = v"
  by (auto simp: pool_move_def fun_eq_iff)

lemma location_moves:
  assumes "pool_disjoint v" "p \<noteq> p'" "\<And>q. I q \<subseteq> v p q"
  shows "location (pool_moves v p p' I) q i = (if i \<in> I q then Some p' else location v q i)"
proof (cases "i \<in> I q")
  case True
  then show ?thesis
    using location_Some [OF pool_moves_disjoint [OF assms], of q i p'] assms(2)
    by (simp add: pool_moves_def)
next
  case False
  then have "location (pool_moves v p p' I) q i = location v q i"
    by (intro location_eqI) (simp add: pool_moves_def)
  then show ?thesis using False by simp
qed

lemma lifecycle_moves:
  assumes "pool_disjoint v" "p \<noteq> p'" "\<And>q. I q \<subseteq> v p q" "lifecycle (Some p) (Some p')"
  shows "lifecycle_opt (location v q i) (location (pool_moves v p p' I) q i)"
proof (cases "i \<in> I q")
  case True
  then have "location v q i = Some p" using assms(1,3) by (auto simp: location_Some)
  then show ?thesis using True assms(4) location_moves [OF assms(1-3)] by simp
qed (simp add: location_moves [OF assms(1-3)])

lemma known_ids_moves:
  "p \<noteq> p' \<Longrightarrow> (\<And>q. I q \<subseteq> v p q) \<Longrightarrow> known_ids (pool_moves v p p' I) q = known_ids v q"
  unfolding known_ids_def pool_moves_def by (auto split: if_splits)

end
