(* ===== verification/Cache_Contract.thy ===== *)
theory Cache_Contract
  imports Cache_Interface
begin

text \<open>
  The contract of \<^verbatim>\<open>Cache\<close> as a locale: what each method does to the ids held by the pools, and what
  follows for any sequence of calls, proved once for every implementation.
\<close>

section \<open>Steps of a cache\<close>

text \<open>The calls that remove nothing. \<open>amount\<close> says how many messages a pull may ask for.\<close>

inductive cache_step :: "'c Cache \<Rightarrow> (int64 \<Rightarrow> bool) \<Rightarrow> 'c \<Rightarrow> 'c \<Rightarrow> bool" for C amount where
  insert: "c_Insert C c q ms = (c', r) \<Longrightarrow> cache_step C amount c c'"
| pull: "c_PullMessages C now c q n lo hi ms = (c', r) \<Longrightarrow> amount n \<Longrightarrow> cache_step C amount c c'"
| make_available: "c_MakeAvailable C c m = (c', r') \<Longrightarrow> cache_step C amount c c'"
| lock: "c_LockMessage C now c m t = (c', r') \<Longrightarrow> cache_step C amount c c'"
| unlock: "c_UnlockMessages C now c q t = (c', r) \<Longrightarrow> cache_step C amount c c'"
| timeout: "c_TimeoutMessages C now c q = (c', r) \<Longrightarrow> cache_step C amount c c'"
| set_key: "c_Set C c k v = (c', e) \<Longrightarrow> cache_step C amount c c'"

inductive cache_removal :: "'c Cache \<Rightarrow> 'c \<Rightarrow> 'c \<Rightarrow> bool" for C where
  remove: "c_Remove C c q ids = (c', n, e) \<Longrightarrow> cache_removal C c c'"

text \<open>A call of a client, and the state it leaves behind; a sequence of calls is a list of them.\<close>

datatype cache_op =
    OpInsert string "Message list"
  | OpPull time string int64 "float64 option" "float64 option" int64
  | OpMakeAvailable Message
  | OpLock time Message LockType
  | OpUnlock time string LockType
  | OpTimeout time string
  | OpSet string string
  | OpRemove string "string list"
  | OpFlush

fun cache_exec :: "'c Cache \<Rightarrow> cache_op \<Rightarrow> 'c \<Rightarrow> 'c" where
  "cache_exec C (OpInsert q ms) c = fst (c_Insert C c q ms)"
| "cache_exec C (OpPull now q n lo hi ack) c = fst (c_PullMessages C now c q n lo hi ack)"
| "cache_exec C (OpMakeAvailable m) c = fst (c_MakeAvailable C c m)"
| "cache_exec C (OpLock now m t) c = fst (c_LockMessage C now c m t)"
| "cache_exec C (OpUnlock now q t) c = fst (c_UnlockMessages C now c q t)"
| "cache_exec C (OpTimeout now q) c = fst (c_TimeoutMessages C now c q)"
| "cache_exec C (OpSet k v) c = fst (c_Set C c k v)"
| "cache_exec C (OpRemove q ids) c = fst (c_Remove C c q ids)"
| "cache_exec C OpFlush c = c_Flush C c"

fun is_removal :: "cache_op \<Rightarrow> bool" where
  "is_removal (OpRemove q ids) = True"
| "is_removal OpFlush = True"
| "is_removal _ = False"

fun op_amount :: "(int64 \<Rightarrow> bool) \<Rightarrow> cache_op \<Rightarrow> bool" where
  "op_amount amount (OpPull now q n lo hi ack) = amount n"
| "op_amount amount _ = True"

lemma op_amount_any [simp]: "op_amount (\<lambda>n. True) op"
  by (cases op) simp_all

lemma cache_exec_step: "\<not> is_removal op \<Longrightarrow> op_amount amount op \<Longrightarrow> cache_step C amount c (cache_exec C op c)"
  by (cases op) (auto intro: cache_step.intros prod.collapse [symmetric])

lemma cache_exec_removal: "is_removal op \<Longrightarrow> op \<noteq> OpFlush \<Longrightarrow> cache_removal C c (cache_exec C op c)"
proof (cases op)
  case (OpRemove q ids)
  then show ?thesis
    using cache_removal.remove [of C c q ids "cache_exec C op c" "fst (snd (c_Remove C c q ids))"
        "snd (snd (c_Remove C c q ids))"]
    by simp
qed simp_all

lemma cache_exec_steps:
  "list_all (\<lambda>op. \<not> is_removal op) ops \<Longrightarrow> list_all (op_amount amount) ops \<Longrightarrow>
   (cache_step C amount)\<^sup>*\<^sup>* c (fold (cache_exec C) ops c)"
proof (induction ops rule: rev_induct)
  case (snoc op ops)
  then show ?case
    using cache_exec_step [of op amount C] by (auto intro: rtranclp.rtrancl_into_rtrancl)
qed simp

section \<open>The contract\<close>

locale cache_contract =
  fixes C :: "'c Cache" and ids :: "'c \<Rightarrow> pool_ids" and inv :: "'c \<Rightarrow> bool" and amount :: "int64 \<Rightarrow> bool"
  assumes amounts: "0 < n \<Longrightarrow> n \<le> 1000 \<Longrightarrow> amount n"
    and disjoint: "inv c \<Longrightarrow> pool_disjoint (ids c)"
    and insert_ids: "inv c \<Longrightarrow> c_Insert C c q ms = (c', Inr r) \<Longrightarrow>
      set r = msg_ID ` set ms - known_ids (ids c) q \<and> ids c' = pool_add (ids c) q (set r) \<and> inv c'"
    and insert_error: "inv c \<Longrightarrow> c_Insert C c q ms = (c', Inl e) \<Longrightarrow>
      \<exists>I\<subseteq>msg_ID ` set ms - known_ids (ids c) q. ids c' = pool_add (ids c) q I \<and> inv c'"
    and pull_ids: "inv c \<Longrightarrow> amount n \<Longrightarrow> c_PullMessages C now c q n lo hi ack = (c', Inr r) \<Longrightarrow>
      distinct r \<and> set r \<subseteq> ids c PRIMARY_POOL q \<and>
      ids c' = pool_move (ids c) PRIMARY_POOL PROCESSING_POOL q (set r) \<and> inv c'"
    and pull_length: "inv c \<Longrightarrow> amount n \<Longrightarrow> 0 < n \<Longrightarrow> c_PullMessages C now c q n lo hi ack = (c', Inr r) \<Longrightarrow> int (length r) \<le> n"
    and pull_error: "inv c \<Longrightarrow> amount n \<Longrightarrow> c_PullMessages C now c q n lo hi ack = (c', Inl e) \<Longrightarrow>
      \<exists>I\<subseteq>ids c PRIMARY_POOL q. ids c' = pool_move (ids c) PRIMARY_POOL PROCESSING_POOL q I \<and> inv c'"
    and make_available_ids: "inv c \<Longrightarrow> c_MakeAvailable C c m = (c', Inr b) \<Longrightarrow>
      b = (msg_ID m \<in> ids c PROCESSING_POOL (msg_Queue m)) \<and>
      ids c' = pool_move (ids c) PROCESSING_POOL PRIMARY_POOL (msg_Queue m) (if b then {msg_ID m} else {}) \<and>
      inv c'"
    and make_available_error: "inv c \<Longrightarrow> c_MakeAvailable C c m = (c', Inl e) \<Longrightarrow>
      (ids c' = ids c \<or> ids c' = pool_remove (ids c) (msg_Queue m) {msg_ID m} \<or>
        msg_ID m \<in> ids c PROCESSING_POOL (msg_Queue m) \<and>
        ids c' = pool_move (ids c) PROCESSING_POOL PRIMARY_POOL (msg_Queue m) {msg_ID m}) \<and> inv c'"
    and lock_ids: "inv c \<Longrightarrow> c_LockMessage C now c m t = (c', Inr b) \<Longrightarrow>
      b = (msg_ID m \<in> ids c PROCESSING_POOL (msg_Queue m)) \<and>
      ids c' = pool_move (ids c) PROCESSING_POOL (lock_pool t) (msg_Queue m) (if b then {msg_ID m} else {}) \<and>
      inv c'"
    and lock_error: "inv c \<Longrightarrow> c_LockMessage C now c m t = (c', Inl e) \<Longrightarrow>
      (ids c' = ids c \<or> msg_ID m \<in> ids c PROCESSING_POOL (msg_Queue m) \<and>
        ids c' = pool_move (ids c) PROCESSING_POOL (lock_pool t) (msg_Queue m) {msg_ID m}) \<and> inv c'"
    and unlock_ids: "inv c \<Longrightarrow> c_UnlockMessages C now c q t = (c', Inr r) \<Longrightarrow>
      \<exists>I. (\<forall>q'. I q' \<subseteq> ids c (lock_pool t) q') \<and> set r = (\<Union>q'. I q') \<and>
          ids c' = pool_moves (ids c) (lock_pool t) PRIMARY_POOL I \<and> inv c'"
    and unlock_error: "inv c \<Longrightarrow> c_UnlockMessages C now c q t = (c', Inl e) \<Longrightarrow>
      \<exists>I. (\<forall>q'. I q' \<subseteq> ids c (lock_pool t) q') \<and> ids c' = pool_moves (ids c) (lock_pool t) PRIMARY_POOL I \<and> inv c'"
    and timeout_ids: "inv c \<Longrightarrow> c_TimeoutMessages C now c q = (c', Inr r) \<Longrightarrow>
      set r \<subseteq> ids c PROCESSING_POOL q \<and>
      ids c' = pool_move (ids c) PROCESSING_POOL PRIMARY_POOL q (set r) \<and> inv c'"
    and timeout_error: "inv c \<Longrightarrow> c_TimeoutMessages C now c q = (c', Inl e) \<Longrightarrow>
      \<exists>I\<subseteq>ids c PROCESSING_POOL q. ids c' = pool_move (ids c) PROCESSING_POOL PRIMARY_POOL q I \<and> inv c'"
    and remove_ids: "inv c \<Longrightarrow> c_Remove C c q del = (c', n, None) \<Longrightarrow>
      ids c' = pool_remove (ids c) q (set del) \<and> inv c'"
    and remove_error: "inv c \<Longrightarrow> c_Remove C c q del = (c', n, Some e) \<Longrightarrow>
      \<exists>I\<subseteq>set del. ids c' = pool_remove (ids c) q I \<and> inv c'"
    and set_ids: "c_Set C c k v = (c', eo) \<Longrightarrow> ids c' = ids c \<and> (inv c \<longrightarrow> inv c')"
    and get_set: "c_Set C c k v = (c', None) \<Longrightarrow> c_Get C c' k = Inr w \<Longrightarrow> w = v"
begin

lemma location_add:
  assumes "I \<inter> known_ids v q0 = {}"
  shows "lifecycle_opt (location v q i) (location (pool_add v q0 I) q i)"
    "location v q i \<noteq> None \<Longrightarrow> location (pool_add v q0 I) q i \<noteq> None"
proof -
  have l: "location (pool_add v q0 I) q i = (if q = q0 \<and> i \<in> I then Some PRIMARY_POOL else location v q i)"
    by (auto simp: location_def pool_add_def)
  moreover have "location v q i = None" if "q = q0" "i \<in> I" using that assms known_ids_iff [of i v q] by auto
  ultimately show "lifecycle_opt (location v q i) (location (pool_add v q0 I) q i)" by (simp add: lifecycle.inserted)
  show "location v q i \<noteq> None \<Longrightarrow> location (pool_add v q0 I) q i \<noteq> None" using l by simp
qed

lemma location_shrink:
  assumes "pool_disjoint v" "\<And>p. v' p q \<subseteq> v p q"
  shows "lifecycle_opt (location v q i) (location v' q i)"
proof (cases "location v' q i")
  case None
  then show ?thesis by (cases "location v q i") (auto intro: lifecycle.removed)
next
  case (Some p)
  then have "i \<in> v' p q" by (auto simp: location_def split: if_splits)
  then have "location v q i = Some p" using assms location_Some by blast
  then show ?thesis using Some by simp
qed

text \<open>
  A call keeps the invariant and moves every message by at most one step of the lifecycle. It loses a message
  only if it is a \<^verbatim>\<open>MakeAvailable\<close> that ends with an error.
\<close>

lemma moves_effect:
  assumes "inv c" "ids c' = pool_moves (ids c) p p' I" "p \<noteq> p'" "\<And>q. I q \<subseteq> ids c p q" "lifecycle (Some p) (Some p')"
  shows "lifecycle_opt (location (ids c) q i) (location (ids c') q i)"
    "location (ids c) q i \<noteq> None \<Longrightarrow> location (ids c') q i \<noteq> None"
proof -
  note d = disjoint [OF assms(1)]
  show "lifecycle_opt (location (ids c) q i) (location (ids c') q i)"
    using lifecycle_moves [OF d assms(3,4,5)] assms(2) by auto
  show "location (ids c) q i \<noteq> None \<Longrightarrow> location (ids c') q i \<noteq> None"
    using location_moves [OF d assms(3,4), of q i] assms(2) by simp
qed

lemma move_effect:
  assumes "inv c" "ids c' = pool_move (ids c) p p' q0 I" "p \<noteq> p'" "I \<subseteq> ids c p q0" "lifecycle (Some p) (Some p')"
  shows "lifecycle_opt (location (ids c) q i) (location (ids c') q i)"
    "location (ids c) q i \<noteq> None \<Longrightarrow> location (ids c') q i \<noteq> None"
  using moves_effect [of c c' p p' "\<lambda>q'. if q' = q0 then I else {}" q i, OF assms(1) _ assms(3) _ assms(5)] assms(2,4)
  by (auto simp: pool_move_moves split: if_splits)

lemma step_effect:
  assumes "cache_step C amount c c'" "inv c"
  shows "inv c' \<and> lifecycle_opt (location (ids c) q i) (location (ids c') q i) \<and>
    (location (ids c) q i \<noteq> None \<longrightarrow> location (ids c') q i \<noteq> None \<or>
     ids c' \<noteq> ids c \<and> (\<exists>m e. c_MakeAvailable C c m = (c', Inl e)))" (is "inv c' \<and> ?life \<and> ?kept")
  using assms(1)
proof (cases rule: cache_step.cases)
  note d = disjoint [OF assms(2)]
  {
    case (insert q0 ms r)
    obtain I where "ids c' = pool_add (ids c) q0 I" "I \<inter> known_ids (ids c) q0 = {}" "inv c'"
    proof (cases r)
      case (Inl e)
      then show ?thesis using insert_error [OF assms(2) insert [unfolded Inl]] that by blast
    next
      case (Inr l)
      then show ?thesis using insert_ids [OF assms(2) insert [unfolded Inr]] that [of "set l"] by blast
    qed
    then show ?thesis using location_add [of I "ids c" q0 q i] by simp
  next
    case (pull now q0 n lo hi ack r)
    obtain I where l: "I \<subseteq> ids c PRIMARY_POOL q0" "inv c'" and v: "ids c' = pool_move (ids c) PRIMARY_POOL PROCESSING_POOL q0 I"
    proof (cases r)
      case (Inl e)
      then show ?thesis using pull_error [OF assms(2) pull(2) pull(1) [unfolded Inl]] that by blast
    next
      case (Inr l)
      then show ?thesis using pull_ids [OF assms(2) pull(2) pull(1) [unfolded Inr]] that by blast
    qed
    show ?thesis using move_effect [OF assms(2) v _ l(1) lifecycle.pulled] l(2) by simp
  next
    case (make_available m r)
    show ?thesis
    proof (cases r)
      case (Inl e)
      note err = make_available_error [OF assms(2) make_available [unfolded Inl]]
      then have ?life
      proof (elim conjE disjE)
        assume i: "msg_ID m \<in> ids c PROCESSING_POOL (msg_Queue m)"
          and v: "ids c' = pool_move (ids c) PROCESSING_POOL PRIMARY_POOL (msg_Queue m) {msg_ID m}"
        show ?thesis by (rule move_effect(1) [OF assms(2) v _ _ lifecycle.returned]) (use i in simp_all)
      qed (auto intro!: location_shrink [OF d] simp: pool_remove_def split: if_splits)
      then show ?thesis using err make_available Inl by (cases "ids c' = ids c") auto
    next
      case (Inr b)
      have l: "(if b then {msg_ID m} else {}) \<subseteq> ids c PROCESSING_POOL (msg_Queue m)" "inv c'"
        and v: "ids c' = pool_move (ids c) PROCESSING_POOL PRIMARY_POOL (msg_Queue m) (if b then {msg_ID m} else {})"
        using make_available_ids [OF assms(2) make_available [unfolded Inr]] by auto
      show ?thesis using move_effect [OF assms(2) v _ l(1) lifecycle.returned] l(2) by simp
    qed
  next
    case (lock now m t r)
    obtain I where l: "I \<subseteq> ids c PROCESSING_POOL (msg_Queue m)" "inv c'"
      and v: "ids c' = pool_move (ids c) PROCESSING_POOL (lock_pool t) (msg_Queue m) I"
    proof (cases r)
      case (Inl e)
      then show ?thesis
        using lock_error [OF assms(2) lock [unfolded Inl]] that [of "{}"] that [of "{msg_ID m}"] by auto
    next
      case (Inr b)
      then show ?thesis
        using lock_ids [OF assms(2) lock [unfolded Inr]] that [of "if b then {msg_ID m} else {}"] by auto
    qed
    show ?thesis using move_effect [OF assms(2) v _ l(1) lifecycle.locked] l(2) by simp
  next
    case (unlock now q0 t r)
    obtain I where l: "\<And>q'. I q' \<subseteq> ids c (lock_pool t) q'" "inv c'"
        and v: "ids c' = pool_moves (ids c) (lock_pool t) PRIMARY_POOL I"
    proof (cases r)
      case (Inl e)
      then show ?thesis using unlock_error [OF assms(2) unlock [unfolded Inl]] that by blast
    next
      case (Inr l)
      then show ?thesis using unlock_ids [OF assms(2) unlock [unfolded Inr]] that by blast
    qed
    show ?thesis using moves_effect [OF assms(2) v _ l(1) lifecycle.unlocked] l(2) by simp
  next
    case (timeout now q0 r)
    obtain I where l: "I \<subseteq> ids c PROCESSING_POOL q0" "inv c'"
        and v: "ids c' = pool_move (ids c) PROCESSING_POOL PRIMARY_POOL q0 I"
    proof (cases r)
      case (Inl e)
      then show ?thesis using timeout_error [OF assms(2) timeout [unfolded Inl]] that by blast
    next
      case (Inr l)
      then show ?thesis using timeout_ids [OF assms(2) timeout [unfolded Inr]] that by blast
    qed
    show ?thesis using move_effect [OF assms(2) v _ l(1) lifecycle.returned] l(2) by simp
  next
    case (set_key k v e)
    then show ?thesis using set_ids [OF set_key] assms(2) by simp
  }
qed

lemma removal_effect:
  assumes "cache_removal C c c'" "inv c"
  shows "inv c' \<and> lifecycle_opt (location (ids c) q i) (location (ids c') q i)"
proof -
  obtain q0 del n e where remove: "c_Remove C c q0 del = (c', n, e)" using assms(1) by (cases rule: cache_removal.cases)
  have "\<exists>I. ids c' = pool_remove (ids c) q0 I \<and> inv c'"
  proof (cases e)
    case None
    then show ?thesis using remove_ids [OF assms(2) remove [unfolded None]] by blast
  next
    case (Some x)
    then show ?thesis using remove_error [OF assms(2) remove [unfolded Some]] by blast
  qed
  then have "inv c' \<and> (\<forall>p. ids c' p q \<subseteq> ids c p q)" by (auto simp: pool_remove_def split: if_splits)
  then show ?thesis using location_shrink [OF disjoint [OF assms(2)]] by blast
qed

text \<open>Sequences of calls without flushes: the invariant holds, and messages only move along the lifecycle.\<close>

lemma exec_effect:
  assumes "op \<noteq> OpFlush" "op_amount amount op" "inv c"
  shows "inv (cache_exec C op c)" "lifecycle_opt (location (ids c) q i) (location (ids (cache_exec C op c)) q i)"
  using step_effect [OF cache_exec_step assms(3)] removal_effect [OF cache_exec_removal assms(3)] assms(1,2)
  by (cases "is_removal op"; blast)+

lemma run_inv: "OpFlush \<notin> set ops \<Longrightarrow> list_all (op_amount amount) ops \<Longrightarrow> inv c \<Longrightarrow> inv (fold (cache_exec C) ops c)"
proof (induction ops arbitrary: c)
  case (Cons op ops)
  then have "inv (cache_exec C op c)" by (intro exec_effect(1)) auto
  with Cons show ?case by simp
qed simp

lemma run_disjoint:
  "OpFlush \<notin> set ops \<Longrightarrow> list_all (op_amount amount) ops \<Longrightarrow> inv c \<Longrightarrow> pool_disjoint (ids (fold (cache_exec C) ops c))"
  using run_inv disjoint by blast

end

text \<open>A cache whose flush leaves nothing behind: then flushes may be part of a sequence of calls as well.\<close>

locale flushable_cache = cache_contract +
  assumes flush_ids: "inv c \<Longrightarrow> ids (c_Flush C c) = (\<lambda>p q. {}) \<and> inv (c_Flush C c)"
begin

lemma flush_effect:
  assumes "inv c"
  shows "inv (c_Flush C c)" "lifecycle_opt (location (ids c) q i) (location (ids (c_Flush C c)) q i)"
proof -
  show "inv (c_Flush C c)" using flush_ids [OF assms] by blast
  have "\<And>p. ids (c_Flush C c) p q \<subseteq> ids c p q" using flush_ids [OF assms] by simp
  then show "lifecycle_opt (location (ids c) q i) (location (ids (c_Flush C c)) q i)"
    by (rule location_shrink [OF disjoint [OF assms]])
qed

lemma any_exec_effect:
  assumes "op_amount amount op" "inv c"
  shows "inv (cache_exec C op c)" "lifecycle_opt (location (ids c) q i) (location (ids (cache_exec C op c)) q i)"
proof -
  show "inv (cache_exec C op c)"
    using exec_effect(1) [of op, OF _ assms] flush_effect(1) [OF assms(2)] by (cases "op = OpFlush") simp_all
  show "lifecycle_opt (location (ids c) q i) (location (ids (cache_exec C op c)) q i)"
    using exec_effect(2) [of op, OF _ assms] flush_effect(2) [OF assms(2)] by (cases "op = OpFlush") simp_all
qed

lemma any_run_inv: "list_all (op_amount amount) ops \<Longrightarrow> inv c \<Longrightarrow> inv (fold (cache_exec C) ops c)"
proof (induction ops arbitrary: c)
  case (Cons op ops)
  show ?case using Cons.IH [OF _ any_exec_effect(1) [OF _ Cons.prems(2)]] Cons.prems(1) by simp
qed simp

end

text \<open>
  A cache that loses no message on an error. Without removals and flushes it then loses no message at all.
\<close>

locale lossless_cache = flushable_cache +
  assumes make_available_keeps: "inv c \<Longrightarrow> c_MakeAvailable C c m = (c', Inl e) \<Longrightarrow> ids c' = ids c"
begin

lemma steps_keep:
  assumes "(cache_step C amount)\<^sup>*\<^sup>* c c'" "inv c"
  shows "known_ids (ids c) q \<subseteq> known_ids (ids c') q \<and> inv c'"
  using assms(1)
proof (induction rule: rtranclp_induct)
  case (step c1 c2)
  have "location (ids c2) q i \<noteq> None" if "location (ids c1) q i \<noteq> None" for i
    using step_effect [OF step.hyps(2), of q i] step.IH make_available_keeps that by blast
  then have "known_ids (ids c1) q \<subseteq> known_ids (ids c2) q" by (auto simp: known_ids_iff)
  then show ?case using step_effect [OF step.hyps(2)] step.IH by blast
qed (use assms(2) in simp)

end

end
