(* ===== verification/Storage_Interface.thy ===== *)
theory Storage_Interface
  imports Message
begin

text \<open>
  \<^verbatim>\<open>internal/queue/storage/storage.go\<close>: the interface \<^verbatim>\<open>Storage\<close> as a record of its methods over the
  state \<open>'s\<close> of an implementation, its find options, and the contract its clients rely on.
\<close>

section \<open>The interface\<close>

record InternalFilter =
  if_InternalIdBreakpointGt :: string
  if_InternalIdBreakpointLte :: string
  if_Ids :: "string list option"
  if_Queue :: string
  if_QueuePrefix :: string
  if_ExpiryDate :: "time option"

text \<open>The ordered map of the sort is the list of its entries in insertion order.\<close>

record FindOptions =
  fo_Projection :: "(string \<times> int) list option"
  fo_Sort :: "(string \<times> int) list option"
  fo_Limit :: int64
  fo_InternalFilter :: "InternalFilter option"
  fo_Retry :: bool
  fo_Comment :: string

record CountOptions =
  co_Comment :: string

definition zero_InternalFilter :: InternalFilter where
  "zero_InternalFilter =
     \<lparr>if_InternalIdBreakpointGt = [], if_InternalIdBreakpointLte = [], if_Ids = None, if_Queue = [],
      if_QueuePrefix = [], if_ExpiryDate = None\<rparr>"

definition zero_FindOptions :: FindOptions where
  "zero_FindOptions =
     \<lparr>fo_Projection = None, fo_Sort = None, fo_Limit = 0, fo_InternalFilter = None,
      fo_Retry = False, fo_Comment = []\<rparr>"

record 's Storage =
  s_Insert :: "time \<Rightarrow> 's \<Rightarrow> Message list \<Rightarrow> 's \<times> (int64 \<times> int64) result"
  s_Find :: "time \<Rightarrow> 's \<Rightarrow> FindOptions option \<Rightarrow> Message list result"
  s_Remove :: "'s \<Rightarrow> string \<Rightarrow> string list \<Rightarrow> 's \<times> int64 result"
  s_Ack :: "'s \<Rightarrow> Message \<Rightarrow> 's \<times> int64 result"
  s_Nack :: "'s \<Rightarrow> Message \<Rightarrow> 's \<times> int64 result"
  s_ListQueueNames :: "'s \<Rightarrow> string list result"
  s_ListQueuePrefixes :: "'s \<Rightarrow> string list result"
  s_Count :: "'s \<Rightarrow> FindOptions option \<Rightarrow> CountOptions option \<Rightarrow> int64 result"
  s_GetStringInternalId :: "'s \<Rightarrow> Message \<Rightarrow> string result"
  s_EditQueueConfiguration :: "'s \<Rightarrow> QueueConfiguration \<Rightarrow> 's \<times> go_error option"
  s_GetQueueConfiguration :: "'s \<Rightarrow> string \<Rightarrow> QueueConfiguration option result"
  s_ListQueueConfigurations :: "'s \<Rightarrow> QueueConfiguration list result"
  s_Flush :: "'s \<Rightarrow> 's \<times> int64 result"

section \<open>The contract\<close>

text \<open>
  The abstract state of a storage is the set of pairs of queue and id it holds. \<open>valid_id\<close> restricts
  the ids for which an implementation keeps messages apart; \<open>expired\<close> says which messages a find may
  leave out.
\<close>

type_synonym stored_ids = "(string \<times> string) set"

definition message_key :: "Message \<Rightarrow> string \<times> string" where
  "message_key m = (msg_Queue m, msg_ID m)"

definition ids_filter :: "string \<Rightarrow> string list \<Rightarrow> FindOptions \<Rightarrow> bool" where
  "ids_filter q ids opt \<longleftrightarrow>
     fo_InternalFilter opt = Some (zero_InternalFilter\<lparr>if_Ids := Some ids, if_Queue := q\<rparr>) \<and>
     fo_Projection opt = None \<and> fo_Limit opt = int (length ids)"

text \<open>A projection that leaves the queue and the id of the messages in the result.\<close>

definition keeps_key :: "FindOptions option \<Rightarrow> bool" where
  "keeps_key opt \<longleftrightarrow> (case opt of None \<Rightarrow> True | Some fo \<Rightarrow> (case fo_Projection fo of None \<Rightarrow> True
     | Some p \<Rightarrow> map_of p ''id'' = Some 1 \<and> map_of p ''queue'' = Some 1))"

locale storage_contract =
  fixes S :: "'s Storage" and stored :: "'s \<Rightarrow> stored_ids" and expired :: "time \<Rightarrow> 's \<Rightarrow> stored_ids"
    and valid_id :: "string \<Rightarrow> bool" and inv :: "'s \<Rightarrow> bool"
  assumes insert_stored: "inv s \<Longrightarrow> \<forall>m\<in>set ms. valid_id (msg_ID m) \<Longrightarrow> s_Insert S now s ms = (s', Inr n) \<Longrightarrow>
      stored s' = stored s \<union> message_key ` set ms \<and> inv s'"
    and insert_error: "inv s \<Longrightarrow> \<forall>m\<in>set ms. valid_id (msg_ID m) \<Longrightarrow> s_Insert S now s ms = (s', Inl e) \<Longrightarrow>
      stored s \<subseteq> stored s' \<and> inv s'"
    and find_stored: "inv s \<Longrightarrow> keeps_key opt \<Longrightarrow> s_Find S now s opt = Inr r \<Longrightarrow> message_key ` set r \<subseteq> stored s"
    and find_ids: "inv s \<Longrightarrow> ids \<noteq> [] \<Longrightarrow> q \<noteq> [] \<Longrightarrow> ids_filter q ids fo \<Longrightarrow> s_Find S now s (Some fo) = Inr r \<Longrightarrow>
      distinct (map msg_ID r) \<and> (\<forall>m\<in>set r. msg_Queue m = q \<and> msg_ID m \<in> set ids) \<and>
      (\<forall>i\<in>set ids. (q, i) \<in> stored s - expired now s \<longrightarrow> i \<in> msg_ID ` set r)"
    and remove_stored: "inv s \<Longrightarrow> s_Remove S s q ids = (s', Inr k) \<Longrightarrow>
      stored s' = stored s - {q} \<times> set ids \<and> inv s'"
    and remove_error: "inv s \<Longrightarrow> s_Remove S s q ids = (s', Inl e) \<Longrightarrow> stored s' = stored s \<and> inv s'"
    and ack_stored: "inv s \<Longrightarrow> s_Ack S s m = (s', rk) \<Longrightarrow> stored s' = stored s \<and> inv s'"
    and nack_stored: "inv s \<Longrightarrow> s_Nack S s m = (s', rk) \<Longrightarrow> stored s' = stored s \<and> inv s'"
    and edit_stored: "inv s \<Longrightarrow> s_EditQueueConfiguration S s cfg = (s', eo) \<Longrightarrow> stored s' = stored s \<and> inv s'"
    and flush_stored: "inv s \<Longrightarrow> s_Flush S s = (s', Inr k) \<Longrightarrow> stored s' = {} \<and> inv s'"
    and flush_error: "inv s \<Longrightarrow> s_Flush S s = (s', Inl e) \<Longrightarrow> stored s' \<subseteq> stored s \<and> inv s'"
    and named: "inv s \<Longrightarrow> (q, i) \<in> stored s \<Longrightarrow> q \<noteq> [] \<and> i \<noteq> []"

section \<open>Sequences of writes\<close>

datatype storage_op =
    OpStore time "Message list"
  | OpDelete string "string list"
  | OpAcked Message
  | OpNacked Message
  | OpConfigure QueueConfiguration
  | OpDeleteAll

fun storage_exec :: "'s Storage \<Rightarrow> storage_op \<Rightarrow> 's \<Rightarrow> 's" where
  "storage_exec S (OpStore now ms) s = fst (s_Insert S now s ms)"
| "storage_exec S (OpDelete q ids) s = fst (s_Remove S s q ids)"
| "storage_exec S (OpAcked m) s = fst (s_Ack S s m)"
| "storage_exec S (OpNacked m) s = fst (s_Nack S s m)"
| "storage_exec S (OpConfigure cfg) s = fst (s_EditQueueConfiguration S s cfg)"
| "storage_exec S OpDeleteAll s = fst (s_Flush S s)"

end
