(* ===== verification/Auditing.thy ===== *)
theory Auditing
  imports Message
begin

text \<open>
  \<^verbatim>\<open>internal/audit\<close>: the entries, \<^verbatim>\<open>NewAuditor\<close>, \<^verbatim>\<open>Store\<close>, and the loop of \<^verbatim>\<open>StartSender\<close> as a transition relation. The
  body of a bulk request to Elasticsearch is the list of the entries in it; how the request ends is part of the
  event that sends it.
\<close>

section \<open>Entries\<close>

datatype Signal = ACK | NACK | TIMEOUT | REMOVE | UNLOCK | INSERT_CACHE | MISSING_STORAGE

record Entry =
  en_ID :: string
  en_Queue :: string
  en_QueuePrefix :: string
  en_QueueSuffix :: string
  en_LastScoreSubtract :: float64
  en_Timestamp :: time
  en_Breakpoint :: string
  en_Signal :: Signal
  en_Reason :: string
  en_LockMs :: int64

definition audit_entry :: "string \<Rightarrow> string \<Rightarrow> Signal \<Rightarrow> Entry" where
  "audit_entry i queue signal =
     \<lparr>en_ID = i, en_Queue = queue, en_QueuePrefix = [], en_QueueSuffix = [], en_LastScoreSubtract = Fin 0,
      en_Timestamp = zero_time, en_Breakpoint = [], en_Signal = signal, en_Reason = [], en_LockMs = 0\<rparr>"

section \<open>Storing entries\<close>

text \<open>
  The channel of the auditor as the list of the entries that wait in it. The requests and tasks that store
  entries are single steps, so the list has no bound here; the relation below has the bound of the channel.
\<close>

record AuditorImpl =
  au_enabled :: bool
  au_entries :: "Entry list"

text \<open>
  The arguments are the setting \<^verbatim>\<open>audit.enabled\<close>, the errors of creating the Elasticsearch client and of the ping, and
  whether the answer to the ping is an error.
\<close>

definition NewAuditor :: "bool \<Rightarrow> go_error option \<Rightarrow> go_error option \<Rightarrow> bool \<Rightarrow> AuditorImpl result" where
  "NewAuditor auditEnabled clientErr pingErr pongIsError =
     (if \<not> auditEnabled then Inr \<lparr>au_enabled = False, au_entries = []\<rparr>
      else (case clientErr of
              Some err \<Rightarrow> Inl err
            | None \<Rightarrow>
                (case pingErr of
                   Some err \<Rightarrow> Inl err
                 | None \<Rightarrow>
                     if pongIsError then Inl (Err ''error with ping request'')
                     else Inr \<lparr>au_enabled = True, au_entries = []\<rparr>)))"

definition complete_entry :: "time \<Rightarrow> Entry \<Rightarrow> Entry" where
  "complete_entry now entry =
     (let (queuePrefix, queueSuffix) = GetQueueParts (en_Queue entry);
          e1 = entry\<lparr>en_Timestamp := now, en_QueuePrefix := queuePrefix\<rparr>
      in if queueSuffix \<noteq> [] then e1\<lparr>en_QueueSuffix := queueSuffix\<rparr> else e1)"

definition AuditorImpl_Store :: "time \<Rightarrow> AuditorImpl \<Rightarrow> Entry \<Rightarrow> AuditorImpl" where
  "AuditorImpl_Store now a entry =
     (if \<not> au_enabled a then a
      else a\<lparr>au_entries := au_entries a @ [complete_entry now entry]\<rparr>)"

section \<open>Sending entries\<close>

definition maxEntriesSize :: nat where
  "maxEntriesSize = 200"

definition channel_capacity :: nat where
  "channel_capacity = 10000"

text \<open>
  \<^verbatim>\<open>json.Marshal\<close> fails on a number that JSON does not have and on a year that has not four digits.
\<close>

definition json_ok :: "Entry \<Rightarrow> bool" where
  "json_ok entry \<longleftrightarrow> (case en_LastScoreSubtract entry of Fin r \<Rightarrow> True | _ \<Rightarrow> False) \<and>
     - 62167219200000000000 \<le> en_Timestamp entry \<and> en_Timestamp entry < 253402300800000000000"

datatype bulk_outcome = BulkFailed | BulkErrorResponse | BulkDone

text \<open>
  The sender: the channel, the entries collected so far, the bulk requests with their bodies and outcomes, and
  whether the channel is closed. A select takes an entry, sees the timer fire or sees the context done.
\<close>

record Sender =
  sn_entries :: "Entry list"
  sn_entriesToSend :: "Entry list"
  sn_requests :: "(Entry list \<times> bulk_outcome) list"
  sn_closed :: bool

definition send :: "bulk_outcome \<Rightarrow> Entry list \<Rightarrow> Sender \<Rightarrow> Sender" where
  "send outcome entries s =
     (if length entries = 0 then s
      else let body = filter json_ok entries
           in s\<lparr>sn_requests := sn_requests s @ [(body, outcome)]\<rparr>)"

definition sender_receive :: "bulk_outcome \<Rightarrow> Sender \<Rightarrow> Sender" where
  "sender_receive outcome s =
     (case sn_entries s of
        [] \<Rightarrow> s
      | entry # rest \<Rightarrow>
          let s1 = s\<lparr>sn_entries := rest, sn_entriesToSend := sn_entriesToSend s @ [entry]\<rparr>
          in if length (sn_entriesToSend s1) = maxEntriesSize
             then (send outcome (sn_entriesToSend s1) s1)\<lparr>sn_entriesToSend := []\<rparr>
             else s1)"

definition sender_tick :: "bulk_outcome \<Rightarrow> Sender \<Rightarrow> Sender" where
  "sender_tick outcome s =
     (if length (sn_entriesToSend s) > 0
      then (send outcome (sn_entriesToSend s) s)\<lparr>sn_entriesToSend := []\<rparr> else s)"

definition sender_done :: "bulk_outcome \<Rightarrow> Sender \<Rightarrow> Sender" where
  "sender_done outcome s = send outcome (sn_entriesToSend s) (s\<lparr>sn_closed := True\<rparr>)"

text \<open>
  A goroutine that stores an entry waits while the channel is full, and panics once it is closed. An event that
  may send a request carries the outcome of the request.
\<close>

datatype sender_event =
    EvStore Entry
  | EvStorePanic Entry
  | EvReceive bulk_outcome
  | EvTick bulk_outcome
  | EvDone bulk_outcome

inductive sender_step :: "Sender \<Rightarrow> sender_event \<Rightarrow> Sender \<Rightarrow> bool" where
  store: "\<not> sn_closed s \<Longrightarrow> length (sn_entries s) < channel_capacity \<Longrightarrow>
    sender_step s (EvStore e) (s\<lparr>sn_entries := sn_entries s @ [e]\<rparr>)"
| store_panic: "sn_closed s \<Longrightarrow> sender_step s (EvStorePanic e) s"
| receive: "\<not> sn_closed s \<Longrightarrow> sn_entries s \<noteq> [] \<Longrightarrow> sender_step s (EvReceive r) (sender_receive r s)"
| tick: "\<not> sn_closed s \<Longrightarrow> sender_step s (EvTick r) (sender_tick r s)"
| context_done: "\<not> sn_closed s \<Longrightarrow> sender_step s (EvDone r) (sender_done r s)"

inductive sender_trace :: "Sender \<Rightarrow> sender_event list \<Rightarrow> Sender \<Rightarrow> bool" where
  trace_nil: "sender_trace s [] s"
| trace_snoc: "sender_trace s evs s1 \<Longrightarrow> sender_step s1 ev s2 \<Longrightarrow> sender_trace s (evs @ [ev]) s2"

definition StartSender :: Sender where
  "StartSender = \<lparr>sn_entries = [], sn_entriesToSend = [], sn_requests = [], sn_closed = False\<rparr>"

section \<open>What happens to the entries\<close>

fun stored_entry :: "sender_event \<Rightarrow> Entry list" where
  "stored_entry (EvStore e) = [e]"
| "stored_entry _ = []"

abbreviation stored_entries :: "sender_event list \<Rightarrow> Entry list" where
  "stored_entries evs \<equiv> concat (map stored_entry evs)"

abbreviation request_bodies :: "Sender \<Rightarrow> Entry list" where
  "request_bodies s \<equiv> concat (map fst (sn_requests s))"

text \<open>\<open>taken\<close> are the entries that have been handed to a request.\<close>

definition sender_ok :: "Entry list \<Rightarrow> Entry list \<Rightarrow> Sender \<Rightarrow> bool" where
  "sender_ok hist taken s \<longleftrightarrow>
     hist = taken @ (if sn_closed s then [] else sn_entriesToSend s) @ sn_entries s \<and>
     request_bodies s = filter json_ok taken \<and> (\<forall>r\<in>set (sn_requests s). length (fst r) \<le> maxEntriesSize) \<and>
     (\<not> sn_closed s \<longrightarrow> length (sn_entriesToSend s) < maxEntriesSize) \<and> length (sn_entries s) \<le> channel_capacity"

lemma body_length: "length (filter P xs) \<le> n" if "length xs \<le> n" for n :: nat
  using that length_filter_le [of P xs] by linarith

lemma sender_ok_receive:
  assumes "sender_ok hist taken s" "\<not> sn_closed s" "sn_entries s = entry # rest"
  shows "\<exists>taken'. sender_ok hist taken' (sender_receive r s)"
proof (cases "length (sn_entriesToSend s @ [entry]) = maxEntriesSize")
  case True
  then have "sender_ok hist (taken @ sn_entriesToSend s @ [entry]) (sender_receive r s)"
    using assms body_length [of "sn_entriesToSend s @ [entry]" maxEntriesSize json_ok]
    by (auto simp: sender_ok_def sender_receive_def send_def Let_def maxEntriesSize_def)
  then show ?thesis by blast
next
  case False
  then have "sender_ok hist taken (sender_receive r s)"
    using assms by (auto simp: sender_ok_def sender_receive_def Let_def)
  then show ?thesis by blast
qed

lemma sender_ok_tick:
  assumes "sender_ok hist taken s" "\<not> sn_closed s"
  shows "sender_ok hist (taken @ sn_entriesToSend s) (sender_tick r s)"
    "sender_ok hist (taken @ sn_entriesToSend s) (sender_done r s)"
  using assms body_length [of "sn_entriesToSend s" maxEntriesSize json_ok]
  by (auto simp: sender_ok_def sender_tick_def sender_done_def send_def Let_def maxEntriesSize_def)

lemma sender_ok_step:
  assumes "sender_step s ev s'" "sender_ok hist taken s"
  shows "\<exists>taken'. sender_ok (hist @ stored_entry ev) taken' s'"
  using assms(1)
proof (cases rule: sender_step.cases)
  case (store e)
  then have "sender_ok (hist @ [e]) taken s'" using assms(2) by (simp add: sender_ok_def)
  then show ?thesis using store by auto
next
  case (receive r)
  then obtain entry rest where "sn_entries s = entry # rest" by (cases "sn_entries s") auto
  from sender_ok_receive [OF assms(2) receive(3) this] show ?thesis using receive by simp
qed (use assms(2) sender_ok_tick [OF assms(2)] in auto)

lemma sender_trace_ok:
  "sender_trace s evs s' \<Longrightarrow> sender_ok hist taken s \<Longrightarrow> \<exists>taken'. sender_ok (hist @ stored_entries evs) taken' s'"
proof (induction rule: sender_trace.induct)
  case (trace_snoc s evs s1 ev s2)
  then show ?case using sender_ok_step by (metis append.assoc append_Nil2 concat.simps concat_append list.map map_append)
qed auto

lemma sender_start_ok: "sender_ok [] [] StartSender"
  by (simp add: sender_ok_def StartSender_def maxEntriesSize_def channel_capacity_def)

text \<open>
  C30: at every moment the entries stored so far are, in the order of their \<^verbatim>\<open>Store\<close>, the entries \<open>taken\<close> for a request,
  then the collected ones, then the ones that wait in the channel, and the bodies of the requests are
  together the entries of \<open>taken\<close> that can be written as JSON, each once and in this order. So before the shutdown
  no entry is skipped, repeated or reordered; after it exactly the entries that waited in the channel are in no
  request. Whether a request succeeds is up to Elasticsearch: a failed one is not repeated. No request has
  more than 200 entries, and at most 10000 wait.
\<close>

theorem audit_sender_fifo:
  assumes "sender_trace StartSender evs s"
  shows "\<exists>taken. stored_entries evs = taken @ (if sn_closed s then [] else sn_entriesToSend s) @ sn_entries s \<and>
    concat (map fst (sn_requests s)) = filter json_ok taken \<and>
    (\<forall>r\<in>set (sn_requests s). length (fst r) \<le> 200) \<and> length (sn_entries s) \<le> 10000"
  using sender_trace_ok [OF assms sender_start_ok]
  by (auto simp: sender_ok_def maxEntriesSize_def channel_capacity_def)

definition sample_entry :: "string \<Rightarrow> float64 \<Rightarrow> Entry" where
  "sample_entry i sub = (audit_entry i ''q'' ACK)\<lparr>en_Timestamp := 1700000000000000000, en_LastScoreSubtract := sub\<rparr>"

definition sample_events :: "sender_event list" where
  "sample_events =
     [EvStore (sample_entry ''a'' (Fin 0)), EvStore (sample_entry ''b'' NaN), EvReceive BulkDone, EvReceive BulkDone,
      EvTick BulkFailed, EvStore (sample_entry ''c'' (Fin 1))]"

definition sample_sender :: Sender where
  "sample_sender =
     \<lparr>sn_entries = [sample_entry ''c'' (Fin 1)], sn_entriesToSend = [],
      sn_requests = [([sample_entry ''a'' (Fin 0)], BulkFailed)], sn_closed = False\<rparr>"

lemma sample_trace: "sender_trace StartSender sample_events sample_sender"
proof -
  let ?a = "sample_entry ''a'' (Fin 0)" and ?b = "sample_entry ''b'' NaN" and ?c = "sample_entry ''c'' (Fin 1)"
  let ?s = "\<lambda>wait held reqs. \<lparr>sn_entries = wait, sn_entriesToSend = held, sn_requests = reqs, sn_closed = False\<rparr>"
  have j: "json_ok ?a" "\<not> json_ok ?b" by (simp_all add: json_ok_def sample_entry_def audit_entry_def)
  have 1: "sender_step StartSender (EvStore ?a) (?s [?a] [] [])"
    using sender_step.store [of StartSender ?a] by (simp add: StartSender_def channel_capacity_def)
  have 2: "sender_step (?s [?a] [] []) (EvStore ?b) (?s [?a, ?b] [] [])"
    using sender_step.store [of "?s [?a] [] []" ?b] by (simp add: channel_capacity_def)
  have 3: "sender_step (?s [?a, ?b] [] []) (EvReceive BulkDone) (?s [?b] [?a] [])"
    using sender_step.receive [of "?s [?a, ?b] [] []" BulkDone] by (simp add: sender_receive_def maxEntriesSize_def)
  have 4: "sender_step (?s [?b] [?a] []) (EvReceive BulkDone) (?s [] [?a, ?b] [])"
    using sender_step.receive [of "?s [?b] [?a] []" BulkDone] by (simp add: sender_receive_def maxEntriesSize_def)
  have 5: "sender_step (?s [] [?a, ?b] []) (EvTick BulkFailed) (?s [] [] [([?a], BulkFailed)])"
    using sender_step.tick [of "?s [] [?a, ?b] []" BulkFailed] j by (simp add: sender_tick_def send_def Let_def)
  have 6: "sender_step (?s [] [] [([?a], BulkFailed)]) (EvStore ?c) sample_sender"
    using sender_step.store [of "?s [] [] [([?a], BulkFailed)]" ?c] by (simp add: sample_sender_def channel_capacity_def)
  have t0: "sender_trace StartSender [] StartSender" by (rule trace_nil)
  note t3 = trace_snoc [OF trace_snoc [OF trace_snoc [OF t0 1] 2] 3]
  note t6 = trace_snoc [OF trace_snoc [OF trace_snoc [OF t3 4] 5] 6]
  then show ?thesis by (simp add: sample_events_def)
qed

theorem audit_sender_fifo_witness:
  "\<exists>taken. stored_entries sample_events = taken @ [sample_entry ''c'' (Fin 1)] \<and>
     filter json_ok taken = [sample_entry ''a'' (Fin 0)]"
  using audit_sender_fifo [OF sample_trace] by (simp add: sample_sender_def) metis

section \<open>Progress\<close>

lemma sender_trace_append: "sender_trace s1 evs' s2 \<Longrightarrow> sender_trace s evs s1 \<Longrightarrow> sender_trace s (evs @ evs') s2"
  by (induction rule: sender_trace.induct) (auto simp: append_assoc [symmetric] simp del: append_assoc intro: trace_snoc)

lemma receive_all:
  "\<not> sn_closed s \<Longrightarrow> \<exists>s'. sender_trace s (replicate (length (sn_entries s)) (EvReceive r)) s' \<and> sn_entries s' = [] \<and> \<not> sn_closed s'"
proof (induction "length (sn_entries s)" arbitrary: s)
  case (Suc n)
  then obtain entry rest where e: "sn_entries s = entry # rest" by (cases "sn_entries s") auto
  let ?s = "sender_receive r s"
  have c: "\<not> sn_closed ?s" "sn_entries ?s = rest" using Suc.prems e by (simp_all add: sender_receive_def send_def Let_def)
  have "sender_step s (EvReceive r) ?s" using Suc.prems e by (intro sender_step.receive) simp_all
  then have t: "sender_trace s [EvReceive r] ?s" using trace_snoc [OF trace_nil] by fastforce
  obtain s' where "sender_trace ?s (replicate (length rest) (EvReceive r)) s'" "sn_entries s' = []" "\<not> sn_closed s'"
    using Suc.hyps(1) [of ?s] Suc.hyps(2) c e by auto
  then show ?case using sender_trace_append [OF _ t] e by auto
qed (auto intro: trace_nil)

text \<open>
  C31: while the sender runs, everything stored gets into a request: once it has received the waiting entries, one
  firing of its timer puts all entries that can be written as JSON into requests, whatever the outcomes of the
  requests are.
\<close>

theorem audit_sender_drains:
  assumes "sender_trace StartSender evs s" "\<not> sn_closed s"
  shows "\<exists>s'. sender_trace StartSender (evs @ replicate (length (sn_entries s)) (EvReceive r) @ [EvTick r]) s' \<and>
    sn_entries s' = [] \<and> sn_entriesToSend s' = [] \<and>
    concat (map fst (sn_requests s')) = filter json_ok (stored_entries evs)"
proof -
  let ?rs = "replicate (length (sn_entries s)) (EvReceive r)"
  obtain s1 where s1: "sender_trace s ?rs s1" "sn_entries s1 = []" "\<not> sn_closed s1"
    using receive_all [OF assms(2)] by blast
  let ?s2 = "sender_tick r s1"
  have "sender_trace StartSender ((evs @ ?rs) @ [EvTick r]) ?s2"
    by (rule trace_snoc [OF sender_trace_append [OF s1(1) assms(1)] sender_step.tick [OF s1(3)]])
  then have t: "sender_trace StartSender (evs @ ?rs @ [EvTick r]) ?s2" by simp
  have e: "sn_entries ?s2 = []" "sn_entriesToSend ?s2 = []" "\<not> sn_closed ?s2"
    using s1 by (simp_all add: sender_tick_def send_def Let_def)
  have z: "stored_entries ?rs = []" by (simp add: concat_replicate_trivial)
  obtain taken where "sender_ok (stored_entries (evs @ ?rs @ [EvTick r])) taken ?s2"
    using sender_trace_ok [OF t sender_start_ok] by auto
  then have "request_bodies ?s2 = filter json_ok (stored_entries evs)" using e z by (simp add: sender_ok_def)
  then show ?thesis using t e by blast
qed

theorem audit_sender_drains_witness:
  "\<exists>s'. sender_trace StartSender (sample_events @ [EvReceive BulkDone, EvTick BulkDone]) s' \<and>
     concat (map fst (sn_requests s')) = [sample_entry ''a'' (Fin 0), sample_entry ''c'' (Fin 1)]"
proof -
  have n: "\<not> sn_closed sample_sender" by (simp add: sample_sender_def)
  have f: "filter json_ok (stored_entries sample_events) = [sample_entry ''a'' (Fin 0), sample_entry ''c'' (Fin 1)]"
    by (simp add: sample_events_def json_ok_def sample_entry_def audit_entry_def)
  show ?thesis
    using audit_sender_drains [OF sample_trace n, where r = BulkDone] unfolding f by (auto simp: sample_sender_def)
qed

end
