(* ===== verification/Queue_Core.thy ===== *)
theory Queue_Core
  imports Cache_Contract Storage_Interface Auditing
begin

text \<open>
  \<^verbatim>\<open>internal/queue/queue.go\<close>: the queue that combines a cache, a storage and an auditor. Its operations take
  the two implementations as records of methods, so the same definitions describe a queue over any of
  them. The n-th argument of a \<open>clock\<close> is the n-th instant an operation reads. Counters of the
  metrics are a list of additions; log messages are left out.
\<close>

section \<open>State\<close>

type_synonym clock = "nat \<Rightarrow> time"

datatype metric_event = MetricAdd string int64 "(string \<times> string) list"

record ('c, 's) Queue =
  q_cache :: 'c
  q_storage :: 's
  q_auditor :: AuditorImpl
  q_metrics :: "metric_event list"

definition NewQueue :: "AuditorImpl \<Rightarrow> 's \<Rightarrow> 'c \<Rightarrow> ('c, 's) Queue" where
  "NewQueue auditor storageImpl cache =
     \<lparr>q_cache = cache, q_storage = storageImpl, q_auditor = auditor, q_metrics = []\<rparr>"

definition q_audit :: "time \<Rightarrow> Entry \<Rightarrow> ('c, 's) Queue \<Rightarrow> ('c, 's) Queue" where
  "q_audit now entry pool = pool\<lparr>q_auditor := AuditorImpl_Store now (q_auditor pool) entry\<rparr>"

definition q_audits :: "time \<Rightarrow> Entry list \<Rightarrow> ('c, 's) Queue \<Rightarrow> ('c, 's) Queue" where
  "q_audits now entries pool = fold (q_audit now) entries pool"

definition q_metric :: "string \<Rightarrow> int64 \<Rightarrow> (string \<times> string) list \<Rightarrow> ('c, 's) Queue \<Rightarrow> ('c, 's) Queue" where
  "q_metric name n attrs pool = pool\<lparr>q_metrics := q_metrics pool @ [MetricAdd name n attrs]\<rparr>"

definition queue_attr :: "string \<Rightarrow> string \<times> string" where
  "queue_attr queue = (''queue'', GetQueuePrefix queue)"

section \<open>Counting, finding and inserting\<close>

definition Queue_Count :: "'s Storage \<Rightarrow> ('c, 's) Queue \<Rightarrow> FindOptions option \<Rightarrow> int64 result" where
  "Queue_Count S pool opts =
     (let opts' = (case opts of None \<Rightarrow> zero_FindOptions\<lparr>fo_Comment := ''queue.Count''\<rparr> | Some fo \<Rightarrow> fo)
      in case s_Count S (q_storage pool)
                (Some (zero_FindOptions\<lparr>fo_InternalFilter := fo_InternalFilter opts',
                                        fo_Comment := ''queue.Count''\<rparr>))
                (Some \<lparr>co_Comment = ''queue.Count''\<rparr>) of
           Inl e \<Rightarrow> Inl (Err ''internal error counting elements'')
         | Inr n \<Rightarrow> Inr n)"

definition Queue_GetStorageMessages ::
    "'s Storage \<Rightarrow> time \<Rightarrow> ('c, 's) Queue \<Rightarrow> FindOptions option \<Rightarrow> Message list result" where
  "Queue_GetStorageMessages S now pool opt = s_Find S now (q_storage pool) opt"

definition AddMessagesToStorage ::
    "'s Storage \<Rightarrow> time \<Rightarrow> ('c, 's) Queue \<Rightarrow> Message list \<Rightarrow> ('c, 's) Queue \<times> (int64 \<times> int64) result" where
  "AddMessagesToStorage S now pool messages =
     (let (st, r) = s_Insert S now (q_storage pool) messages in (pool\<lparr>q_storage := st\<rparr>, r))"

fun members_by_queue :: "Message list \<Rightarrow> (string, Message list) gomap \<Rightarrow> (string, Message list) gomap" where
  "members_by_queue [] m = m"
| "members_by_queue (message # messages) m =
     (let queueMessages = (case map_of m (msg_Queue message) of None \<Rightarrow> [] | Some l \<Rightarrow> l)
      in members_by_queue messages (AList.update (msg_Queue message) (queueMessages @ [message]) m))"

fun add_to_cache_loop ::
    "'c Cache \<Rightarrow> time \<Rightarrow> string \<Rightarrow> (string, Message list) gomap \<Rightarrow> string list \<Rightarrow> int64 \<Rightarrow> ('c, 's) Queue \<Rightarrow>
     ('c, 's) Queue \<times> int64 result" where
  "add_to_cache_loop C now reason members [] cnt pool = (pool, Inr cnt)"
| "add_to_cache_loop C now reason members (queueName # names) cnt pool =
     (let elements = the (map_of members queueName);
          (ca, r) = c_Insert C (q_cache pool) queueName elements;
          p1 = pool\<lparr>q_cache := ca\<rparr>
      in case r of
           Inl e \<Rightarrow> (p1, Inl (Wrap ''error inserting cache data'' e))
         | Inr insertions \<Rightarrow>
             let p2 = q_audits now
                        (map (\<lambda>i. (audit_entry i queueName INSERT_CACHE)\<lparr>en_Reason := reason\<rparr>) insertions) p1
             in add_to_cache_loop C now reason members names (cnt + int (length insertions)) p2)"

definition AddMessagesToCacheWithAuditReason ::
    "'c Cache \<Rightarrow> (string list \<Rightarrow> string list) \<Rightarrow> time \<Rightarrow> ('c, 's) Queue \<Rightarrow> string \<Rightarrow> Message list \<Rightarrow>
     ('c, 's) Queue \<times> int64 result" where
  "AddMessagesToCacheWithAuditReason C ord now pool reason messages =
     (let membersByQueue = members_by_queue messages []
      in add_to_cache_loop C now reason membersByQueue (ord (map fst membersByQueue)) 0 pool)"

definition AddMessagesToCache ::
    "'c Cache \<Rightarrow> (string list \<Rightarrow> string list) \<Rightarrow> time \<Rightarrow> ('c, 's) Queue \<Rightarrow> Message list \<Rightarrow>
     ('c, 's) Queue \<times> int64 result" where
  "AddMessagesToCache C ord now pool messages =
     AddMessagesToCacheWithAuditReason C ord now pool [] messages"

section \<open>Acks and nacks\<close>

definition ack_entry :: "Message \<Rightarrow> Signal \<Rightarrow> string \<Rightarrow> Entry" where
  "ack_entry msg signal reason =
     (audit_entry (msg_ID msg) (msg_Queue msg) signal)
       \<lparr>en_LastScoreSubtract := msg_LastScoreSubtract msg, en_Breakpoint := msg_Breakpoint msg,
        en_Reason := reason\<rparr>"

text \<open>
  The tails of \<^verbatim>\<open>Nack\<close> and \<^verbatim>\<open>Ack\<close>: the message goes from the processing pool to a lock pool when it has
  a lock time and to the available pool otherwise.
\<close>

definition lock_tail ::
    "'c Cache \<Rightarrow> clock \<Rightarrow> LockType \<Rightarrow> Signal \<Rightarrow> string \<Rightarrow> Message \<Rightarrow> ('c, 's) Queue \<Rightarrow>
     ('c, 's) Queue \<times> bool result" where
  "lock_tail C clk lockType signal reason msg pool =
     (let (ca, r) = c_LockMessage C (clk 0) (q_cache pool) msg lockType;
          p1 = pool\<lparr>q_cache := ca\<rparr>
      in case r of
           Inl e \<Rightarrow> (p1, Inl e)
         | Inr result \<Rightarrow>
             (q_audit (clk 1) ((ack_entry msg signal reason)\<lparr>en_LockMs := msg_LockMs msg\<rparr>) p1, Inr result))"

definition available_tail ::
    "'c Cache \<Rightarrow> clock \<Rightarrow> Signal \<Rightarrow> string \<Rightarrow> Message \<Rightarrow> ('c, 's) Queue \<Rightarrow> ('c, 's) Queue \<times> bool result" where
  "available_tail C clk signal reason msg pool =
     (let (ca, r) = c_MakeAvailable C (q_cache pool) msg;
          p1 = pool\<lparr>q_cache := ca\<rparr>
      in case r of
           Inl e \<Rightarrow> (p1, Inl e)
         | Inr result \<Rightarrow> (q_audit (clk 1) (ack_entry msg signal reason) p1, Inr result))"

definition Queue_Nack ::
    "'c Cache \<Rightarrow> 's Storage \<Rightarrow> clock \<Rightarrow> ('c, 's) Queue \<Rightarrow> Message option \<Rightarrow> time \<Rightarrow> string \<Rightarrow>
     ('c, 's) Queue \<times> bool result" where
  "Queue_Nack C S clk pool msg_ptr timestamp reason =
     (case msg_ptr of
        None \<Rightarrow> (pool, Inr False)
      | Some msg \<Rightarrow>
          if msg_Queue msg = [] then (pool, Inl (Err ''message has a invalid queue''))
          else if msg_ID msg = [] then (pool, Inl (Err ''message has a invalid ID''))
          else
            let (st, r) = s_Nack S (q_storage pool) msg;
                p1 = pool\<lparr>q_storage := st\<rparr>
            in case r of
                 Inl e \<Rightarrow> (p1, Inl e)
               | Inr _ \<Rightarrow>
                   let (p2, result) =
                         (if msg_LockMs msg > 0 then lock_tail C clk LOCK_NACK NACK reason msg p1
                          else available_tail C clk NACK reason msg p1)
                   in (q_metric ''QueueNack'' 1 [queue_attr (msg_Queue msg), (''reason'', reason)] p2, result))"

definition Queue_Ack ::
    "'c Cache \<Rightarrow> 's Storage \<Rightarrow> clock \<Rightarrow> ('c, 's) Queue \<Rightarrow> Message option \<Rightarrow> string \<Rightarrow>
     ('c, 's) Queue \<times> bool result" where
  "Queue_Ack C S clk pool msg_ptr reason =
     (case msg_ptr of
        None \<Rightarrow> (pool, Inr False)
      | Some msg \<Rightarrow>
          if msg_Queue msg = [] then (pool, Inl (Err ''message has a invalid queue''))
          else if msg_ID msg = [] then (pool, Inl (Err ''message has a invalid ID''))
          else
            let (st, r) = s_Ack S (q_storage pool) msg;
                p1 = pool\<lparr>q_storage := st\<rparr>
            in case r of
                 Inl e \<Rightarrow> (p1, Inl e)
               | Inr _ \<Rightarrow>
                   let p2 = q_metric ''QueueAck'' 1 [queue_attr (msg_Queue msg), (''reason'', reason)] p1
                   in if msg_LockMs msg > 0 then lock_tail C clk LOCK_ACK ACK reason msg p2
                      else available_tail C clk ACK reason msg p2)"

section \<open>Timeouts and pulls\<close>

definition Queue_TimeoutMessages ::
    "'c Cache \<Rightarrow> clock \<Rightarrow> ('c, 's) Queue \<Rightarrow> string \<Rightarrow> ('c, 's) Queue \<times> string list result" where
  "Queue_TimeoutMessages C clk pool queue =
     (let (ca, r) = c_TimeoutMessages C (clk 0) (q_cache pool) queue;
          p1 = pool\<lparr>q_cache := ca\<rparr>
      in case r of
           Inl e \<Rightarrow> (p1, Inl e)
         | Inr ids \<Rightarrow>
             (if length ids > 0
              then q_audits (clk 1) (map (\<lambda>i. audit_entry i queue TIMEOUT) ids)
                     (q_metric ''QueueTimeout'' (int (length ids)) [queue_attr queue] p1)
              else p1,
              Inr ids))"

definition notFoundIds :: "string list \<Rightarrow> Message list \<Rightarrow> string list" where
  "notFoundIds ids messages =
     (let found = fold (\<lambda>q m. AList.update (msg_ID q) () m) messages []
      in filter (\<lambda>i. map_of found i = None) ids)"

definition getFromStorage ::
    "'s Storage \<Rightarrow> time \<Rightarrow> ('c, 's) Queue \<Rightarrow> string list \<Rightarrow> string \<Rightarrow> (string \<times> int) list \<Rightarrow> bool \<Rightarrow>
     (Message list \<times> string list) result" where
  "getFromStorage S now pool ids queue sortBy retry =
     (case s_Find S now (q_storage pool)
             (Some (zero_FindOptions\<lparr>fo_Sort := Some sortBy,
                fo_InternalFilter := Some (zero_InternalFilter\<lparr>if_Ids := Some ids, if_Queue := queue\<rparr>),
                fo_Limit := int (length ids), fo_Retry := retry\<rparr>)) of
        Inl e \<Rightarrow> Inl (Wrap ''error getting storage data'' e)
      | Inr messages \<Rightarrow> Inr (messages, notFoundIds ids messages))"

text \<open>
  The result of \<^verbatim>\<open>Pull\<close> is a pointer to a slice: nil is \<open>None\<close>. \<open>sord\<close> is the permutation that
  the unstable \<^verbatim>\<open>sort.Slice\<close> makes of equal scores. \<open>pull_again\<close> is the part that asks the storage a second
  time for the ids it did not find.
\<close>

definition pull_again ::
    "'c Cache \<Rightarrow> 's Storage \<Rightarrow> (Message list \<Rightarrow> Message list) \<Rightarrow> clock \<Rightarrow> ('c, 's) Queue \<Rightarrow> string \<Rightarrow>
     Message list \<Rightarrow> string list \<Rightarrow> ('c, 's) Queue \<times> Message list option result" where
  "pull_again C S sord clk pool queue messages notFound =
     (case getFromStorage S (clk 2) pool notFound queue [(''score'', 1)] True of
        Inl e \<Rightarrow> (pool, Inl e)
      | Inr (retryMessages, retryNotFound) \<Rightarrow>
          let p2 = (if length retryNotFound > 0
                    then
                      let a1 = q_audits (clk 3) (map (\<lambda>i. audit_entry i queue MISSING_STORAGE) retryNotFound)
                                 (q_metric ''QueueNotFoundInStorage'' (int (length notFound))
                                    [queue_attr queue] pool)
                      in a1\<lparr>q_cache := fst (c_Remove C (q_cache a1) queue retryNotFound)\<rparr>
                    else pool);
              found = (if length retryMessages > 0
                       then unstable_sort sord (\<lambda>a b. msg_Score a < msg_Score b) (messages @ retryMessages)
                       else messages)
          in if length found = 0
             then (q_metric ''QueueEmptyQueueStorage'' 1 [queue_attr queue] p2, Inr None)
             else (p2, Inr (Some found)))"

definition Queue_Pull ::
    "'c Cache \<Rightarrow> 's Storage \<Rightarrow> (Message list \<Rightarrow> Message list) \<Rightarrow> clock \<Rightarrow> ('c, 's) Queue \<Rightarrow> string \<Rightarrow> int64 \<Rightarrow>
     float64 option \<Rightarrow> float64 option \<Rightarrow> int64 \<Rightarrow> ('c, 's) Queue \<times> Message list option result" where
  "Queue_Pull C S sord clk pool queue n minScore maxScore ackDeadlineMs =
     (let (ca, r) = c_PullMessages C (clk 0) (q_cache pool) queue n minScore maxScore ackDeadlineMs;
          p1 = pool\<lparr>q_cache := ca\<rparr>
      in case r of
           Inl e \<Rightarrow> (p1, Inl e)
         | Inr ids \<Rightarrow>
             if length ids = 0 then (q_metric ''QueueEmptyQueue'' 1 [queue_attr queue] p1, Inr None)
             else
               (case getFromStorage S (clk 1) p1 ids queue [(''score'', 1)] False of
                  Inl e \<Rightarrow> (p1, Inl e)
                | Inr (messages, notFound) \<Rightarrow>
                    if length notFound = 0 then (p1, Inr (Some messages))
                    else pull_again C S sord clk p1 queue messages notFound))"

section \<open>Removal\<close>

definition Queue_Remove ::
    "'c Cache \<Rightarrow> 's Storage \<Rightarrow> time \<Rightarrow> ('c, 's) Queue \<Rightarrow> string \<Rightarrow> string \<Rightarrow> string list \<Rightarrow>
     ('c, 's) Queue \<times> int64 \<times> int64 \<times> go_error option" where
  "Queue_Remove C S now pool queue reason ids =
     (let (st, r) = s_Remove S (q_storage pool) queue ids;
          p1 = pool\<lparr>q_storage := st\<rparr>
      in case r of
           Inl e \<Rightarrow> (p1, 0, 0, Some e)
         | Inr storageCount \<Rightarrow>
             let (ca, cacheCount, err) = c_Remove C (q_cache p1) queue ids;
                 p2 = p1\<lparr>q_cache := ca\<rparr>
             in (case err of
                   Some e \<Rightarrow> (p2, 0, storageCount, Some e)
                 | None \<Rightarrow>
                     (q_audits now (map (\<lambda>i. (audit_entry i queue REMOVE)\<lparr>en_Reason := reason\<rparr>) ids) p2,
                      cacheCount, storageCount, None)))"

definition Queue_Flush :: "'c Cache \<Rightarrow> 's Storage \<Rightarrow> ('c, 's) Queue \<Rightarrow> ('c, 's) Queue \<times> bool result" where
  "Queue_Flush C S pool =
     (let p1 = pool\<lparr>q_cache := c_Flush C (q_cache pool)\<rparr>;
          (st, r) = s_Flush S (q_storage p1);
          p2 = p1\<lparr>q_storage := st\<rparr>
      in case r of Inl e \<Rightarrow> (p2, Inl e) | Inr _ \<Rightarrow> (p2, Inr True))"

end
