(* ===== verification/Queue_Laws.thy ===== *)
theory Queue_Laws
  imports Queue_Core
begin

text \<open>
  What the operations of the queue do, for every cache and every storage that keep their contracts. The
  central invariant is that the cache never knows a message the storage does not hold.
\<close>

section \<open>Bookkeeping\<close>

lemma q_audit_simps [simp]:
  "q_cache (q_audit t e p) = q_cache p" "q_storage (q_audit t e p) = q_storage p"
  "q_metrics (q_audit t e p) = q_metrics p"
  by (simp_all add: q_audit_def)

lemma q_audits_simps [simp]:
  "q_cache (q_audits t es p) = q_cache p" "q_storage (q_audits t es p) = q_storage p"
  "q_metrics (q_audits t es p) = q_metrics p"
  unfolding q_audits_def by (induction es arbitrary: p) simp_all

lemma q_metric_simps [simp]:
  "q_cache (q_metric k n a p) = q_cache p" "q_storage (q_metric k n a p) = q_storage p"
  "q_auditor (q_metric k n a p) = q_auditor p" "q_metrics (q_metric k n a p) = q_metrics p @ [MetricAdd k n a]"
  by (simp_all add: q_metric_def)

definition cached_in :: "pool_ids \<Rightarrow> stored_ids \<Rightarrow> bool" where
  "cached_in v st \<longleftrightarrow> (\<forall>q i. i \<in> known_ids v q \<longrightarrow> (q, i) \<in> st)"

lemma cached_in_subset:
  "cached_in v st \<Longrightarrow> (\<And>q. known_ids v' q \<subseteq> known_ids v q) \<Longrightarrow> st \<subseteq> st' \<Longrightarrow> cached_in v' st'"
  by (fastforce simp: cached_in_def)

text \<open>
  What a pull leaves behind when the cache delivered the ids \<open>I\<close> and \<open>ms\<close> were found for them: the found
  ones are in processing, the others are gone from the cache.
\<close>

definition pulled :: "pool_ids \<Rightarrow> string \<Rightarrow> string set \<Rightarrow> Message list \<Rightarrow> pool_ids \<Rightarrow> bool" where
  "pulled v q I ms v' \<longleftrightarrow>
     finite I \<and> distinct (map msg_ID ms) \<and> I \<subseteq> v PRIMARY_POOL q \<and>
     (\<forall>m\<in>set ms. msg_Queue m = q \<and> msg_ID m \<in> I) \<and>
     v' = pool_remove (pool_move v PRIMARY_POOL PROCESSING_POOL q I) q (I - msg_ID ` set ms)"

lemma known_ids_add [simp]:
  "known_ids (pool_add v q I) q' = (if q' = q then known_ids v q' \<union> I else known_ids v q')"
  by (auto simp: known_ids_pools pool_add_def)

lemma known_ids_remove [simp]:
  "known_ids (pool_remove v q I) q' = (if q' = q then known_ids v q' - I else known_ids v q')"
  by (auto simp: known_ids_pools pool_remove_def)

lemma pulled_none: "pulled v q {} [] v"
  by (simp add: pulled_def)

lemma known_ids_move:
  "p \<noteq> p' \<Longrightarrow> I \<subseteq> v p q \<Longrightarrow> known_ids (pool_move v p p' q I) q' = known_ids v q'"
  unfolding pool_move_moves by (rule known_ids_moves) auto

lemma notFoundIds_eq: "notFoundIds ids ms = filter (\<lambda>i. i \<notin> msg_ID ` set ms) ids"
proof -
  let ?f = "fold (\<lambda>q m. AList.update (msg_ID q) () m) ms"
  have "dom (map_of (?f m)) = dom (map_of m) \<union> msg_ID ` set ms" for m
    by (induction ms arbitrary: m) auto
  from this [of "[]"] have d: "dom (map_of (?f [])) = msg_ID ` set ms" by simp
  have "map_of (?f []) i = None \<longleftrightarrow> i \<notin> msg_ID ` set ms" for i
    unfolding d [symmetric] by (simp only: domIff not_not)
  then show ?thesis by (simp add: notFoundIds_def Let_def)
qed

section \<open>Grouping messages by queue\<close>

lemma members_by_queue_eq:
  "map_of (members_by_queue ms m) q =
     (case map_of m q of
        None \<Rightarrow> (case filter (\<lambda>x. msg_Queue x = q) ms of [] \<Rightarrow> None | l \<Rightarrow> Some l)
      | Some l \<Rightarrow> Some (l @ filter (\<lambda>x. msg_Queue x = q) ms))"
  by (induction ms m rule: members_by_queue.induct)
     (auto simp: Let_def split: option.splits list.splits)

lemma members_by_queue_keys:
  "set (map fst (members_by_queue ms m)) = set (map fst m) \<union> msg_Queue ` set ms"
proof (induction ms m rule: members_by_queue.induct)
  case (2 x ms m)
  then show ?case by (auto simp: Let_def dom_update)
qed simp

lemma members_by_queue_wf: "gomap_wf m \<Longrightarrow> gomap_wf (members_by_queue ms m)"
  by (induction ms m rule: members_by_queue.induct) (simp_all add: Let_def)

lemma members_of:
  "q \<in> msg_Queue ` set ms \<Longrightarrow> map_of (members_by_queue ms []) q = Some (filter (\<lambda>x. msg_Queue x = q) ms)"
  by (auto simp: members_by_queue_eq filter_empty_conv split: list.splits)

section \<open>The queue over any cache and storage\<close>

text \<open>
  The pool a message goes to after an ack or a nack, and the effect of releasing it: the answer tells
  whether the message was in processing, and if it was it moves to that pool. If the release fails the message
  may have moved or be gone from the cache.
\<close>

definition release_pool :: "LockType \<Rightarrow> Message \<Rightarrow> PoolType" where
  "release_pool t m = (if msg_LockMs m > 0 then lock_pool t else PRIMARY_POOL)"

definition released :: "pool_ids \<Rightarrow> pool_ids \<Rightarrow> PoolType \<Rightarrow> Message \<Rightarrow> bool result \<Rightarrow> bool" where
  "released v v' pt m r \<longleftrightarrow>
     (case r of
        Inl e \<Rightarrow> v' = v \<or> v' = pool_remove v (msg_Queue m) {msg_ID m} \<or>
          msg_ID m \<in> v PROCESSING_POOL (msg_Queue m) \<and> v' = pool_move v PROCESSING_POOL pt (msg_Queue m) {msg_ID m}
      | Inr b \<Rightarrow> b = (msg_ID m \<in> v PROCESSING_POOL (msg_Queue m)) \<and>
          v' = pool_move v PROCESSING_POOL pt (msg_Queue m) (if b then {msg_ID m} else {}))"

definition queue_ok ::
    "('c \<Rightarrow> pool_ids) \<Rightarrow> ('c \<Rightarrow> bool) \<Rightarrow> ('s \<Rightarrow> stored_ids) \<Rightarrow> ('s \<Rightarrow> bool) \<Rightarrow> ('c, 's) Queue \<Rightarrow> bool" where
  "queue_ok cids cinv stored sinv p \<longleftrightarrow>
     cinv (q_cache p) \<and> sinv (q_storage p) \<and> cached_in (cids (q_cache p)) (stored (q_storage p))"

locale queue_env =
  cache: cache_contract C cids cinv amount + storage: storage_contract S stored expired valid_id sinv
  for C :: "'c Cache" and cids :: "'c \<Rightarrow> pool_ids" and cinv :: "'c \<Rightarrow> bool" and amount :: "int64 \<Rightarrow> bool"
    and S :: "'s Storage" and stored :: "'s \<Rightarrow> stored_ids" and expired :: "time \<Rightarrow> 's \<Rightarrow> stored_ids"
    and valid_id :: "string \<Rightarrow> bool" and sinv :: "'s \<Rightarrow> bool" +
  fixes flushable :: bool
  assumes remove_ok: "cinv c \<Longrightarrow> c_Remove C c q ids = (c', n, Some e) \<Longrightarrow> known_ids (cids c) q \<inter> set ids = {}"
    and flush_empties: "flushable \<Longrightarrow> cinv c \<Longrightarrow> cids (c_Flush C c) = (\<lambda>p q. {}) \<and> cinv (c_Flush C c)"
begin

abbreviation ok :: "('c, 's) Queue \<Rightarrow> bool" where
  "ok \<equiv> queue_ok cids cinv stored sinv"

lemmas ok_def = queue_ok_def [of cids cinv stored sinv]

text \<open>Whatever a removal from the cache answers, the ids are gone.\<close>

lemma pool_remove_unknown: "known_ids v q \<inter> I = {} \<Longrightarrow> pool_remove v q I = v"
  by (force simp: pool_remove_def known_ids_def fun_eq_iff)

lemma cache_removed:
  assumes "cinv c" "c_Remove C c q ids = (c', n, eo)"
  shows "cids c' = pool_remove (cids c) q (set ids) \<and> cinv c'"
proof (cases eo)
  case None
  then show ?thesis using cache.remove_ids [OF assms(1)] assms(2) by simp
next
  case (Some e)
  note n = remove_ok [OF assms(1) assms(2) [unfolded Some]]
  obtain I where I: "I \<subseteq> set ids" "cids c' = pool_remove (cids c) q I" "cinv c'"
    using cache.remove_error [OF assms(1) assms(2) [unfolded Some]] by blast
  have "known_ids (cids c) q \<inter> I = {}" using n I(1) by blast
  then show ?thesis using I pool_remove_unknown n by metis
qed

lemma step_ok:
  assumes "ok p" "cinv (q_cache p')" "sinv (q_storage p')"
    "\<And>q. known_ids (cids (q_cache p')) q \<subseteq> known_ids (cids (q_cache p)) q"
    "stored (q_storage p) \<subseteq> stored (q_storage p')"
  shows "ok p'"
  using assms cached_in_subset unfolding ok_def by blast

lemma AddMessagesToStorage_ok:
  assumes "ok p" "\<forall>m\<in>set ms. valid_id (msg_ID m)" "AddMessagesToStorage S now p ms = (p', r)"
  shows "ok p'" "q_cache p' = q_cache p"
    "r = Inr n \<Longrightarrow> stored (q_storage p') = stored (q_storage p) \<union> message_key ` set ms"
proof -
  obtain st where i: "s_Insert S now (q_storage p) ms = (st, r)" and p': "p' = p\<lparr>q_storage := st\<rparr>"
    using assms(3) by (auto simp: AddMessagesToStorage_def split: prod.splits)
  have si: "sinv (q_storage p)" using assms(1) by (simp add: ok_def)
  show "q_cache p' = q_cache p" using p' by simp
  show "stored (q_storage p') = stored (q_storage p) \<union> message_key ` set ms" if "r = Inr n"
    using storage.insert_stored [OF si assms(2)] i that p' by simp
  have "stored (q_storage p) \<subseteq> stored st \<and> sinv st"
    using storage.insert_stored [OF si assms(2)] storage.insert_error [OF si assms(2)] i by (cases r) auto
  then show "ok p'" using assms(1) p' by (intro step_ok [OF assms(1)]) (auto simp: ok_def)
qed

lemma add_to_cache_loop_ok:
  assumes "add_to_cache_loop C now reason members qs cnt p = (p', r)" "ok p" "distinct qs"
    and "\<And>q m. q \<in> set qs \<Longrightarrow> m \<in> set (the (map_of members q)) \<Longrightarrow> (q, msg_ID m) \<in> stored (q_storage p)"
  shows "ok p' \<and> q_storage p' = q_storage p \<and>
    (\<forall>k. r = Inr k \<longrightarrow> (\<forall>q. known_ids (cids (q_cache p')) q = known_ids (cids (q_cache p)) q \<union>
      (if q \<in> set qs then msg_ID ` set (the (map_of members q)) else {})))"
  using assms
proof (induction qs arbitrary: cnt p)
  case (Cons q qs)
  let ?els = "the (map_of members q)"
  obtain ca ri where i: "c_Insert C (q_cache p) q ?els = (ca, ri)" by (meson surj_pair)
  have ci: "cinv (q_cache p)" and ca: "cached_in (cids (q_cache p)) (stored (q_storage p))"
    using Cons.prems(2) by (simp_all add: ok_def)
  show ?case
  proof (cases ri)
    case (Inl e)
    have p': "p' = p\<lparr>q_cache := ca\<rparr>" "r \<noteq> Inr k" for k using Cons.prems(1) i Inl by auto
    obtain I where I: "I \<subseteq> msg_ID ` set ?els" "cids ca = pool_add (cids (q_cache p)) q I" "cinv ca"
      using cache.insert_error [OF ci i [unfolded Inl]] by blast
    have "cached_in (cids ca) (stored (q_storage p))"
      using ca I(1) Cons.prems(4) [of q] by (auto simp: I(2) cached_in_def split: if_splits)
    then show ?thesis using p' I(3) Cons.prems(2) by (simp add: ok_def)
  next
    case (Inr l)
    note law = cache.insert_ids [OF ci i [unfolded Inr]]
    let ?p = "q_audits now (map (\<lambda>i. (audit_entry i q INSERT_CACHE)\<lparr>en_Reason := reason\<rparr>) l) (p\<lparr>q_cache := ca\<rparr>)"
    have kn: "known_ids (cids ca) q' = known_ids (cids (q_cache p)) q' \<union> (if q' = q then msg_ID ` set ?els else {})" for q'
      using law by auto
    then have "cached_in (cids ca) (stored (q_storage p))"
      using ca Cons.prems(4) [of q] by (auto simp: cached_in_def split: if_splits)
    then have "ok ?p" using law Cons.prems(2) by (simp add: ok_def)
    moreover have "add_to_cache_loop C now reason members qs (cnt + int (length l)) ?p = (p', r)"
      using Cons.prems(1) i Inr by simp
    ultimately have "ok p' \<and> q_storage p' = q_storage ?p \<and>
      (\<forall>k. r = Inr k \<longrightarrow> (\<forall>q. known_ids (cids (q_cache p')) q = known_ids (cids (q_cache ?p)) q \<union>
        (if q \<in> set qs then msg_ID ` set (the (map_of members q)) else {})))"
      using Cons.prems(3,4) by (intro Cons.IH) auto
    then show ?thesis using kn by auto
  qed
qed simp

lemma AddMessagesToCache_ok:
  assumes "any_order ord" "ok p" "message_key ` set ms \<subseteq> stored (q_storage p)"
    and "AddMessagesToCacheWithAuditReason C ord now p reason ms = (p', r)"
  shows "ok p'" "q_storage p' = q_storage p"
    "r = Inr k \<Longrightarrow> known_ids (cids (q_cache p')) q =
       known_ids (cids (q_cache p)) q \<union> {msg_ID m |m. m \<in> set ms \<and> msg_Queue m = q}"
proof -
  let ?mem = "members_by_queue ms []"
  let ?qs = "ord (map fst ?mem)"
  have keys: "set ?qs = msg_Queue ` set ms"
    using members_by_queue_keys [of ms "[]"] by (simp add: any_order_set [OF assms(1)])
  have d: "distinct ?qs"
    using members_by_queue_wf [of "[]" ms] by (simp add: any_order_distinct [OF assms(1)] gomap_wf_def)
  have els: "the (map_of ?mem q) = filter (\<lambda>x. msg_Queue x = q) ms" if "q \<in> set ?qs" for q
    using members_of [of q ms] that keys by simp
  have "(q, msg_ID m) \<in> stored (q_storage p)" if "q \<in> set ?qs" "m \<in> set (the (map_of ?mem q))" for q m
    using that els [OF that(1)] assms(3) by (auto simp: message_key_def)
  note l = add_to_cache_loop_ok [OF assms(4) [unfolded AddMessagesToCacheWithAuditReason_def Let_def] assms(2) d this]
  show "ok p'" "q_storage p' = q_storage p" using l by auto
  show "known_ids (cids (q_cache p')) q =
       known_ids (cids (q_cache p)) q \<union> {msg_ID m |m. m \<in> set ms \<and> msg_Queue m = q}" if "r = Inr k"
    using l that els [of q] keys by auto
qed

lemma cache_moved_ok:
  assumes "ok p" "cids ca = pool_move (cids (q_cache p)) r r' q I" "r \<noteq> r'" "I \<subseteq> cids (q_cache p) r q" "cinv ca"
    and "q_cache p' = ca" "q_storage p' = q_storage p"
  shows "ok p'"
proof -
  have "known_ids (cids ca) q' = known_ids (cids (q_cache p)) q'" for q'
    using known_ids_move [of r r' I "cids (q_cache p)" q q', OF assms(3,4)] assms(2) by simp
  then show ?thesis using assms(1,5-7) by (simp add: ok_def cached_in_def)
qed

lemma cache_shrunk_ok:
  assumes "ok p" "\<And>q. known_ids (cids (q_cache p')) q \<subseteq> known_ids (cids (q_cache p)) q" "cinv (q_cache p')"
    and "q_storage p' = q_storage p"
  shows "ok p'"
  by (rule step_ok [OF assms(1) assms(3) _ assms(2)]) (use assms(1,4) in \<open>simp_all add: ok_def\<close>)

lemma lock_tail_ok:
  assumes "ok p" "lock_tail C clk t signal reason m p = (p', r)"
  shows "ok p'" "q_storage p' = q_storage p"
    "released (cids (q_cache p)) (cids (q_cache p')) (lock_pool t) m r"
proof -
  obtain ca lr where l: "c_LockMessage C (clk 0) (q_cache p) m t = (ca, lr)" by (meson surj_pair)
  have ci: "cinv (q_cache p)" using assms(1) by (simp add: ok_def)
  have p': "q_cache p' = ca" "q_storage p' = q_storage p" "r = lr"
    using assms(2) l by (auto simp: lock_tail_def Let_def split: sum.splits)
  show "q_storage p' = q_storage p" by (rule p')
  have "ok p' \<and> released (cids (q_cache p)) (cids (q_cache p')) (lock_pool t) m r"
  proof (cases lr)
    case (Inl e)
    note e = cache.lock_error [OF ci l [unfolded Inl]]
    then have "ok p'"
    proof (elim conjE disjE)
      assume "cids ca = cids (q_cache p)" "cinv ca"
      then show ?thesis using assms(1) p' by (simp add: ok_def)
    next
      assume i: "msg_ID m \<in> cids (q_cache p) PROCESSING_POOL (msg_Queue m)" and v: "cinv ca"
        "cids ca = pool_move (cids (q_cache p)) PROCESSING_POOL (lock_pool t) (msg_Queue m) {msg_ID m}"
      show ?thesis by (rule cache_moved_ok [OF assms(1) v(2) _ _ v(1) p'(1,2)]) (use i in simp_all)
    qed
    then show ?thesis using e p' Inl by (auto simp: released_def)
  next
    case (Inr b)
    note law = cache.lock_ids [OF ci l [unfolded Inr]]
    have "ok p'"
      by (rule cache_moved_ok [OF assms(1) conjunct1 [OF conjunct2 [OF law]] _ _ _ p'(1,2)]) (use law in simp_all)
    then show ?thesis using law p' Inr by (simp add: released_def)
  qed
  then show "ok p'" "released (cids (q_cache p)) (cids (q_cache p')) (lock_pool t) m r" by blast+
qed

lemma available_tail_ok:
  assumes "ok p" "available_tail C clk signal reason m p = (p', r)"
  shows "ok p'" "q_storage p' = q_storage p"
    "released (cids (q_cache p)) (cids (q_cache p')) PRIMARY_POOL m r"
proof -
  obtain ca lr where l: "c_MakeAvailable C (q_cache p) m = (ca, lr)" by (meson surj_pair)
  have ci: "cinv (q_cache p)" using assms(1) by (simp add: ok_def)
  have p': "q_cache p' = ca" "q_storage p' = q_storage p" "r = lr"
    using assms(2) l by (auto simp: available_tail_def Let_def split: sum.splits)
  show "q_storage p' = q_storage p" by (rule p')
  have "ok p' \<and> released (cids (q_cache p)) (cids (q_cache p')) PRIMARY_POOL m r"
  proof (cases lr)
    case (Inl e)
    note e = cache.make_available_error [OF ci l [unfolded Inl]]
    then have "ok p'"
    proof (elim conjE disjE)
      assume i: "msg_ID m \<in> cids (q_cache p) PROCESSING_POOL (msg_Queue m)" and v: "cinv ca"
        "cids ca = pool_move (cids (q_cache p)) PROCESSING_POOL PRIMARY_POOL (msg_Queue m) {msg_ID m}"
      show ?thesis by (rule cache_moved_ok [OF assms(1) v(2) _ _ v(1) p'(1,2)]) (use i in simp_all)
    qed (use p' in \<open>auto intro!: cache_shrunk_ok [OF assms(1)] split: if_splits\<close>)
    then show ?thesis using e p' Inl by (auto simp: released_def)
  next
    case (Inr b)
    note law = cache.make_available_ids [OF ci l [unfolded Inr]]
    have "ok p'"
      by (rule cache_moved_ok [OF assms(1) conjunct1 [OF conjunct2 [OF law]] _ _ _ p'(1,2)]) (use law in simp_all)
    then show ?thesis using law p' Inr by (simp add: released_def)
  qed
  then show "ok p'" "released (cids (q_cache p)) (cids (q_cache p')) PRIMARY_POOL m r" by blast+
qed

lemma release_ok:
  assumes "ok p" "(if msg_LockMs m > 0 then lock_tail C clk t signal reason m p
    else available_tail C clk signal reason m p) = (p', r)"
  shows "ok p'" "q_storage p' = q_storage p"
    "released (cids (q_cache p)) (cids (q_cache p')) (release_pool t m) m r"
  using assms lock_tail_ok [OF assms(1), of clk t signal reason m p' r]
    available_tail_ok [OF assms(1), of clk signal reason m p' r]
  by (simp_all add: release_pool_def split: if_splits)

lemma Queue_Ack_ok:
  assumes "ok p" "Queue_Ack C S clk p (Some m) reason = (p', r)"
  shows "ok p'" "stored (q_storage p') = stored (q_storage p)"
    "released (cids (q_cache p)) (cids (q_cache p')) (release_pool LOCK_ACK m) m r"
proof -
  obtain st rs where a: "s_Ack S (q_storage p) m = (st, rs)" by (meson surj_pair)
  have si: "sinv (q_storage p)" using assms(1) by (simp add: ok_def)
  have st: "stored st = stored (q_storage p)" "sinv st" using storage.ack_stored [OF si a] by auto
  let ?p = "q_metric ''QueueAck'' 1 [queue_attr (msg_Queue m), (''reason'', reason)] (p\<lparr>q_storage := st\<rparr>)"
  have o2: "ok ?p" using assms(1) st by (simp add: ok_def)
  have "ok p' \<and> stored (q_storage p') = stored (q_storage p) \<and>
    released (cids (q_cache p)) (cids (q_cache p')) (release_pool LOCK_ACK m) m r"
  proof (cases "msg_Queue m = [] \<or> msg_ID m = []")
    case True
    then have "p' = p" "\<exists>e. r = Inl e" using assms(2) by (auto simp: Queue_Ack_def split: if_splits)
    then show ?thesis using assms(1) by (auto simp: released_def)
  next
    case False
    show ?thesis
    proof (cases rs)
      case (Inl e)
      then have "r = Inl e" "p' = p\<lparr>q_storage := st\<rparr>"
        using False assms(2) a by (simp_all add: Queue_Ack_def Let_def)
      then show ?thesis using o2 st(1) by (simp add: released_def ok_def)
    next
      case (Inr k)
      then have "(if msg_LockMs m > 0 then lock_tail C clk LOCK_ACK ACK reason m ?p
          else available_tail C clk ACK reason m ?p) = (p', r)"
        using False assms(2) a by (simp add: Queue_Ack_def Let_def)
      from release_ok [OF o2 this] show ?thesis using st(1) by simp
    qed
  qed
  then show "ok p'" "stored (q_storage p') = stored (q_storage p)"
    "released (cids (q_cache p)) (cids (q_cache p')) (release_pool LOCK_ACK m) m r" by blast+
qed

lemma Queue_Nack_ok:
  assumes "ok p" "Queue_Nack C S clk p (Some m) t0 reason = (p', r)"
  shows "ok p'" "stored (q_storage p') = stored (q_storage p)"
    "released (cids (q_cache p)) (cids (q_cache p')) (release_pool LOCK_NACK m) m r"
proof -
  obtain st rs where a: "s_Nack S (q_storage p) m = (st, rs)" by (meson surj_pair)
  have si: "sinv (q_storage p)" using assms(1) by (simp add: ok_def)
  have st: "stored st = stored (q_storage p)" "sinv st" using storage.nack_stored [OF si a] by auto
  let ?p = "p\<lparr>q_storage := st\<rparr>"
  have o1: "ok ?p" using assms(1) st by (simp add: ok_def)
  have "ok p' \<and> stored (q_storage p') = stored (q_storage p) \<and>
    released (cids (q_cache p)) (cids (q_cache p')) (release_pool LOCK_NACK m) m r"
  proof (cases "msg_Queue m = [] \<or> msg_ID m = []")
    case True
    then have "p' = p" "\<exists>e. r = Inl e" using assms(2) by (auto simp: Queue_Nack_def split: if_splits)
    then show ?thesis using assms(1) by (auto simp: released_def)
  next
    case False
    show ?thesis
    proof (cases rs)
      case (Inl e)
      then have "r = Inl e" "p' = p\<lparr>q_storage := st\<rparr>"
        using False assms(2) a by (simp_all add: Queue_Nack_def Let_def)
      then show ?thesis using o1 st(1) by (simp add: released_def)
    next
      case (Inr k)
      let ?tail = "if msg_LockMs m > 0 then lock_tail C clk LOCK_NACK NACK reason m ?p
        else available_tail C clk NACK reason m ?p"
      obtain p2 r2 where t: "?tail = (p2, r2)" by (meson surj_pair)
      have "Queue_Nack C S clk p (Some m) t0 reason =
          (q_metric ''QueueNack'' 1 [queue_attr (msg_Queue m), (''reason'', reason)] p2, r2)"
        using False Inr a t by (simp add: Queue_Nack_def)
      then have p': "r = r2" "q_cache p' = q_cache p2" "q_storage p' = q_storage p2" using assms(2) by auto
      from release_ok [OF o1 t] show ?thesis using st(1) p' by (simp add: ok_def)
    qed
  qed
  then show "ok p'" "stored (q_storage p') = stored (q_storage p)"
    "released (cids (q_cache p)) (cids (q_cache p')) (release_pool LOCK_NACK m) m r" by blast+
qed

lemma Queue_TimeoutMessages_ok:
  assumes "ok p" "Queue_TimeoutMessages C clk p q = (p', r)"
  shows "ok p'" "q_storage p' = q_storage p"
proof -
  obtain ca rc where t: "c_TimeoutMessages C (clk 0) (q_cache p) q = (ca, rc)" by (meson surj_pair)
  have p': "q_cache p' = ca" "q_storage p' = q_storage p"
    using assms(2) t by (auto simp: Queue_TimeoutMessages_def Let_def split: sum.splits)
  then show "q_storage p' = q_storage p" by simp
  have ci: "cinv (q_cache p)" using assms(1) by (simp add: ok_def)
  obtain I where l: "I \<subseteq> cids (q_cache p) PROCESSING_POOL q" "cinv ca"
    and v: "cids ca = pool_move (cids (q_cache p)) PROCESSING_POOL PRIMARY_POOL q I"
  proof (cases rc)
    case (Inl e)
    then show ?thesis using cache.timeout_error [OF ci t [unfolded Inl]] that by blast
  next
    case (Inr l)
    then show ?thesis using cache.timeout_ids [OF ci t [unfolded Inr]] that by blast
  qed
  show "ok p'" by (rule cache_moved_ok [OF assms(1) v _ l p']) simp
qed

lemma Queue_Remove_ok:
  assumes "ok p" "Queue_Remove C S now p q reason ids = (p', cn, sn, err)"
  shows "ok p'"
    "(cids (q_cache p') = pool_remove (cids (q_cache p)) q (set ids) \<and>
       stored (q_storage p') = stored (q_storage p) - {q} \<times> set ids) \<or>
     (err \<noteq> None \<and> cids (q_cache p') = cids (q_cache p) \<and> stored (q_storage p') = stored (q_storage p))"
proof -
  have ci: "cinv (q_cache p)" and si: "sinv (q_storage p)" and cs: "cached_in (cids (q_cache p)) (stored (q_storage p))"
    using assms(1) by (simp_all add: ok_def)
  obtain st rs where s: "s_Remove S (q_storage p) q ids = (st, rs)" by (meson surj_pair)
  obtain ca n eo where c: "c_Remove C (q_cache p) q ids = (ca, n, eo)" by (rule prod_cases3)
  have "ok p' \<and> ((cids (q_cache p') = pool_remove (cids (q_cache p)) q (set ids) \<and>
       stored (q_storage p') = stored (q_storage p) - {q} \<times> set ids) \<or>
     (err \<noteq> None \<and> cids (q_cache p') = cids (q_cache p) \<and> stored (q_storage p') = stored (q_storage p)))"
  proof (cases rs)
    case (Inl e)
    then have "p' = p\<lparr>q_storage := st\<rparr>" "err = Some e" using assms(2) s by (simp_all add: Queue_Remove_def)
    then show ?thesis using storage.remove_error [OF si s [unfolded Inl]] assms(1) by (simp add: ok_def)
  next
    case (Inr k)
    then have p': "q_cache p' = ca" "q_storage p' = st"
      using assms(2) s c by (auto simp: Queue_Remove_def Let_def split: option.splits)
    note cl = cache_removed [OF ci c] and sl = storage.remove_stored [OF si s [unfolded Inr]]
    have "cached_in (cids ca) (stored st)" using cs cl sl by (auto simp: cached_in_def split: if_splits)
    then show ?thesis using p' cl sl by (simp add: ok_def)
  qed
  then show "ok p'" "(cids (q_cache p') = pool_remove (cids (q_cache p)) q (set ids) \<and>
       stored (q_storage p') = stored (q_storage p) - {q} \<times> set ids) \<or>
     (err \<noteq> None \<and> cids (q_cache p') = cids (q_cache p) \<and> stored (q_storage p') = stored (q_storage p))"
    by blast+
qed

lemma Queue_Flush_ok:
  assumes flushable "ok p" "Queue_Flush C S p = (p', r)"
  shows "ok p'" "known_ids (cids (q_cache p')) q = {}"
proof -
  obtain st rs where s: "s_Flush S (q_storage p) = (st, rs)" by (meson surj_pair)
  have p': "q_cache p' = c_Flush C (q_cache p)" "q_storage p' = st"
    using assms(3) s by (auto simp: Queue_Flush_def Let_def split: sum.splits)
  have "sinv st"
    using storage.flush_stored [of "q_storage p" st] storage.flush_error [of "q_storage p" st] s assms(2)
    by (cases rs) (auto simp: ok_def)
  moreover have "cids (c_Flush C (q_cache p)) = (\<lambda>p q. {}) \<and> cinv (c_Flush C (q_cache p))"
    using flush_empties [OF assms(1), of "q_cache p"] assms(2) by (simp add: ok_def)
  ultimately show "ok p'" "known_ids (cids (q_cache p')) q = {}"
    using p' by (simp_all add: ok_def cached_in_def known_ids_def)
qed

lemma getFromStorage_ok:
  assumes "sinv (q_storage p)" "ids \<noteq> []" "q \<noteq> []" "getFromStorage S t p ids q so rt = Inr (ms, nf)"
  shows "distinct (map msg_ID ms)" "\<forall>m\<in>set ms. msg_Queue m = q \<and> msg_ID m \<in> set ids"
    "nf = filter (\<lambda>i. i \<notin> msg_ID ` set ms) ids"
    "\<forall>i\<in>set nf. (q, i) \<notin> stored (q_storage p) - expired t (q_storage p)"
proof -
  let ?fo = "zero_FindOptions\<lparr>fo_Sort := Some so,
                fo_InternalFilter := Some (zero_InternalFilter\<lparr>if_Ids := Some ids, if_Queue := q\<rparr>),
                fo_Limit := int (length ids), fo_Retry := rt\<rparr>"
  have f: "s_Find S t (q_storage p) (Some ?fo) = Inr ms" and nf: "nf = notFoundIds ids ms"
    using assms(4) by (auto simp: getFromStorage_def split: sum.splits)
  have i: "ids_filter q ids ?fo" by (simp add: ids_filter_def zero_FindOptions_def)
  note law = storage.find_ids [OF assms(1-3) i f]
  show "distinct (map msg_ID ms)" "\<forall>m\<in>set ms. msg_Queue m = q \<and> msg_ID m \<in> set ids" using law by auto
  show "nf = filter (\<lambda>i. i \<notin> msg_ID ` set ms) ids" by (simp add: nf notFoundIds_eq)
  then show "\<forall>i\<in>set nf. (q, i) \<notin> stored (q_storage p) - expired t (q_storage p)" using law by auto
qed

lemma pull_first:
  assumes "ok p" "c_PullMessages C t (q_cache p) q n lo hi ack = (ca, Inr ids)" "amount n"
  shows "ok (p\<lparr>q_cache := ca\<rparr>)" "distinct ids" "set ids \<subseteq> cids (q_cache p) PRIMARY_POOL q"
    "0 < n \<Longrightarrow> int (length ids) \<le> n" "cids ca = pool_move (cids (q_cache p)) PRIMARY_POOL PROCESSING_POOL q (set ids)"
proof -
  have ci: "cinv (q_cache p)" using assms(1) by (simp add: ok_def)
  note law = cache.pull_ids [OF ci assms(3,2)]
  have l: "cids ca = pool_move (cids (q_cache p)) PRIMARY_POOL PROCESSING_POOL q (set ids)" using law by blast
  show "ok (p\<lparr>q_cache := ca\<rparr>)"
    by (rule cache_moved_ok [OF assms(1) l]) (use law in simp_all)
  show "distinct ids" "set ids \<subseteq> cids (q_cache p) PRIMARY_POOL q"
    "cids ca = pool_move (cids (q_cache p)) PRIMARY_POOL PROCESSING_POOL q (set ids)"
    using law by blast+
  show "0 < n \<Longrightarrow> int (length ids) \<le> n" by (rule cache.pull_length [OF ci assms(3) _ assms(2)])
qed

lemma pull_failed:
  assumes "ok p" "c_PullMessages C t (q_cache p) q n lo hi ack = (ca, Inl e)" "amount n"
  shows "ok (p\<lparr>q_cache := ca\<rparr>)"
    "\<exists>I\<subseteq>cids (q_cache p) PRIMARY_POOL q. cids ca = pool_move (cids (q_cache p)) PRIMARY_POOL PROCESSING_POOL q I"
proof -
  have ci: "cinv (q_cache p)" using assms(1) by (simp add: ok_def)
  obtain I where l: "I \<subseteq> cids (q_cache p) PRIMARY_POOL q" "cinv ca"
    and v: "cids ca = pool_move (cids (q_cache p)) PRIMARY_POOL PROCESSING_POOL q I"
    using cache.pull_error [OF ci assms(3,2)] by blast
  show "ok (p\<lparr>q_cache := ca\<rparr>)" by (rule cache_moved_ok [OF assms(1) v _ l]) simp_all
  show "\<exists>I\<subseteq>cids (q_cache p) PRIMARY_POOL q. cids ca = pool_move (cids (q_cache p)) PRIMARY_POOL PROCESSING_POOL q I"
    using l v by blast
qed

lemma cache_remove_ok:
  assumes "ok p" "q_storage p' = q_storage p" "q_cache p' = fst (c_Remove C (q_cache p) q ids)"
  shows "ok p'" "cids (q_cache p') = pool_remove (cids (q_cache p)) q (set ids)"
proof -
  have ci: "cinv (q_cache p)" using assms(1) by (simp add: ok_def)
  obtain ca n eo where c: "c_Remove C (q_cache p) q ids = (ca, n, eo)" by (rule prod_cases3)
  note law = cache_removed [OF ci c]
  then show "cids (q_cache p') = pool_remove (cids (q_cache p)) q (set ids)" using assms(3) c by simp
  then show "ok p'"
    by (intro cache_shrunk_ok [OF assms(1)]) (use assms(2,3) c law in \<open>auto split: if_splits\<close>)
qed

lemma pull_retry:
  assumes "ok p1" "q \<noteq> []" "any_order sord" "distinct ids"
    and f1: "getFromStorage S t p1 ids q so False = Inr (ms, nf)" "ids \<noteq> []" "nf \<noteq> []"
    and f2: "getFromStorage S t' p1 nf q so True = Inr (ms', nf')"
    and p2: "q_storage p2 = q_storage p1"
      "q_cache p2 = (if nf' = [] then q_cache p1 else fst (c_Remove C (q_cache p1) q nf'))"
    and found: "found = (if ms' = [] then ms else unstable_sort sord (\<lambda>a b. msg_Score a < msg_Score b) (ms @ ms'))"
  shows "ok p2" "distinct (map msg_ID found)" "\<forall>m\<in>set found. msg_Queue m = q \<and> msg_ID m \<in> set ids"
    "cids (q_cache p2) = pool_remove (cids (q_cache p1)) q (set ids - msg_ID ` set found)"
    "\<forall>i\<in>set ids - msg_ID ` set found. (q, i) \<notin> stored (q_storage p1) - expired t' (q_storage p1)"
proof -
  have si: "sinv (q_storage p1)" using assms(1) by (simp add: ok_def)
  note g1 = getFromStorage_ok [OF si f1(2) assms(2) f1(1)] and g2 = getFromStorage_ok [OF si f1(3) assms(2) f2]
  have m: "mset found = mset (ms @ ms')" using found mset_unstable_sort [OF assms(3)] by simp
  have fs: "set found = set (ms @ ms')" using m by (rule mset_eq_setD)
  have fd: "mset (map msg_ID found) = mset (map msg_ID (ms @ ms'))" unfolding mset_map m ..
  have n1: "set nf = set ids - msg_ID ` set ms" by (subst g1(3)) auto
  have n2: "set nf' = set nf - msg_ID ` set ms'" by (subst g2(3)) auto
  have new: "\<forall>m\<in>set ms'. msg_ID m \<in> set ids \<and> msg_ID m \<notin> msg_ID ` set ms"
    using g2(2) by (simp add: n1)
  have dis: "msg_ID ` set ms \<inter> msg_ID ` set ms' = {}"
  proof (intro Int_emptyI)
    fix i assume i: "i \<in> msg_ID ` set ms" "i \<in> msg_ID ` set ms'"
    from i(2) obtain m where "m \<in> set ms'" "i = msg_ID m" by (rule imageE)
    with new i(1) show False by simp
  qed
  have "distinct (map msg_ID (ms @ ms'))"
    unfolding map_append distinct_append set_map using g1(1) g2(1) dis by blast
  then show "distinct (map msg_ID found)" using mset_eq_imp_distinct_iff [OF fd] by blast
  show "\<forall>m\<in>set found. msg_Queue m = q \<and> msg_ID m \<in> set ids"
    unfolding fs set_append using g1(2) g2(2) new by blast
  have nf': "set nf' = set ids - msg_ID ` set found"
    unfolding fs n2 n1 set_append image_Un by blast
  show "\<forall>i\<in>set ids - msg_ID ` set found. (q, i) \<notin> stored (q_storage p1) - expired t' (q_storage p1)"
    using g2(4) nf' by simp
  have "ok p2 \<and> cids (q_cache p2) = pool_remove (cids (q_cache p1)) q (set nf')"
  proof (cases "nf' = []")
    case True
    then have "q_cache p2 = q_cache p1" using p2(2) by simp
    then show ?thesis using assms(1) p2(1) True by (simp add: ok_def)
  next
    case False
    then have "q_cache p2 = fst (c_Remove C (q_cache p1) q nf')" using p2(2) by simp
    from cache_remove_ok [OF assms(1) p2(1) this] show ?thesis by simp
  qed
  then show "ok p2" "cids (q_cache p2) = pool_remove (cids (q_cache p1)) q (set ids - msg_ID ` set found)"
    by (simp_all add: nf')
qed

lemma pull_again_ok:
  assumes "ok p1" "q \<noteq> []" "any_order sord" "distinct ids"
    and "getFromStorage S t p1 ids q [(''score'', 1)] False = Inr (ms, nf)" "ids \<noteq> []" "nf \<noteq> []"
    and "pull_again C S sord clk p1 q ms nf = (p', r)"
  shows "ok p' \<and> q_storage p' = q_storage p1 \<and> (case r of Inl e \<Rightarrow> True | Inr mo \<Rightarrow> mo \<noteq> Some [] \<and>
    (let found = (case mo of None \<Rightarrow> [] | Some ms \<Rightarrow> ms) in
     distinct (map msg_ID found) \<and> (\<forall>m\<in>set found. msg_Queue m = q \<and> msg_ID m \<in> set ids) \<and>
     cids (q_cache p') = pool_remove (cids (q_cache p1)) q (set ids - msg_ID ` set found) \<and>
     (\<forall>i\<in>set ids - msg_ID ` set found. (q, i) \<notin> stored (q_storage p1) - expired (clk 2) (q_storage p1))))"
proof (cases "getFromStorage S (clk 2) p1 nf q [(''score'', 1)] True")
  case (Inl e)
  then have "p' = p1" "r = Inl e" using assms(8) by (simp_all add: pull_again_def)
  then show ?thesis using assms(1) by simp
next
  case (Inr mn)
  obtain ms' nf' where mn: "mn = (ms', nf')" by (cases mn)
  define a1 where "a1 = q_audits (clk 3) (map (\<lambda>i. audit_entry i q MISSING_STORAGE) nf')
    (q_metric ''QueueNotFoundInStorage'' (int (length nf)) [queue_attr q] p1)"
  define p2 where "p2 = (if length nf' > 0 then a1\<lparr>q_cache := fst (c_Remove C (q_cache a1) q nf')\<rparr> else p1)"
  define found where "found = (if length ms' > 0
    then unstable_sort sord (\<lambda>a b. msg_Score a < msg_Score b) (ms @ ms') else ms)"
  have eq: "(p', r) = (if found = [] then (q_metric ''QueueEmptyQueueStorage'' 1 [queue_attr q] p2, Inr None)
      else (p2, Inr (Some found)))"
    unfolding assms(8) [symmetric] pull_again_def Inr mn sum.case prod.case p2_def a1_def found_def Let_def
    by simp
  have s2: "q_storage p2 = q_storage p1"
    and c2: "q_cache p2 = (if nf' = [] then q_cache p1 else fst (c_Remove C (q_cache p1) q nf'))"
    and fo: "found = (if ms' = [] then ms else unstable_sort sord (\<lambda>a b. msg_Score a < msg_Score b) (ms @ ms'))"
    by (simp_all add: p2_def a1_def found_def)
  have f2: "getFromStorage S (clk 2) p1 nf q [(''score'', 1)] True = Inr (ms', nf')" using Inr mn by simp
  note re = pull_retry [OF assms(1-4,5,6,7) f2 s2 c2 fo]
  show ?thesis
  proof (cases "found = []")
    case True
    then have "q_cache p' = q_cache p2" "q_storage p' = q_storage p2" "r = Inr None" using eq by simp_all
    then show ?thesis using re s2 True by (simp add: ok_def)
  next
    case False
    then have "p' = p2" "r = Inr (Some found)" using eq by simp_all
    then show ?thesis using re s2 False by (simp add: Let_def)
  qed
qed

lemma Queue_Pull_cases:
  assumes "ok p" "q \<noteq> []" "any_order sord" "Queue_Pull C S sord clk p q n lo hi ack = (p', r)" "amount n"
  shows "ok p' \<and> q_storage p' = q_storage p \<and>
    (case r of Inl e \<Rightarrow> True
     | Inr mo \<Rightarrow> mo \<noteq> Some [] \<and>
         (\<exists>I. pulled (cids (q_cache p)) q I (case mo of None \<Rightarrow> [] | Some ms \<Rightarrow> ms) (cids (q_cache p')) \<and>
              (0 < n \<longrightarrow> int (card I) \<le> n) \<and>
              (\<forall>i\<in>I - msg_ID ` set (case mo of None \<Rightarrow> [] | Some ms \<Rightarrow> ms).
                 (q, i) \<notin> stored (q_storage p) - expired (clk 2) (q_storage p))))"
    (is ?goal)
proof -
  obtain ca rc where c: "c_PullMessages C (clk 0) (q_cache p) q n lo hi ack = (ca, rc)" by (meson surj_pair)
  let ?p1 = "p\<lparr>q_cache := ca\<rparr>"
  show ?thesis
  proof (cases rc)
    case (Inl e)
    then have "p' = ?p1" "r = Inl e" using assms(4) c by (simp_all add: Queue_Pull_def)
    then show ?thesis using pull_failed(1) [OF assms(1) c [unfolded Inl] assms(5)] by simp
  next
    case (Inr ids)
    note f = pull_first [OF assms(1) c [unfolded Inr] assms(5)]
    have card: "0 < n \<longrightarrow> int (card (set ids)) \<le> n" using f(2,4) by (simp add: distinct_card)
    show ?thesis
    proof (cases "ids = []")
      case True
      then have "q_cache p' = ca" "q_storage p' = q_storage p" "r = Inr None"
        using assms(4) c Inr by (auto simp: Queue_Pull_def)
      then show ?thesis using f True pulled_none by (auto simp: ok_def intro!: exI [of _ "{}"])
    next
      case False
      obtain g where g: "getFromStorage S (clk 1) ?p1 ids q [(''score'', 1)] False = g" by simp
      show ?thesis
      proof (cases g)
        case (Inl e)
        then have "p' = ?p1" "r = Inl e" using assms(4) c Inr False g by (simp_all add: Queue_Pull_def)
        then show ?thesis using f(1) by simp
      next
        case (Inr mn)
        obtain ms nf where mn: "mn = (ms, nf)" by (cases mn)
        note g' = g [unfolded Inr mn]
        have si: "sinv (q_storage ?p1)" using f(1) by (simp add: ok_def)
        note g1 = getFromStorage_ok [OF si False assms(2) g']
        show ?thesis
        proof (cases "nf = []")
          case True
          have eq: "p' = ?p1" "r = Inr (Some ms)"
            using assms(4) c \<open>rc = Inr ids\<close> False g' True by (simp_all add: Queue_Pull_def)
          have all: "set ids - msg_ID ` set ms = {}"
            using g1(3) [unfolded True] by (auto simp: filter_empty_conv dest!: sym [of "[]"])
          then have "ms \<noteq> []" using False by (cases ids) auto
          moreover have "pulled (cids (q_cache p)) q (set ids) ms (cids ca)"
            unfolding pulled_def all using f(3,5) g1(1,2) by simp
          ultimately show ?thesis using eq f(1) card all by (auto intro!: exI [of _ "set ids"])
        next
          case nf: False
          have one: "Queue_Pull C S sord clk p q n lo hi ack = pull_again C S sord clk ?p1 q ms nf"
            using c \<open>rc = Inr ids\<close> False g' nf by (simp add: Queue_Pull_def)
          have "ok p' \<and> q_storage p' = q_storage p \<and> (case r of Inl e \<Rightarrow> True | Inr mo \<Rightarrow> mo \<noteq> Some [] \<and>
            (let found = (case mo of None \<Rightarrow> [] | Some ms \<Rightarrow> ms) in
             distinct (map msg_ID found) \<and> (\<forall>m\<in>set found. msg_Queue m = q \<and> msg_ID m \<in> set ids) \<and>
             cids (q_cache p') = pool_remove (cids ca) q (set ids - msg_ID ` set found) \<and>
             (\<forall>i\<in>set ids - msg_ID ` set found. (q, i) \<notin> stored (q_storage p) - expired (clk 2) (q_storage p))))"
            using pull_again_ok [OF f(1) assms(2,3) f(2) g' False nf assms(4) [unfolded one]]
            unfolding Queue.select_convs Queue.update_convs by (simp split: sum.splits)
          then show ?thesis
            using card f(3,5) by (auto simp: pulled_def Let_def split: sum.splits intro!: exI [of _ "set ids"])
        qed
      qed
    qed
  qed
qed

end

end
