(* ===== verification/Housekeeper.thy ===== *)
theory Housekeeper
  imports Queue_Core
begin

text \<open>
  \<^verbatim>\<open>internal/queue/queue_housekeeper.go\<close>, the background tasks of Deckard, and the map of gauges of
  \<^verbatim>\<open>internal/metrics/metrics_map.go\<close> that they fill. \<open>stop n\<close> is the answer of the n-th call of
  \<^verbatim>\<open>shutdown.Ongoing()\<close> in a task, \<open>cancelled n\<close> tells whether the context is cancelled in the n-th
  round of a loop, and \<open>clks n\<close> is the clock of the n-th round. The tasks return the queue they leave.
\<close>

section \<open>Gauges\<close>

record QueueMetricsMap =
  OldestElement :: "(string, int64) gomap"
  TotalElements :: "(string, int64) gomap"

definition NewQueueMetricsMap :: QueueMetricsMap where
  "NewQueueMetricsMap = \<lparr>OldestElement = [], TotalElements = []\<rparr>"

definition mergeData ::
    "(string list \<Rightarrow> string list) \<Rightarrow> (string, int64) gomap \<Rightarrow> (string, int64) gomap option \<Rightarrow> (string, int64) gomap" where
  "mergeData ord currentData newData =
     (case newData of
        None \<Rightarrow> []
      | Some d \<Rightarrow>
          fold (\<lambda>key nd. if map_of nd key = None then AList.update key 0 nd else nd)
            (ord (map fst currentData)) d)"

definition UpdateOldestElementMap ::
    "(string list \<Rightarrow> string list) \<Rightarrow> QueueMetricsMap \<Rightarrow> (string, int64) gomap option \<Rightarrow> QueueMetricsMap" where
  "UpdateOldestElementMap ord oldestMap data =
     oldestMap\<lparr>OldestElement := mergeData ord (OldestElement oldestMap) data\<rparr>"

definition UpdateTotalElementsMap ::
    "(string list \<Rightarrow> string list) \<Rightarrow> QueueMetricsMap \<Rightarrow> (string, int64) gomap option \<Rightarrow> QueueMetricsMap" where
  "UpdateTotalElementsMap ord oldestMap data =
     oldestMap\<lparr>TotalElements := mergeData ord (TotalElements oldestMap) data\<rparr>"

section \<open>Timeouts\<close>

fun timeout_queues ::
    "'c Cache \<Rightarrow> (nat \<Rightarrow> bool) \<Rightarrow> (nat \<Rightarrow> bool) \<Rightarrow> (nat \<Rightarrow> clock) \<Rightarrow> nat \<Rightarrow> string list \<Rightarrow> ('c, 's) Queue \<Rightarrow>
     ('c, 's) Queue" where
  "timeout_queues C stop cancelled clks n [] pool = pool"
| "timeout_queues C stop cancelled clks n (queueName # queues) pool =
     (if stop n then pool
      else if cancelled n then pool
      else timeout_queues C stop cancelled clks (Suc n) queues
             (fst (Queue_TimeoutMessages C (clks n) pool queueName)))"

definition ProcessTimeoutMessages ::
    "'c Cache \<Rightarrow> (nat \<Rightarrow> bool) \<Rightarrow> (nat \<Rightarrow> bool) \<Rightarrow> (nat \<Rightarrow> clock) \<Rightarrow> ('c, 's) Queue \<Rightarrow>
     ('c, 's) Queue \<times> go_error option" where
  "ProcessTimeoutMessages C stop cancelled clks pool =
     (case c_ListQueues C (q_cache pool) ''*'' PROCESSING_POOL of
        Inl e \<Rightarrow> (pool, Some e)
      | Inr queues \<Rightarrow> (timeout_queues C stop cancelled clks 0 queues pool, None))"

section \<open>Locks\<close>

text \<open>The second component of the result counts the calls of \<^verbatim>\<open>shutdown.Ongoing()\<close> so far.\<close>

fun unlockMessages ::
    "'c Cache \<Rightarrow> (nat \<Rightarrow> bool) \<Rightarrow> (nat \<Rightarrow> clock) \<Rightarrow> LockType \<Rightarrow> string list \<Rightarrow> nat \<Rightarrow> ('c, 's) Queue \<Rightarrow>
     ('c, 's) Queue \<times> nat" where
  "unlockMessages C stop clks lockType [] n pool = (pool, n)"
| "unlockMessages C stop clks lockType (queue # queues) n pool =
     (if stop n then (pool, Suc n)
      else
        let (ca, r) = c_UnlockMessages C (clks n 0) (q_cache pool) queue lockType;
            p1 = pool\<lparr>q_cache := ca\<rparr>
        in case r of
             Inl e \<Rightarrow> unlockMessages C stop clks lockType queues (Suc n) p1
           | Inr ids \<Rightarrow>
               let p2 = q_audits (clks n 1)
                          (map (\<lambda>i. (audit_entry i queue UNLOCK)\<lparr>en_Reason := lock_type_string lockType\<rparr>) ids) p1;
                   p3 = q_metric ''HousekeeperUnlock'' (int (length ids))
                          [queue_attr queue, (''lock_type'', lock_type_string lockType)] p2
               in unlockMessages C stop clks lockType queues (Suc n) p3)"

definition ProcessLockPool ::
    "'c Cache \<Rightarrow> (nat \<Rightarrow> bool) \<Rightarrow> (nat \<Rightarrow> clock) \<Rightarrow> ('c, 's) Queue \<Rightarrow> ('c, 's) Queue" where
  "ProcessLockPool C stop clks pool =
     (case c_ListQueues C (q_cache pool) ''*'' LOCK_ACK_POOL of
        Inl e \<Rightarrow> pool
      | Inr lockAckQueues \<Rightarrow>
          let (p1, n) = unlockMessages C stop clks LOCK_ACK lockAckQueues 0 pool
          in if stop n then p1
             else case c_ListQueues C (q_cache p1) ''*'' LOCK_NACK_POOL of
                 Inl e \<Rightarrow> p1
               | Inr lockNackQueues \<Rightarrow> fst (unlockMessages C stop clks LOCK_NACK lockNackQueues (Suc n) p1))"

section \<open>Recovery\<close>

definition q_set :: "'c Cache \<Rightarrow> string \<Rightarrow> string \<Rightarrow> ('c, 's) Queue \<Rightarrow> ('c, 's) Queue" where
  "q_set C key value pool = pool\<lparr>q_cache := fst (c_Set C (q_cache pool) key value)\<rparr>"

definition isRecovering :: "'c Cache \<Rightarrow> ('c, 's) Queue \<Rightarrow> bool result" where
  "isRecovering C pool =
     (case c_Get C (q_cache pool) RECOVERY_RUNNING of
        Inl e \<Rightarrow> Inl e
      | Inr recovery \<Rightarrow> Inr (recovery = ''true''))"

text \<open>
  The answer is \<open>Inl\<close> where the code panics: \<^verbatim>\<open>GetStringInternalId\<close> asserts the type of an internal id.
\<close>

definition tryToStartRecovery ::
    "'c Cache \<Rightarrow> 's Storage \<Rightarrow> time \<Rightarrow> ('c, 's) Queue \<Rightarrow> ('c, 's) Queue \<times> bool result" where
  "tryToStartRecovery C S now pool =
     (let (ca, err) = c_Set C (q_cache pool) RECOVERY_RUNNING ''true'';
          p1 = pool\<lparr>q_cache := ca\<rparr>
      in if err \<noteq> None then (p1, Inr False)
         else
           (case s_Find S now (q_storage p1)
                   (Some (zero_FindOptions\<lparr>fo_Projection := Some [(''_id'', 1)], fo_Sort := Some [(''_id'', - 1)],
                      fo_Limit := 1\<rparr>)) of
              Inl e \<Rightarrow> (p1, Inr False)
            | Inr messages \<Rightarrow>
                if length messages = 0
                then (q_set C RECOVERY_RUNNING ''false''
                        (q_set C RECOVERY_STORAGE_BREAKPOINT_KEY RECOVERY_FINISHED p1), Inr False)
                else
                  (case s_GetStringInternalId S (q_storage p1) (messages ! 0) of
                     Inl e \<Rightarrow> (p1, Inl e)
                   | Inr recoveryBreakpointKey \<Rightarrow>
                       (q_set C RECOVERY_BREAKPOINT_KEY recoveryBreakpointKey p1, Inr True))))"

definition cap_score :: "Message \<Rightarrow> Message" where
  "cap_score m =
     (if msg_Score m < score_Min then m\<lparr>msg_Score := score_Min\<rparr>
      else if msg_Score m > score_Max then m\<lparr>msg_Score := score_Max\<rparr>
      else m)"

definition recovery_find :: "string \<Rightarrow> string \<Rightarrow> FindOptions" where
  "recovery_find breakpoint recoveryBreakpoint =
     zero_FindOptions
       \<lparr>fo_InternalFilter := Some (zero_InternalFilter
          \<lparr>if_InternalIdBreakpointGt := breakpoint, if_InternalIdBreakpointLte := recoveryBreakpoint\<rparr>),
        fo_Projection := Some [(''id'', 1), (''score'', 1), (''queue'', 1), (''last_score'', 1),
                               (''last_usage'', 1), (''lock_ms'', 1)],
        fo_Sort := Some [(''_id'', 1)], fo_Limit := 4000\<rparr>"

definition recovery_finish :: "'c Cache \<Rightarrow> Message list \<Rightarrow> ('c, 's) Queue \<Rightarrow> ('c, 's) Queue" where
  "recovery_finish C messages pool =
     (if length messages < 4000
      then q_set C RECOVERY_STORAGE_BREAKPOINT_KEY RECOVERY_FINISHED
             (q_set C RECOVERY_RUNNING ''false'' pool)
      else pool)"

definition recovery_batch ::
    "'c Cache \<Rightarrow> 's Storage \<Rightarrow> (string list \<Rightarrow> string list) \<Rightarrow> clock \<Rightarrow> string \<Rightarrow> ('c, 's) Queue \<Rightarrow>
     ('c, 's) Queue \<times> bool result" where
  "recovery_batch C S ord clk breakpoint pool =
     (case c_Get C (q_cache pool) RECOVERY_BREAKPOINT_KEY of
        Inl e \<Rightarrow> (pool, Inr True)
      | Inr recoveryBreakpoint \<Rightarrow>
          (case s_Find S (clk 1) (q_storage pool) (Some (recovery_find breakpoint recoveryBreakpoint)) of
             Inl e \<Rightarrow> (pool, Inr True)
           | Inr found \<Rightarrow>
               let messages = map cap_score found
               in if length messages > 0
                  then
                    let (p1, r) = AddMessagesToCacheWithAuditReason C ord (clk 2) pool ''recovery'' messages
                    in (case r of
                          Inl e \<Rightarrow> (p1, Inr True)
                        | Inr _ \<Rightarrow>
                            (case s_GetStringInternalId S (q_storage p1) (last messages) of
                               Inl e \<Rightarrow> (p1, Inl e)
                             | Inr key \<Rightarrow>
                                 (recovery_finish C messages (q_set C RECOVERY_STORAGE_BREAKPOINT_KEY key p1), Inr True)))
                  else (recovery_finish C messages pool, Inr True)))"

definition RecoveryMessagesPool ::
    "'c Cache \<Rightarrow> 's Storage \<Rightarrow> (string list \<Rightarrow> string list) \<Rightarrow> clock \<Rightarrow> ('c, 's) Queue \<Rightarrow>
     ('c, 's) Queue \<times> bool result" where
  "RecoveryMessagesPool C S ord clk pool =
     (case c_Get C (q_cache pool) RECOVERY_STORAGE_BREAKPOINT_KEY of
        Inl e \<Rightarrow> (pool, Inr True)
      | Inr breakpoint \<Rightarrow>
          if breakpoint = RECOVERY_FINISHED then (pool, Inr False)
          else
            (case isRecovering C pool of
               Inl e \<Rightarrow> (pool, Inr True)
             | Inr recovering \<Rightarrow>
                 if breakpoint = [] \<and> \<not> recovering
                 then
                   let (p1, started) = tryToStartRecovery C S (clk 0) pool
                   in (case started of
                         Inl e \<Rightarrow> (p1, Inl e)
                       | Inr False \<Rightarrow> (p1, Inr True)
                       | Inr True \<Rightarrow> recovery_batch C S ord clk breakpoint p1)
                 else recovery_batch C S ord clk breakpoint pool))"

section \<open>Expired and exceeding messages\<close>

fun ids_by_queue :: "Message list \<Rightarrow> (string, string list) gomap \<Rightarrow> (string, string list) gomap" where
  "ids_by_queue [] m = m"
| "ids_by_queue (message # messages) m =
     (let ids = (case map_of m (msg_Queue message) of None \<Rightarrow> [] | Some l \<Rightarrow> l)
      in ids_by_queue messages (AList.update (msg_Queue message) (ids @ [msg_ID message]) m))"

fun remove_ttl_loop ::
    "'c Cache \<Rightarrow> 's Storage \<Rightarrow> (nat \<Rightarrow> bool) \<Rightarrow> (nat \<Rightarrow> clock) \<Rightarrow> (string, string list) gomap \<Rightarrow> nat \<Rightarrow> string list \<Rightarrow>
     ('c, 's) Queue \<Rightarrow> ('c, 's) Queue \<times> bool \<times> go_error option" where
  "remove_ttl_loop C S stop clks messageMap n [] pool = (pool, True, None)"
| "remove_ttl_loop C S stop clks messageMap n (queue # queues) pool =
     (if stop n then (pool, True, None)
      else
        let ids = the (map_of messageMap queue);
            (p1, cacheRemoved, storageRemoved, err) = Queue_Remove C S (clks n 0) pool queue ''TTL'' ids
        in case err of
             Some e \<Rightarrow> (p1, True, Some e)
           | None \<Rightarrow>
               remove_ttl_loop C S stop clks messageMap (Suc n) queues
                 (q_metric ''HousekeeperTTLStorageRemoved'' storageRemoved [queue_attr queue]
                    (q_metric ''HousekeeperTTLCacheRemoved'' cacheRemoved [queue_attr queue] p1)))"

text \<open>
  A task that skips its work while a recovery runs. The result is the pair of Go results of
  \<^verbatim>\<open>RemoveTTLMessages\<close> and \<^verbatim>\<open>RemoveExceedingMessages\<close>.
\<close>

definition unless_recovering ::
    "'c Cache \<Rightarrow> (('c, 's) Queue \<Rightarrow> ('c, 's) Queue \<times> bool \<times> go_error option) \<Rightarrow> ('c, 's) Queue \<Rightarrow>
     ('c, 's) Queue \<times> bool \<times> go_error option" where
  "unless_recovering C task pool =
     (case isRecovering C pool of
        Inl e \<Rightarrow> (pool, False, Some e)
      | Inr True \<Rightarrow> (pool, False, None)
      | Inr False \<Rightarrow> task pool)"

definition ttl_find :: "time option \<Rightarrow> FindOptions" where
  "ttl_find filterDate =
     zero_FindOptions
       \<lparr>fo_Limit := 10000,
        fo_InternalFilter := Some (zero_InternalFilter\<lparr>if_ExpiryDate := filterDate\<rparr>),
        fo_Projection := Some [(''id'', 1), (''queue'', 1), (''_id'', 0)],
        fo_Sort := Some [(''expiry_date'', 1)]\<rparr>"

definition RemoveTTLMessages ::
    "'c Cache \<Rightarrow> 's Storage \<Rightarrow> (string list \<Rightarrow> string list) \<Rightarrow> (nat \<Rightarrow> bool) \<Rightarrow> time \<Rightarrow> (nat \<Rightarrow> clock) \<Rightarrow> time option \<Rightarrow>
     ('c, 's) Queue \<Rightarrow> ('c, 's) Queue \<times> bool \<times> go_error option" where
  "RemoveTTLMessages C S ord stop now clks filterDate pool =
     unless_recovering C (\<lambda>pool.
       (case s_Find S now (q_storage pool) (Some (ttl_find filterDate)) of
          Inl e \<Rightarrow> (pool, True, Some e)
        | Inr messages \<Rightarrow>
            let messageMap = ids_by_queue messages []
            in remove_ttl_loop C S stop clks messageMap 0 (ord (map fst messageMap)) pool)) pool"

definition exceeding_find :: "string \<Rightarrow> int64 \<Rightarrow> FindOptions" where
  "exceeding_find queue diff =
     zero_FindOptions
       \<lparr>fo_Limit := diff,
        fo_InternalFilter := Some (zero_InternalFilter\<lparr>if_Queue := queue\<rparr>),
        fo_Projection := Some [(''id'', 1), (''_id'', 0)],
        fo_Sort := Some [(''expiry_date'', 1)],
        fo_Comment := ''housekeeper.removeExceedingMessagesFromQueue_2''\<rparr>"

definition removeExceedingMessagesFromQueue ::
    "'c Cache \<Rightarrow> 's Storage \<Rightarrow> clock \<Rightarrow> QueueConfiguration option \<Rightarrow> ('c, 's) Queue \<Rightarrow>
     ('c, 's) Queue \<times> go_error option" where
  "removeExceedingMessagesFromQueue C S clk queueConfiguration pool =
     (case queueConfiguration of
        None \<Rightarrow> (pool, None)
      | Some cfg \<Rightarrow>
          if cfg_MaxElements cfg \<le> 0 \<or> cfg_Queue cfg = [] then (pool, None)
          else
            let queue = cfg_Queue cfg; comment = ''housekeeper.removeExceedingMessagesFromQueue_1''
            in (case s_Count S (q_storage pool)
                       (Some (zero_FindOptions
                          \<lparr>fo_InternalFilter := Some (zero_InternalFilter\<lparr>if_Queue := queue\<rparr>),
                           fo_Comment := comment\<rparr>))
                       (Some \<lparr>co_Comment = comment\<rparr>) of
                  Inl e \<Rightarrow> (pool, Some e)
                | Inr amount \<Rightarrow>
                    if amount \<le> cfg_MaxElements cfg then (pool, None)
                    else
                      let diff = wrap64 (amount - cfg_MaxElements cfg)
                      in (case s_Find S (clk 0) (q_storage pool) (Some (exceeding_find queue diff)) of
                            Inl e \<Rightarrow> (pool, Some e)
                          | Inr messages \<Rightarrow>
                              let (p1, cacheRemoved, storageRemoved, err) =
                                    Queue_Remove C S (clk 1) pool queue ''MAX_ELEMENTS'' (map msg_ID messages)
                              in (case err of
                                    Some e \<Rightarrow> (p1, Some e)
                                  | None \<Rightarrow>
                                      (q_metric ''HousekeeperExceedingStorageRemoved'' storageRemoved [queue_attr queue]
                                         (q_metric ''HousekeeperExceedingCacheRemoved'' cacheRemoved [queue_attr queue] p1),
                                       None)))))"

fun exceeding_loop ::
    "'c Cache \<Rightarrow> 's Storage \<Rightarrow> (nat \<Rightarrow> bool) \<Rightarrow> (nat \<Rightarrow> clock) \<Rightarrow> nat \<Rightarrow> QueueConfiguration list \<Rightarrow> ('c, 's) Queue \<Rightarrow>
     ('c, 's) Queue" where
  "exceeding_loop C S stop clks n [] pool = pool"
| "exceeding_loop C S stop clks n (configuration # configurations) pool =
     (if stop n then pool
      else exceeding_loop C S stop clks (Suc n) configurations
             (fst (removeExceedingMessagesFromQueue C S (clks n) (Some configuration) pool)))"

definition RemoveExceedingMessages ::
    "'c Cache \<Rightarrow> 's Storage \<Rightarrow> (nat \<Rightarrow> bool) \<Rightarrow> (nat \<Rightarrow> clock) \<Rightarrow> ('c, 's) Queue \<Rightarrow>
     ('c, 's) Queue \<times> bool \<times> go_error option" where
  "RemoveExceedingMessages C S stop clks pool =
     unless_recovering C (\<lambda>pool.
       (case s_ListQueueConfigurations S (q_storage pool) of
          Inl e \<Rightarrow> (pool, True, None)
        | Inr configurations \<Rightarrow> (exceeding_loop C S stop clks 0 configurations pool, True, None))) pool"

section \<open>Metrics\<close>

fun compute_metrics_loop ::
    "'s Storage \<Rightarrow> (nat \<Rightarrow> bool) \<Rightarrow> (nat \<Rightarrow> clock) \<Rightarrow> ('c, 's) Queue \<Rightarrow> nat \<Rightarrow> string list \<Rightarrow>
     (string, int64) gomap \<Rightarrow> (string, int64) gomap \<Rightarrow> (string, int64) gomap \<times> (string, int64) gomap" where
  "compute_metrics_loop S stop clks pool n [] oldestElement totalElements = (oldestElement, totalElements)"
| "compute_metrics_loop S stop clks pool n (queue # queues) oldestElement totalElements =
     (if stop n then (oldestElement, totalElements)
      else
        case s_Find S (clks n 0) (q_storage pool)
               (Some (zero_FindOptions
                  \<lparr>fo_Projection := Some [(''last_usage'', 1), (''_id'', 0)], fo_Sort := Some [(''last_usage'', 1)],
                   fo_Limit := 1, fo_InternalFilter := Some (zero_InternalFilter\<lparr>if_QueuePrefix := queue\<rparr>)\<rparr>)) of
          Inl e \<Rightarrow> compute_metrics_loop S stop clks pool (Suc n) queues oldestElement totalElements
        | Inr message \<Rightarrow>
            let oldest = (case message of
                            [m] \<Rightarrow> (case msg_LastUsage m of
                                      None \<Rightarrow> oldestElement
                                    | Some u \<Rightarrow> AList.update queue (ElapsedTime (clks n 1) u) oldestElement)
                          | _ \<Rightarrow> oldestElement)
            in (case Queue_Count S pool
                       (Some (zero_FindOptions
                          \<lparr>fo_InternalFilter := Some (zero_InternalFilter\<lparr>if_QueuePrefix := queue\<rparr>)\<rparr>)) of
                  Inl e \<Rightarrow> compute_metrics_loop S stop clks pool (Suc n) queues oldest totalElements
                | Inr amount \<Rightarrow>
                    compute_metrics_loop S stop clks pool (Suc n) queues oldest
                      (AList.update queue amount totalElements)))"

definition ComputeMetrics ::
    "'s Storage \<Rightarrow> (string list \<Rightarrow> string list) \<Rightarrow> (nat \<Rightarrow> bool) \<Rightarrow> (nat \<Rightarrow> clock) \<Rightarrow> ('c, 's) Queue \<Rightarrow>
     QueueMetricsMap \<Rightarrow> QueueMetricsMap" where
  "ComputeMetrics S ord stop clks pool metricsMap =
     (case s_ListQueuePrefixes S (q_storage pool) of
        Inl e \<Rightarrow> metricsMap
      | Inr queues \<Rightarrow>
          let (oldestElement, totalElements) = compute_metrics_loop S stop clks pool 0 queues [] []
          in UpdateTotalElementsMap ord
               (UpdateOldestElementMap ord metricsMap (Some oldestElement)) (Some totalElements))"

end
