(* ===== verification/Queue_Configuration.thy ===== *)
theory Queue_Configuration
  imports Queue_Core
begin

text \<open>
  \<^verbatim>\<open>internal/queue/queue_configuration_service.go\<close>: queue configurations read through a local cache. The
  local cache is the package \<^verbatim>\<open>patrickmn/go-cache\<close>, which is not part of the sources: the service takes its
  operations as a record, and \<open>go_cache\<close> is what its documentation promises of them.
\<close>

section \<open>The local cache\<close>

record 'l LocalCache =
  lc_New :: "int64 \<Rightarrow> int64 \<Rightarrow> 'l"
  lc_Get :: "time \<Rightarrow> 'l \<Rightarrow> string \<Rightarrow> QueueConfiguration option"
  lc_Set :: "time \<Rightarrow> 'l \<Rightarrow> string \<Rightarrow> QueueConfiguration \<Rightarrow> 'l"
  lc_Delete :: "'l \<Rightarrow> string \<Rightarrow> 'l"

text \<open>
  An item that was set with the default expiration is there until that time has passed, and may be there
  or not afterwards; once it is gone it stays away. Other keys are not affected.
\<close>

definition go_cache :: "int64 \<Rightarrow> int64 \<Rightarrow> 'l LocalCache \<Rightarrow> bool" where
  "go_cache expiration cleanup LC \<longleftrightarrow>
     (\<forall>t k. lc_Get LC t (lc_New LC expiration cleanup) k = None) \<and>
     (\<forall>t t' l k v. lc_Get LC t' (lc_Set LC t l k v) k \<in> {None, Some v}) \<and>
     (\<forall>t t' l k v. t \<le> t' \<and> t' < t + expiration \<longrightarrow> lc_Get LC t' (lc_Set LC t l k v) k = Some v) \<and>
     (\<forall>t t' l k v. t \<le> t' \<and> lc_Get LC t' l k = Some v \<longrightarrow> lc_Get LC t l k = Some v) \<and>
     (\<forall>t t' l k k' v. k' \<noteq> k \<longrightarrow> lc_Get LC t' (lc_Set LC t l k v) k' = lc_Get LC t' l k') \<and>
     (\<forall>t l k. lc_Get LC t (lc_Delete LC l k) k = None) \<and>
     (\<forall>t l k k'. k' \<noteq> k \<longrightarrow> lc_Get LC t (lc_Delete LC l k) k' = lc_Get LC t l k')"

section \<open>The service\<close>

text \<open>9 and 1 minutes.\<close>

definition cache_expiration :: int64 where
  "cache_expiration = 9 * 60000000000"

definition cache_cleanup :: int64 where
  "cache_cleanup = 1 * 60000000000"

definition NewQueueConfigurationService :: "'l LocalCache \<Rightarrow> 'l" where
  "NewQueueConfigurationService LC = lc_New LC cache_expiration cache_cleanup"

definition QueueConfiguration_Edit ::
    "'s Storage \<Rightarrow> 'l LocalCache \<Rightarrow> time \<Rightarrow> 's \<Rightarrow> 'l \<Rightarrow> QueueConfiguration option \<Rightarrow> 's \<times> 'l \<times> go_error option" where
  "QueueConfiguration_Edit S LC now st localCache cfg_ptr =
     (case cfg_ptr of
        None \<Rightarrow> (st, localCache, None)
      | Some cfg \<Rightarrow>
          if cfg_MaxElements cfg = 0 then (st, localCache, None)
          else
            (case lc_Get LC now localCache (cfg_Queue cfg) of
               None \<Rightarrow> (let (st', err) = s_EditQueueConfiguration S st cfg in (st', localCache, err))
             | Some cacheConfiguration \<Rightarrow>
                 if cfg_MaxElements cacheConfiguration \<noteq> cfg_MaxElements cfg
                 then (let (st', err) = s_EditQueueConfiguration S st cfg
                       in (st', lc_Delete LC localCache (cfg_Queue cfg), err))
                 else (st, localCache, None)))"

definition QueueConfiguration_Get ::
    "'s Storage \<Rightarrow> 'l LocalCache \<Rightarrow> clock \<Rightarrow> 's \<Rightarrow> 'l \<Rightarrow> string \<Rightarrow> 'l \<times> QueueConfiguration result" where
  "QueueConfiguration_Get S LC clk st localCache queue =
     (case lc_Get LC (clk 0) localCache queue of
        Some cacheConfig \<Rightarrow> (localCache, Inr cacheConfig)
      | None \<Rightarrow>
          (case s_GetQueueConfiguration S st queue of
             Inl e \<Rightarrow> (localCache, Inl e)
           | Inr found \<Rightarrow>
               let config = (case found of None \<Rightarrow> \<lparr>cfg_Queue = queue, cfg_MaxElements = 0\<rparr> | Some c \<Rightarrow> c)
               in (lc_Set LC (clk 1) localCache queue config, Inr config)))"

end
