(* ===== verification/Service.thy ===== *)
theory Service
  imports Housekeeper Queue_Configuration
begin

text \<open>
  \<^verbatim>\<open>internal/service/deckard_service.go\<close>: the methods of the gRPC service, as functions of the state of
  the service, of the instants they read and of the request. The messages of the protocol buffers are
  records with the fields the service uses. Span attributes are left out, and so is the gRPC server itself.
\<close>

section \<open>Requests and responses\<close>

record AddMessage =
  am_Id :: string
  am_Payload :: "(string, any) gomap option"
  am_StringPayload :: string
  am_Metadata :: "(string, string) gomap option"
  am_Queue :: string
  am_Timeless :: bool
  am_TtlMinutes :: int64
  am_Description :: string
  am_Score :: float64

record AddResponse =
  ar_CreatedCount :: int64
  ar_UpdatedCount :: int64

record PullRequest =
  pr_Queue :: string
  pr_Amount :: int64
  pr_ScoreFilter :: int64
  pr_MaxScore :: float64
  pr_MinScore :: float64
  pr_AckDeadlineMs :: int64

record Diagnostics =
  pd_Acks :: int64
  pd_Nacks :: int64
  pd_ConsecutiveAcks :: int64
  pd_ConsecutiveNacks :: int64

record PbMessage =
  pm_Id :: string
  pm_Description :: string
  pm_Queue :: string
  pm_Payload :: "(string, any) gomap option"
  pm_Metadata :: "(string, string) gomap option"
  pm_StringPayload :: string
  pm_Score :: float64
  pm_Breakpoint :: string
  pm_Diagnostics :: "Diagnostics option"

record AckRequest =
  ak_Id :: string
  ak_Queue :: string
  ak_Reason :: string
  ak_ScoreSubtract :: float64
  ak_Breakpoint :: string
  ak_LockMs :: int64
  ak_RemoveMessage :: bool
  ak_Score :: float64

record RemoveResponse =
  rr_CacheRemoved :: int64
  rr_StorageRemoved :: int64

record AckResponse =
  akr_Success :: bool
  akr_RemovalResponse :: "RemoveResponse option"

record GetByIdResponse =
  gr_Message :: "PbMessage option"
  gr_Found :: bool
  gr_HumanReadablePayload :: "(string, string) gomap"

section \<open>State\<close>

text \<open>
  The configuration service works on the storage of the queue, as \<^verbatim>\<open>main.go\<close> builds it; its own state is
  the local cache.
\<close>

record ('c, 's, 'l) Deckard =
  d_queue :: "('c, 's) Queue"
  d_localCache :: 'l
  d_memoryInstance :: bool

definition NewDeckardInstance :: "('c, 's) Queue \<Rightarrow> 'l \<Rightarrow> bool \<Rightarrow> ('c, 's, 'l) Deckard" where
  "NewDeckardInstance qpool localCache memoryInstance =
     \<lparr>d_queue = qpool, d_localCache = localCache, d_memoryInstance = memoryInstance\<rparr>"

definition NewMemoryDeckardService :: "('c, 's) Queue \<Rightarrow> 'l \<Rightarrow> ('c, 's, 'l) Deckard" where
  "NewMemoryDeckardService qpool localCache = NewDeckardInstance qpool localCache True"

definition NewDeckardService :: "('c, 's) Queue \<Rightarrow> 'l \<Rightarrow> ('c, 's, 'l) Deckard" where
  "NewDeckardService qpool localCache = NewDeckardInstance qpool localCache False"

definition Internal :: "string \<Rightarrow> go_error" where
  "Internal msg = Status ''Internal'' msg"

definition InvalidArgument :: "string \<Rightarrow> go_error" where
  "InvalidArgument msg = Status ''InvalidArgument'' msg"

section \<open>Queue configurations\<close>

text \<open>The request is the queue and the maximum of elements of its configuration, if it has one.\<close>

definition Deckard_EditQueue ::
    "'s Storage \<Rightarrow> 'l LocalCache \<Rightarrow> time \<Rightarrow> ('c, 's, 'l) Deckard \<Rightarrow> string \<Rightarrow> int64 option \<Rightarrow>
     ('c, 's, 'l) Deckard \<times> (string \<times> bool) result" where
  "Deckard_EditQueue S LC now d queue configuration =
     (case configuration of
        None \<Rightarrow> (d, Inr (queue, False))
      | Some maxElements \<Rightarrow>
          let (st, lc, err) = QueueConfiguration_Edit S LC now (q_storage (d_queue d)) (d_localCache d)
                (Some \<lparr>cfg_Queue = queue, cfg_MaxElements = maxElements\<rparr>);
              d' = d\<lparr>d_queue := (d_queue d)\<lparr>q_storage := st\<rparr>, d_localCache := lc\<rparr>
          in case err of
               Some e \<Rightarrow> (d', Inl (Internal ''error editing queue''))
             | None \<Rightarrow> (d', Inr (queue, True)))"

definition Deckard_GetQueue ::
    "'s Storage \<Rightarrow> 'l LocalCache \<Rightarrow> clock \<Rightarrow> ('c, 's, 'l) Deckard \<Rightarrow> string \<Rightarrow>
     ('c, 's, 'l) Deckard \<times> QueueConfiguration result" where
  "Deckard_GetQueue S LC clk d queue =
     (let (lc, r) = QueueConfiguration_Get S LC clk (q_storage (d_queue d)) (d_localCache d) queue;
          d' = d\<lparr>d_localCache := lc\<rparr>
      in case r of
           Inl e \<Rightarrow> (d', Inl (Internal ''error getting queue configuration''))
         | Inr res \<Rightarrow> (d', Inr \<lparr>cfg_Queue = cfg_Queue res, cfg_MaxElements = cfg_MaxElements res\<rparr>))"

section \<open>Removing, counting and adding\<close>

definition Deckard_Remove ::
    "'c Cache \<Rightarrow> 's Storage \<Rightarrow> time \<Rightarrow> ('c, 's, 'l) Deckard \<Rightarrow> string list \<Rightarrow> string \<Rightarrow>
     ('c, 's, 'l) Deckard \<times> RemoveResponse result" where
  "Deckard_Remove C S now d ids queue =
     (if length ids = 0 then (d, Inr \<lparr>rr_CacheRemoved = 0, rr_StorageRemoved = 0\<rparr>)
      else
        let (q, cacheRemoved, storageRemoved, err) = Queue_Remove C S now (d_queue d) queue ''REQUEST'' ids;
            d' = d\<lparr>d_queue := q\<rparr>
        in case err of
             Some e \<Rightarrow> (d', Inl (Internal ''error removing messages from pool''))
           | None \<Rightarrow> (d', Inr \<lparr>rr_CacheRemoved = cacheRemoved, rr_StorageRemoved = storageRemoved\<rparr>))"

definition Deckard_Count :: "'s Storage \<Rightarrow> ('c, 's, 'l) Deckard \<Rightarrow> string \<Rightarrow> int64 result" where
  "Deckard_Count S d queue =
     (case Queue_Count S (d_queue d)
             (Some (zero_FindOptions
                \<lparr>fo_InternalFilter := Some (zero_InternalFilter\<lparr>if_Queue := queue\<rparr>)\<rparr>)) of
        Inl e \<Rightarrow> Inl (Internal ''error count messages'')
      | Inr result \<Rightarrow> Inr result)"

text \<open>A message of an \<^verbatim>\<open>AddRequest\<close>: the clock is read for the expiry date and, for a score of 0, again.\<close>

definition expiry_date :: "time \<Rightarrow> AddMessage \<Rightarrow> time" where
  "expiry_date now m =
     (let t = (if am_TtlMinutes m \<noteq> 0 then AddMinutes now (am_TtlMinutes m) else now)
      in if am_Timeless m then AddYears t 100 else t)"

definition added_message :: "time \<Rightarrow> time \<Rightarrow> AddMessage \<Rightarrow> Message" where
  "added_message now now' m =
     (let (queuePrefix, queueSuffix) = GetQueueParts (am_Queue m)
      in zero_Message
           \<lparr>msg_ID := am_Id m, msg_Queue := am_Queue m, msg_Timeless := am_Timeless m,
            msg_Score := GetAddScore now' (am_Score m), msg_Description := am_Description m,
            msg_ExpiryDate := expiry_date now m, msg_Payload := am_Payload m,
            msg_StringPayload := am_StringPayload m, msg_Metadata := am_Metadata m,
            msg_QueuePrefix := queuePrefix, msg_QueueSuffix := queueSuffix\<rparr>)"

fun added_messages :: "(nat \<Rightarrow> clock) \<Rightarrow> nat \<Rightarrow> AddMessage list \<Rightarrow> Message list" where
  "added_messages clks i [] = []"
| "added_messages clks i (m # ms) = added_message (clks i 0) (clks i 1) m # added_messages clks (Suc i) ms"

definition Deckard_Add ::
    "'c Cache \<Rightarrow> 's Storage \<Rightarrow> (string list \<Rightarrow> string list) \<Rightarrow> (nat \<Rightarrow> clock) \<Rightarrow> clock \<Rightarrow> ('c, 's, 'l) Deckard \<Rightarrow>
     AddMessage list \<Rightarrow> ('c, 's, 'l) Deckard \<times> AddResponse result" where
  "Deckard_Add C S ord clks clk d request =
     (let messages = added_messages clks 0 request;
          (q1, r) = AddMessagesToStorage S (clk 0) (d_queue d) messages
      in case r of
           Inl e \<Rightarrow> (d\<lparr>d_queue := q1\<rparr>, Inl (Internal ''error adding messages''))
         | Inr (inserted, updated) \<Rightarrow>
             let (q2, r2) = AddMessagesToCache C ord (clk 1) q1 messages
             in (case r2 of
                   Inl e \<Rightarrow> (d\<lparr>d_queue := q2\<rparr>, Inl (Internal ''error adding messages''))
                 | Inr cacheInserted \<Rightarrow>
                     (d\<lparr>d_queue := q2\<rparr>, Inr \<lparr>ar_CreatedCount = inserted, ar_UpdatedCount = updated\<rparr>)))"

section \<open>Pulling\<close>

definition getMessageDiagnostic :: "MessageDiagnostics option \<Rightarrow> Diagnostics" where
  "getMessageDiagnostic messageDiagnostics =
     (let diagnostics = \<lparr>pd_Acks = 0, pd_Nacks = 0, pd_ConsecutiveAcks = 0, pd_ConsecutiveNacks = 0\<rparr>
      in case messageDiagnostics of
           None \<Rightarrow> diagnostics
         | Some m \<Rightarrow>
             let d1 = (case dg_Acks m of None \<Rightarrow> diagnostics | Some v \<Rightarrow> diagnostics\<lparr>pd_Acks := v\<rparr>);
                 d2 = (case dg_Nacks m of None \<Rightarrow> d1 | Some v \<Rightarrow> d1\<lparr>pd_Nacks := v\<rparr>);
                 d3 = (case dg_ConsecutiveAcks m of None \<Rightarrow> d2 | Some v \<Rightarrow> d2\<lparr>pd_ConsecutiveAcks := v\<rparr>)
             in (case dg_ConsecutiveNacks m of None \<Rightarrow> d3 | Some v \<Rightarrow> d3\<lparr>pd_ConsecutiveNacks := v\<rparr>))"

definition pulled_message :: "Message \<Rightarrow> PbMessage" where
  "pulled_message q =
     (let message = \<lparr>pm_Id = msg_ID q, pm_Description = [], pm_Queue = msg_Queue q, pm_Payload = msg_Payload q,
                     pm_Metadata = msg_Metadata q, pm_StringPayload = msg_StringPayload q,
                     pm_Score = msg_Score q, pm_Breakpoint = msg_Breakpoint q,
                     pm_Diagnostics = Some (getMessageDiagnostic (msg_Diagnostics q))\<rparr>
      in if msg_Payload q \<noteq> None then message\<lparr>pm_Payload := msg_Payload q\<rparr> else message)"

definition pull_amount :: "int64 \<Rightarrow> int64" where
  "pull_amount amount =
     (let a = (if amount \<le> 0 then 1 else amount) in if a > 1000 then 1000 else a)"

definition pull_max :: "time \<Rightarrow> PullRequest \<Rightarrow> float64" where
  "pull_max now request =
     (if feq (pr_MaxScore request) (Fin 0) \<and> pr_ScoreFilter request > 0
      then float_of_int (wrap64 (NowMs now - pr_ScoreFilter request))
      else pr_MaxScore request)"

definition Deckard_Pull ::
    "'c Cache \<Rightarrow> 's Storage \<Rightarrow> (Message list \<Rightarrow> Message list) \<Rightarrow> time \<Rightarrow> clock \<Rightarrow> ('c, 's, 'l) Deckard \<Rightarrow> PullRequest \<Rightarrow>
     ('c, 's, 'l) Deckard \<times> PbMessage list result" where
  "Deckard_Pull C S sord now clk d request =
     (let amount = pull_amount (pr_Amount request);
          minScore = GetPullMinScore (pr_MinScore request);
          maxScore = GetPullMaxScore (pull_max now request);
          (q, r) = Queue_Pull C S sord clk (d_queue d) (pr_Queue request) amount minScore maxScore
                     (pr_AckDeadlineMs request);
          d' = d\<lparr>d_queue := q\<rparr>
      in case r of
           Inl e \<Rightarrow> (d', Inl (Internal ''error pulling messages''))
         | Inr None \<Rightarrow> (d', Inr [])
         | Inr (Some messages) \<Rightarrow> (d', Inr (map pulled_message messages)))"

section \<open>Finding a message\<close>

text \<open>\<open>any_String\<close> is the method \<^verbatim>\<open>String\<close> of \<^verbatim>\<open>anypb.Any\<close>.\<close>

definition convertAnyDataToString :: "(any \<Rightarrow> string) \<Rightarrow> (string, any) gomap option \<Rightarrow> (string, string) gomap" where
  "convertAnyDataToString any_String anyData =
     (case anyData of None \<Rightarrow> [] | Some m \<Rightarrow> map (\<lambda>(key, value). (key, any_String value)) m)"

definition Deckard_GetById ::
    "'s Storage \<Rightarrow> (any \<Rightarrow> string) \<Rightarrow> time \<Rightarrow> ('c, 's, 'l) Deckard \<Rightarrow> string \<Rightarrow> string \<Rightarrow> GetByIdResponse result" where
  "Deckard_GetById S any_String now d i queue =
     (if i = [] then Inl (InvalidArgument ''invalid id'')
      else if queue = [] then Inl (InvalidArgument ''invalid queue'')
      else
        (case Queue_GetStorageMessages S now (d_queue d)
                (Some (zero_FindOptions\<lparr>fo_Limit := 1,
                   fo_InternalFilter := Some (zero_InternalFilter\<lparr>if_Ids := Some [i], if_Queue := queue\<rparr>)\<rparr>)) of
           Inl e \<Rightarrow> Inl (Internal ''error getting message'')
         | Inr messages \<Rightarrow>
             (case messages of
                [message] \<Rightarrow>
                  Inr \<lparr>gr_Message = Some \<lparr>pm_Id = msg_ID message, pm_Description = msg_Description message,
                         pm_Queue = msg_Queue message, pm_Payload = msg_Payload message,
                         pm_Metadata = msg_Metadata message, pm_StringPayload = msg_StringPayload message,
                         pm_Score = msg_Score message, pm_Breakpoint = msg_Breakpoint message,
                         pm_Diagnostics = None\<rparr>,
                       gr_Found = True,
                       gr_HumanReadablePayload = convertAnyDataToString any_String (msg_Payload message)\<rparr>
              | _ \<Rightarrow> Inr \<lparr>gr_Message = None, gr_Found = False, gr_HumanReadablePayload = []\<rparr>)))"

section \<open>Acks and nacks\<close>

definition removeMessageFromAckNack ::
    "'c Cache \<Rightarrow> 's Storage \<Rightarrow> time \<Rightarrow> ('c, 's, 'l) Deckard \<Rightarrow> AckRequest \<Rightarrow>
     ('c, 's, 'l) Deckard \<times> AckResponse result" where
  "removeMessageFromAckNack C S now d request =
     (let (d', r) = Deckard_Remove C S now d [ak_Id request] (ak_Queue request)
      in case r of
           Inl e \<Rightarrow> (d', Inl (Internal ''error on message REMOVAL ACK''))
         | Inr removeResp \<Rightarrow> (d', Inr \<lparr>akr_Success = True, akr_RemovalResponse = Some removeResp\<rparr>))"

definition ack_score :: "time \<Rightarrow> AckRequest \<Rightarrow> float64" where
  "ack_score now request =
     (if \<not> feq (ak_Score request) (Fin 0) then ak_Score request
      else if ak_LockMs request = 0
      then
        let newScore = fsub (GetScoreByDefaultAlgorithm now) (ak_ScoreSubtract request)
        in if newScore < score_Min then score_Min
           else if newScore > score_Max then score_Max else newScore
      else score_Undefined)"

definition Deckard_Ack ::
    "'c Cache \<Rightarrow> 's Storage \<Rightarrow> time \<Rightarrow> time \<Rightarrow> clock \<Rightarrow> ('c, 's, 'l) Deckard \<Rightarrow> AckRequest \<Rightarrow>
     ('c, 's, 'l) Deckard \<times> AckResponse result" where
  "Deckard_Ack C S t now clk d request =
     (let message = zero_Message
            \<lparr>msg_ID := ak_Id request, msg_Queue := ak_Queue request,
             msg_LastScoreSubtract := ak_ScoreSubtract request, msg_LastUsage := Some now,
             msg_Score := ack_score t request, msg_Breakpoint := ak_Breakpoint request,
             msg_LockMs := ak_LockMs request\<rparr>;
          (q, r) = Queue_Ack C S clk (d_queue d) (Some message) (ak_Reason request);
          d' = d\<lparr>d_queue := q\<rparr>
      in case r of
           Inl e \<Rightarrow> (d', Inl (Internal ''error on message ACK''))
         | Inr result \<Rightarrow>
             if ak_RemoveMessage request then removeMessageFromAckNack C S (clk 2) d' request
             else (d', Inr \<lparr>akr_Success = result, akr_RemovalResponse = None\<rparr>))"

definition nack_score :: "AckRequest \<Rightarrow> float64" where
  "nack_score request =
     (if \<not> feq (ak_Score request) (Fin 0) then ak_Score request
      else if ak_LockMs request = 0 then score_Min
      else score_Undefined)"

definition Deckard_Nack ::
    "'c Cache \<Rightarrow> 's Storage \<Rightarrow> time \<Rightarrow> clock \<Rightarrow> ('c, 's, 'l) Deckard \<Rightarrow> AckRequest \<Rightarrow>
     ('c, 's, 'l) Deckard \<times> AckResponse result" where
  "Deckard_Nack C S now clk d request =
     (let message = zero_Message
            \<lparr>msg_ID := ak_Id request, msg_Queue := ak_Queue request,
             msg_LastScoreSubtract := ak_ScoreSubtract request, msg_Breakpoint := ak_Breakpoint request,
             msg_LockMs := ak_LockMs request, msg_Score := nack_score request\<rparr>;
          (q, r) = Queue_Nack C S clk (d_queue d) (Some message) now (ak_Reason request);
          d' = d\<lparr>d_queue := q\<rparr>
      in case r of
           Inl e \<Rightarrow> (d', Inl (Internal ''error on message NACK''))
         | Inr result \<Rightarrow>
             if ak_RemoveMessage request then removeMessageFromAckNack C S (clk 2) d' request
             else (d', Inr \<lparr>akr_Success = result, akr_RemovalResponse = None\<rparr>))"

section \<open>Flushing\<close>

definition Deckard_Flush ::
    "'c Cache \<Rightarrow> 's Storage \<Rightarrow> ('c, 's, 'l) Deckard \<Rightarrow> ('c, 's, 'l) Deckard \<times> bool result" where
  "Deckard_Flush C S d =
     (if \<not> d_memoryInstance d then (d, Inr False)
      else
        let (q, r) = Queue_Flush C S (d_queue d)
        in (d\<lparr>d_queue := q\<rparr>, case r of Inl e \<Rightarrow> Inl (Internal ''error to flush deckard'') | Inr result \<Rightarrow> Inr result))"

end
