(* ===== verification/Deckard_Laws.thy ===== *)
theory Deckard_Laws
  imports Queue_Laws Service
begin

text \<open>
  What every operation of the queue, every task of the housekeeper and every request of the service does
  to a consistent queue, for any cache and storage with the laws of \<open>queue_env\<close>. A step releases at most
  the messages of a set \<open>K\<close> from processing and deletes at most those of a set \<open>D\<close>.
\<close>

definition processing :: "('c \<Rightarrow> pool_ids) \<Rightarrow> ('c, 's) Queue \<Rightarrow> stored_ids" where
  "processing cids p = {(q, i). i \<in> cids (q_cache p) PROCESSING_POOL q}"

definition queue_step ::
    "('c \<Rightarrow> pool_ids) \<Rightarrow> ('c \<Rightarrow> bool) \<Rightarrow> ('s \<Rightarrow> stored_ids) \<Rightarrow> ('s \<Rightarrow> bool) \<Rightarrow> stored_ids \<Rightarrow> stored_ids \<Rightarrow>
     ('c, 's) Queue \<Rightarrow> ('c, 's) Queue \<Rightarrow> bool" where
  "queue_step cids cinv stored sinv K D p p' \<longleftrightarrow>
     (queue_ok cids cinv stored sinv p \<longrightarrow>
      queue_ok cids cinv stored sinv p' \<and> processing cids p - K \<subseteq> processing cids p' \<and>
      stored (q_storage p) - D \<subseteq> stored (q_storage p'))"

lemma queue_step_trans [trans]:
  "queue_step cids cinv stored sinv K D p p' \<Longrightarrow> queue_step cids cinv stored sinv K' D' p' p'' \<Longrightarrow>
   queue_step cids cinv stored sinv (K \<union> K') (D \<union> D') p p''"
  by (auto simp: queue_step_def)

lemma queue_step_mono:
  "queue_step cids cinv stored sinv K D p p' \<Longrightarrow> K \<subseteq> K' \<Longrightarrow> D \<subseteq> D' \<Longrightarrow> queue_step cids cinv stored sinv K' D' p p'"
  by (auto simp: queue_step_def)

lemma queue_step_same:
  "q_cache p' = q_cache p \<Longrightarrow> q_storage p' = q_storage p \<Longrightarrow> queue_step cids cinv stored sinv K D p p'"
  by (auto simp: queue_step_def queue_ok_def processing_def)

lemma queue_step_cong:
  "queue_step cids cinv stored sinv K D p p' \<Longrightarrow> q_cache r = q_cache p \<Longrightarrow> q_storage r = q_storage p \<Longrightarrow>
   q_cache r' = q_cache p' \<Longrightarrow> q_storage r' = q_storage p' \<Longrightarrow> queue_step cids cinv stored sinv K D r r'"
  by (auto simp: queue_step_def queue_ok_def processing_def)

text \<open>What a request on one message may delete: the message, when it asks for it.\<close>

definition ack_key :: "AckRequest \<Rightarrow> string \<times> string" where
  "ack_key req = (ak_Queue req, ak_Id req)"

context queue_env
begin

abbreviation step :: "stored_ids \<Rightarrow> stored_ids \<Rightarrow> ('c, 's) Queue \<Rightarrow> ('c, 's) Queue \<Rightarrow> bool" where
  "step \<equiv> queue_step cids cinv stored sinv"

lemmas step_def = queue_step_def [of cids cinv stored sinv]

lemma step_trans: "step K D p p' \<Longrightarrow> step K D p' p'' \<Longrightarrow> step K D p p''"
  using queue_step_trans [of cids cinv stored sinv K D p p' K D p''] by simp

lemma step_refl [simp]: "step K D p p"
  by (simp add: queue_step_same)

section \<open>Steps of the queue\<close>

lemma step_AddMessagesToStorage:
  assumes "\<forall>m\<in>set ms. valid_id (msg_ID m)"
  shows "step {} {} p (fst (AddMessagesToStorage S now p ms))"
proof -
  obtain st r where i: "s_Insert S now (q_storage p) ms = (st, r)" by (meson surj_pair)
  then have e: "AddMessagesToStorage S now p ms = (p\<lparr>q_storage := st\<rparr>, r)" by (simp add: AddMessagesToStorage_def)
  have "stored (q_storage p) \<subseteq> stored st" if "ok p"
  proof (cases r)
    case (Inl x)
    show ?thesis using storage.insert_error [OF _ assms i [unfolded Inl]] that by (simp add: ok_def)
  next
    case (Inr x)
    show ?thesis using storage.insert_stored [OF _ assms i [unfolded Inr]] that by (simp add: ok_def)
  qed
  then show ?thesis using AddMessagesToStorage_ok(1) [OF _ assms e] by (simp add: e step_def processing_def)
qed

lemma add_to_cache_loop_processing:
  "add_to_cache_loop C now reason members qs cnt p = (p', r) \<Longrightarrow> cinv (q_cache p) \<Longrightarrow>
   cids (q_cache p') PROCESSING_POOL q = cids (q_cache p) PROCESSING_POOL q"
proof (induction qs arbitrary: cnt p)
  case (Cons x qs)
  let ?els = "the (map_of members x)"
  obtain ca ri where i: "c_Insert C (q_cache p) x ?els = (ca, ri)" by (meson surj_pair)
  show ?case
  proof (cases ri)
    case (Inl e)
    then have "q_cache p' = ca" using Cons.prems(1) i by auto
    then show ?thesis using cache.insert_error [OF Cons.prems(2) i [unfolded Inl]] by (auto simp: pool_add_def)
  next
    case (Inr l)
    note law = cache.insert_ids [OF Cons.prems(2) i [unfolded Inr]]
    let ?p = "q_audits now (map (\<lambda>i. (audit_entry i x INSERT_CACHE)\<lparr>en_Reason := reason\<rparr>) l) (p\<lparr>q_cache := ca\<rparr>)"
    have "add_to_cache_loop C now reason members qs (cnt + int (length l)) ?p = (p', r)"
      using Cons.prems(1) i Inr by simp
    from Cons.IH [OF this] law show ?thesis by (simp add: pool_add_def)
  qed
qed simp

lemma step_AddMessagesToCache:
  assumes "any_order ord" "message_key ` set ms \<subseteq> stored (q_storage p)"
  shows "step {} {} p (fst (AddMessagesToCacheWithAuditReason C ord now p reason ms))"
proof -
  obtain p' r where a: "AddMessagesToCacheWithAuditReason C ord now p reason ms = (p', r)" by (meson surj_pair)
  note u = a [unfolded AddMessagesToCacheWithAuditReason_def Let_def]
  show ?thesis
    using AddMessagesToCache_ok(1,2) [OF assms(1) _ assms(2) a] add_to_cache_loop_processing [OF u]
    by (simp add: a step_def processing_def ok_def)
qed

lemma released_processing:
  "released v v' pt m r \<Longrightarrow> pt \<noteq> PROCESSING_POOL \<Longrightarrow>
   {(q, i). i \<in> v PROCESSING_POOL q} - {message_key m} \<subseteq> {(q, i). i \<in> v' PROCESSING_POOL q}"
  by (auto simp: released_def message_key_def pool_move_def pool_remove_def split: sum.splits if_splits)

lemma release_pool_not_processing [simp]: "release_pool t m \<noteq> PROCESSING_POOL"
  by (cases t) (simp_all add: release_pool_def)

lemma step_Ack: "step {message_key m} {} p (fst (Queue_Ack C S clk p (Some m) reason))"
proof -
  obtain p' r where a: "Queue_Ack C S clk p (Some m) reason = (p', r)" by (meson surj_pair)
  show ?thesis
    using Queue_Ack_ok(1,2) [OF _ a] released_processing [OF Queue_Ack_ok(3) [OF _ a]]
    by (simp add: a step_def processing_def)
qed

lemma step_Nack: "step {message_key m} {} p (fst (Queue_Nack C S clk p (Some m) t0 reason))"
proof -
  obtain p' r where a: "Queue_Nack C S clk p (Some m) t0 reason = (p', r)" by (meson surj_pair)
  show ?thesis
    using Queue_Nack_ok(1,2) [OF _ a] released_processing [OF Queue_Nack_ok(3) [OF _ a]]
    by (simp add: a step_def processing_def)
qed

lemma step_TimeoutMessages: "step UNIV {} p (fst (Queue_TimeoutMessages C clk p q))"
proof -
  obtain p' r where a: "Queue_TimeoutMessages C clk p q = (p', r)" by (meson surj_pair)
  show ?thesis using Queue_TimeoutMessages_ok [OF _ a] a by (simp add: step_def)
qed

lemma step_Remove: "step ({q} \<times> set ids) ({q} \<times> set ids) p (fst (Queue_Remove C S now p q reason ids))"
proof -
  obtain p' cn sn err where r: "Queue_Remove C S now p q reason ids = (p', cn, sn, err)" by (rule prod_cases4)
  show ?thesis
    using Queue_Remove_ok [OF _ r] by (auto simp: r step_def processing_def pool_remove_def split: if_splits)
qed

lemma step_Flush:
  assumes flushable
  shows "step UNIV UNIV p (fst (Queue_Flush C S p))"
proof -
  obtain p' r where f: "Queue_Flush C S p = (p', r)" by (meson surj_pair)
  show ?thesis using Queue_Flush_ok(1) [OF assms _ f] by (simp add: f step_def)
qed

lemma no_unnamed_queue: "ok p \<Longrightarrow> cids (q_cache p) pt [] = {}"
  using storage.named [of "q_storage p" "[]"] by (auto simp: ok_def cached_in_def known_ids_def)

lemma Queue_Pull_unnamed:
  assumes "ok p" "Queue_Pull C S sord clk p [] n lo hi ack = (p', r)" "amount n"
  shows "ok p'" "q_storage p' = q_storage p" "cids (q_cache p') = cids (q_cache p)"
    "r = Inr mo \<Longrightarrow> mo = None"
proof -
  obtain ca rc where c: "c_PullMessages C (clk 0) (q_cache p) [] n lo hi ack = (ca, rc)" by (meson surj_pair)
  have "ok p' \<and> q_storage p' = q_storage p \<and> cids (q_cache p') = cids (q_cache p) \<and> (r = Inr mo \<longrightarrow> mo = None)" for mo
  proof (cases rc)
    case (Inl e)
    have "p' = p\<lparr>q_cache := ca\<rparr>" "r = Inl e" using assms(2) c Inl by (simp_all add: Queue_Pull_def)
    moreover have "cids ca = cids (q_cache p)"
      using pull_failed(2) [OF assms(1) c [unfolded Inl] assms(3)] no_unnamed_queue [OF assms(1)] by auto
    ultimately show ?thesis using pull_failed(1) [OF assms(1) c [unfolded Inl] assms(3)] by simp
  next
    case (Inr ids)
    note f = pull_first [OF assms(1) c [unfolded Inr] assms(3)]
    have e: "ids = []" using f(3) no_unnamed_queue [OF assms(1)] by simp
    have "q_cache p' = ca" "q_storage p' = q_storage p" "r = Inr None"
      using assms(2) c Inr e by (auto simp: Queue_Pull_def)
    then show ?thesis using f(1,5) e by (simp add: ok_def)
  qed
  then show "ok p'" "q_storage p' = q_storage p" "cids (q_cache p') = cids (q_cache p)"
    "r = Inr mo \<Longrightarrow> mo = None" by blast+
qed

lemma pulled_processing:
  assumes "pulled v q I ms v'" "pool_disjoint v"
  shows "v PROCESSING_POOL q' \<subseteq> v' PROCESSING_POOL q'"
    "v' PRIMARY_POOL q' = v PRIMARY_POOL q' - (if q' = q then I else {})"
proof -
  have "v PRIMARY_POOL q \<inter> v PROCESSING_POOL q = {}" using assms(2) by (simp add: pool_disjoint_def)
  then show "v PROCESSING_POOL q' \<subseteq> v' PROCESSING_POOL q'"
    "v' PRIMARY_POOL q' = v PRIMARY_POOL q' - (if q' = q then I else {})"
    using assms(1) by (auto simp: pulled_def pool_remove_def pool_move_def split: if_splits)
qed

lemma Queue_Pull_error_processing:
  assumes "ok p" "Queue_Pull C S sord clk p q n lo hi ack = (p', Inl e)" "amount n"
  shows "cids (q_cache p) PROCESSING_POOL q' \<subseteq> cids (q_cache p') PROCESSING_POOL q'"
proof -
  obtain ca rc where c: "c_PullMessages C (clk 0) (q_cache p) q n lo hi ack = (ca, rc)" by (meson surj_pair)
  have "q_cache p' = ca"
    using assms(2) c by (auto simp: Queue_Pull_def pull_again_def Let_def split: sum.splits if_splits prod.splits)
  then show ?thesis
  proof (cases rc)
    case (Inl e)
    then show ?thesis using pull_failed(2) [OF assms(1) c [unfolded Inl] assms(3)] \<open>q_cache p' = ca\<close>
      by (auto simp: pool_move_def)
  next
    case (Inr ids)
    then show ?thesis using pull_first(5) [OF assms(1) c [unfolded Inr] assms(3)] \<open>q_cache p' = ca\<close>
      by (auto simp: pool_move_def)
  qed
qed

lemma step_Pull:
  assumes "any_order sord" "amount n"
  shows "step {} {} p (fst (Queue_Pull C S sord clk p q n lo hi ack))"
proof -
  obtain p' r where r: "Queue_Pull C S sord clk p q n lo hi ack = (p', r)" by (meson surj_pair)
  have "ok p' \<and> q_storage p' = q_storage p \<and>
    (\<forall>q'. cids (q_cache p) PROCESSING_POOL q' \<subseteq> cids (q_cache p') PROCESSING_POOL q')" if o: "ok p"
  proof (cases "q = []")
    case True
    then show ?thesis using Queue_Pull_unnamed(1-3) [OF o r [unfolded True] assms(2)] by simp
  next
    case False
    note f = Queue_Pull_cases [OF o False assms(1) r assms(2)]
    have d: "pool_disjoint (cids (q_cache p))" using cache.disjoint o by (simp add: ok_def)
    have "cids (q_cache p) PROCESSING_POOL q' \<subseteq> cids (q_cache p') PROCESSING_POOL q'" for q'
    proof (cases r)
      case (Inl e)
      then show ?thesis using Queue_Pull_error_processing [OF o _ assms(2)] r by simp
    next
      case (Inr mo)
      then obtain I ms where "pulled (cids (q_cache p)) q I ms (cids (q_cache p'))" using f by auto
      then show ?thesis by (rule pulled_processing(1) [OF _ d])
    qed
    then show ?thesis using f by blast
  qed
  then show ?thesis by (auto simp: r step_def processing_def)
qed

section \<open>Steps of the housekeeper\<close>

lemma step_then: "step K D p p1 \<Longrightarrow> q_cache p2 = q_cache p1 \<Longrightarrow> q_storage p2 = q_storage p1 \<Longrightarrow> step K D p p2"
  by (rule queue_step_cong) simp_all

lemma step_timeout_queues: "step UNIV {} p (timeout_queues C stop cancelled clks n qs p)"
proof (induction qs arbitrary: n p)
  case (Cons q qs)
  show ?case using step_trans [OF step_TimeoutMessages Cons.IH] by simp
qed simp

lemma step_ProcessTimeoutMessages: "step UNIV {} p (fst (ProcessTimeoutMessages C stop cancelled clks p))"
  by (simp add: ProcessTimeoutMessages_def step_timeout_queues split: sum.splits)

lemma step_cache_unlock:
  assumes "c_UnlockMessages C t (q_cache p) q lt = (ca, r)"
  shows "step {} {} p (p\<lparr>q_cache := ca\<rparr>)"
proof -
  have "ok (p\<lparr>q_cache := ca\<rparr>) \<and> processing cids p \<subseteq> processing cids (p\<lparr>q_cache := ca\<rparr>)" if o: "ok p"
  proof -
    have ci: "cinv (q_cache p)" using o by (simp add: ok_def)
    obtain I where I: "\<forall>q'. I q' \<subseteq> cids (q_cache p) (lock_pool lt) q'" "cinv ca"
        and v: "cids ca = pool_moves (cids (q_cache p)) (lock_pool lt) PRIMARY_POOL I"
    proof (cases r)
      case (Inl e)
      then show ?thesis using cache.unlock_error [OF ci assms [unfolded Inl]] that by blast
    next
      case (Inr l)
      then show ?thesis using cache.unlock_ids [OF ci assms [unfolded Inr]] that by blast
    qed
    have ne: "lock_pool lt \<noteq> PRIMARY_POOL" "lock_pool lt \<noteq> PROCESSING_POOL" by (cases lt; simp)+
    have "known_ids (cids ca) q' = known_ids (cids (q_cache p)) q'" for q'
      unfolding v by (rule known_ids_moves) (use I ne in auto)
    moreover have "cids ca PROCESSING_POOL q' = cids (q_cache p) PROCESSING_POOL q'" for q'
      using ne by (simp add: v pool_moves_def)
    ultimately show ?thesis using o I(2) by (simp add: ok_def cached_in_def processing_def)
  qed
  then show ?thesis by (auto simp: step_def)
qed

lemma step_unlockMessages: "step {} {} p (fst (unlockMessages C stop clks lt qs n p))"
proof (induction qs arbitrary: n p)
  case (Cons q qs)
  obtain ca r where u: "c_UnlockMessages C (clks n 0) (q_cache p) q lt = (ca, r)" by (meson surj_pair)
  note s = step_cache_unlock [OF u]
  show ?case
  proof (cases r)
    case (Inl e)
    then show ?thesis using step_trans [OF s Cons.IH] u by simp
  next
    case (Inr ids)
    show ?thesis using step_trans [OF step_then [OF s] Cons.IH] u Inr by (simp add: Let_def)
  qed
qed simp

lemma step_ProcessLockPool: "step {} {} p (ProcessLockPool C stop clks p)"
proof (cases "c_ListQueues C (q_cache p) ''*'' LOCK_ACK_POOL")
  case (Inr qs)
  obtain p1 n where u: "unlockMessages C stop clks LOCK_ACK qs 0 p = (p1, n)" by (meson surj_pair)
  have s: "step {} {} p p1" using step_unlockMessages [of p stop clks LOCK_ACK qs 0] u by simp
  show ?thesis
  proof (cases "c_ListQueues C (q_cache p1) ''*'' LOCK_NACK_POOL")
    case (Inr qs')
    then show ?thesis
      using s step_trans [OF s step_unlockMessages] \<open>c_ListQueues C (q_cache p) _ _ = Inr qs\<close> u
      by (simp add: ProcessLockPool_def)
  qed (use s Inr u in \<open>simp add: ProcessLockPool_def\<close>)
qed (simp add: ProcessLockPool_def)

lemma step_set: "step {} {} p (q_set C k v p)"
proof -
  obtain c' eo where e: "c_Set C (q_cache p) k v = (c', eo)" by (meson surj_pair)
  show ?thesis using cache.set_ids [OF e] by (simp add: q_set_def e step_def ok_def processing_def)
qed

lemma step_set_cache:
  assumes "c_Set C (q_cache p) k v = (c', eo)"
  shows "step {} {} p (p\<lparr>q_cache := c'\<rparr>)"
  using step_set [of p k v] assms by (simp add: q_set_def)

lemma step_tryToStartRecovery: "step {} {} p (fst (tryToStartRecovery C S now p))"
proof -
  obtain c' eo where e: "c_Set C (q_cache p) RECOVERY_RUNNING ''true'' = (c', eo)" by (meson surj_pair)
  note s = step_set_cache [OF e]
  note s2 = step_trans [OF s step_set] and s3 = step_trans [OF step_trans [OF s step_set] step_set]
  show ?thesis
    by (simp add: tryToStartRecovery_def Let_def e s s2 s3 split: sum.splits)
qed

lemma message_key_cap_score [simp]: "message_key (cap_score m) = message_key m"
  by (simp add: cap_score_def message_key_def)

lemma step_recovery_finish: "step {} {} p (recovery_finish C ms p)"
  using step_trans [OF step_set step_set] by (simp add: recovery_finish_def)

lemma recovery_keeps_key: "keeps_key (Some (recovery_find bp rb))"
  by (simp add: recovery_find_def keeps_key_def)

lemma step_recovery_batch:
  assumes "any_order ord"
  shows "step {} {} p (fst (recovery_batch C S ord clk bp p))"
proof (cases "c_Get C (q_cache p) RECOVERY_BREAKPOINT_KEY")
  case (Inr rb)
  show ?thesis
  proof (cases "s_Find S (clk 1) (q_storage p) (Some (recovery_find bp rb))")
    case (Inl e)
    then show ?thesis using Inr by (simp add: recovery_batch_def)
  next
    case f: (Inr found)
    let ?ms = "map cap_score found"
    obtain p1 r where a: "AddMessagesToCacheWithAuditReason C ord (clk 2) p ''recovery'' ?ms = (p1, r)"
      by (meson surj_pair)
    have "step {} {} p p1" if "ok p"
    proof -
      have "message_key ` set ?ms \<subseteq> stored (q_storage p)"
        using storage.find_stored [OF _ recovery_keeps_key f] that by (simp add: ok_def image_image)
      from step_AddMessagesToCache [OF assms this] show ?thesis using a by (metis fst_conv)
    qed
    then have s: "step {} {} p p1" by (simp add: step_def)
    note s2 = step_trans [OF s step_trans [OF step_set step_recovery_finish]]
    show ?thesis
      using Inr f a s s2 step_recovery_finish by (simp add: recovery_batch_def Let_def split: sum.splits)
  qed
qed (simp add: recovery_batch_def)

lemma step_RecoveryMessagesPool:
  assumes "any_order ord"
  shows "step {} {} p (fst (RecoveryMessagesPool C S ord clk p))"
proof -
  obtain p1 r where t: "tryToStartRecovery C S (clk 0) p = (p1, r)" by (meson surj_pair)
  have s: "step {} {} p p1" using step_tryToStartRecovery [of p "clk 0"] t by simp
  note b = step_recovery_batch [OF assms]
  note s2 = step_trans [OF s b]
  show ?thesis
    by (simp add: RecoveryMessagesPool_def t s b s2 split: sum.splits bool.splits)
qed

lemma step_remove_ttl_loop: "step UNIV UNIV p (fst (remove_ttl_loop C S stop clks m n qs p))"
proof (induction qs arbitrary: n p)
  case (Cons q qs)
  let ?ids = "the (map_of m q)"
  obtain p1 cn sn err where r: "Queue_Remove C S (clks n 0) p q ''TTL'' ?ids = (p1, cn, sn, err)" by (rule prod_cases4)
  have "step ({q} \<times> set ?ids) ({q} \<times> set ?ids) p p1"
    using step_Remove [of q ?ids p "clks n 0" "''TTL''"] r by simp
  then have s: "step UNIV UNIV p p1" by (rule queue_step_mono) simp_all
  show ?case using s step_trans [OF step_then [OF s] Cons.IH] r by (cases err) simp_all
qed simp

lemma step_unless_recovering:
  "(\<And>p. step K D p (fst (task p))) \<Longrightarrow> step K D p (fst (unless_recovering C task p))"
  by (simp add: unless_recovering_def split: sum.splits bool.splits)

lemma step_RemoveTTLMessages: "step UNIV UNIV p (fst (RemoveTTLMessages C S ord stop now clks date p))"
  unfolding RemoveTTLMessages_def
  by (rule step_unless_recovering) (simp add: Let_def step_remove_ttl_loop split: sum.splits)

lemma step_removeExceeding: "step UNIV UNIV p (fst (removeExceedingMessagesFromQueue C S clk cfg p))"
proof (cases cfg)
  case (Some c)
  have s: "step UNIV UNIV p (fst (case Queue_Remove C S t p (cfg_Queue c) ''MAX_ELEMENTS'' ids of
      (p1, cn, sn, err) \<Rightarrow> (case err of Some e \<Rightarrow> (p1, Some e)
       | None \<Rightarrow> (q_metric k sn a (q_metric k' cn a' p1), None))))" for t ids k a k' a'
  proof -
    obtain p1 cn sn err where r: "Queue_Remove C S t p (cfg_Queue c) ''MAX_ELEMENTS'' ids = (p1, cn, sn, err)"
      by (rule prod_cases4)
    have "step UNIV UNIV p p1"
      using queue_step_mono [OF step_Remove, of "cfg_Queue c" ids UNIV UNIV p t "''MAX_ELEMENTS''"] r by simp
    then show ?thesis using r step_then by (cases err) simp_all
  qed
  show ?thesis
    by (simp add: removeExceedingMessagesFromQueue_def Some Let_def s split: sum.splits)
qed (simp add: removeExceedingMessagesFromQueue_def)

lemma step_exceeding_loop: "step UNIV UNIV p (exceeding_loop C S stop clks n cfgs p)"
proof (induction cfgs arbitrary: n p)
  case (Cons c cfgs)
  show ?case using step_trans [OF step_removeExceeding Cons.IH] by simp
qed simp

lemma step_RemoveExceedingMessages: "step UNIV UNIV p (fst (RemoveExceedingMessages C S stop clks p))"
  unfolding RemoveExceedingMessages_def
  by (rule step_unless_recovering) (simp add: step_exceeding_loop split: sum.splits)

section \<open>Steps of the service\<close>

lemma set_added_messages:
  "m \<in> set (added_messages clks i ms) \<Longrightarrow> \<exists>a\<in>set ms. msg_ID m = am_Id a \<and> msg_Queue m = am_Queue a"
  by (induction clks i ms rule: added_messages.induct) (auto simp: added_message_def split: prod.splits)

lemma step_Add:
  assumes "any_order ord" "\<forall>a\<in>set req. valid_id (am_Id a)"
  shows "step {} {} (d_queue d) (d_queue (fst (Deckard_Add C S ord clks clk d req)))"
proof -
  let ?ms = "added_messages clks 0 req"
  have v: "\<forall>m\<in>set ?ms. valid_id (msg_ID m)" using assms(2) set_added_messages by fastforce
  obtain p1 r where a: "AddMessagesToStorage S (clk 0) (d_queue d) ?ms = (p1, r)" by (meson surj_pair)
  have s1: "step {} {} (d_queue d) p1" using step_AddMessagesToStorage [OF v, of "d_queue d" "clk 0"] a by simp
  show ?thesis
  proof (cases r)
    case (Inl e)
    then show ?thesis using s1 a by (simp add: Deckard_Add_def)
  next
    case (Inr n)
    obtain p2 r2 where b: "AddMessagesToCache C ord (clk 1) p1 ?ms = (p2, r2)" by (meson surj_pair)
    have "step {} {} p1 p2" if "ok (d_queue d)"
    proof -
      have "message_key ` set ?ms \<subseteq> stored (q_storage p1)"
        using AddMessagesToStorage_ok(3) [OF that v a Inr] by simp
      from step_AddMessagesToCache [OF assms(1) this] show ?thesis using b by (metis AddMessagesToCache_def fst_conv)
    qed
    then have "step {} {} (d_queue d) p2" using step_trans [OF s1] by (auto simp: step_def)
    then show ?thesis using a b Inr by (cases n; cases r2) (simp_all add: Deckard_Add_def)
  qed
qed

lemma pull_amount_ok: "amount (pull_amount a)"
  by (rule cache.amounts) (simp_all add: pull_amount_def Let_def)

lemma step_Service_Pull:
  assumes "any_order sord"
  shows "step {} {} (d_queue d) (d_queue (fst (Deckard_Pull C S sord now clk d req)))"
proof -
  obtain p' r where q: "Queue_Pull C S sord clk (d_queue d) (pr_Queue req) (pull_amount (pr_Amount req))
    (GetPullMinScore (pr_MinScore req)) (GetPullMaxScore (pull_max now req)) (pr_AckDeadlineMs req) = (p', r)"
    by (meson surj_pair)
  then have "step {} {} (d_queue d) p'" using step_Pull [OF assms pull_amount_ok] by (metis fst_conv)
  then show ?thesis using q by (simp add: Deckard_Pull_def Let_def split: sum.splits option.splits)
qed

lemma step_Service_Remove:
  "step ({q} \<times> set ids) ({q} \<times> set ids) (d_queue d) (d_queue (fst (Deckard_Remove C S now d ids q)))"
proof -
  obtain p' cn sn err where r: "Queue_Remove C S now (d_queue d) q ''REQUEST'' ids = (p', cn, sn, err)"
    by (rule prod_cases4)
  then have "step ({q} \<times> set ids) ({q} \<times> set ids) (d_queue d) p'" using step_Remove by (metis fst_conv)
  then show ?thesis using r by (simp add: Deckard_Remove_def Let_def split: option.splits)
qed

lemma step_remove_acked:
  "step {ack_key req} {ack_key req} (d_queue d) (d_queue (fst (removeMessageFromAckNack C S now d req)))"
proof -
  obtain d' r where e: "Deckard_Remove C S now d [ak_Id req] (ak_Queue req) = (d', r)" by (meson surj_pair)
  have "step {ack_key req} {ack_key req} (d_queue d) (d_queue d')"
    using step_Service_Remove [of "ak_Queue req" "[ak_Id req]" d now] e by (simp add: ack_key_def)
  then show ?thesis using e by (simp add: removeMessageFromAckNack_def split: sum.splits)
qed

lemma step_Service_Ack:
  "step {ack_key req} (if ak_RemoveMessage req then {ack_key req} else {})
     (d_queue d) (d_queue (fst (Deckard_Ack C S t now clk d req)))"
proof -
  let ?m = "zero_Message\<lparr>msg_ID := ak_Id req, msg_Queue := ak_Queue req,
             msg_LastScoreSubtract := ak_ScoreSubtract req, msg_LastUsage := Some now,
             msg_Score := ack_score t req, msg_Breakpoint := ak_Breakpoint req, msg_LockMs := ak_LockMs req\<rparr>"
  obtain p' r where a: "Queue_Ack C S clk (d_queue d) (Some ?m) (ak_Reason req) = (p', r)" by (meson surj_pair)
  have s: "step {ack_key req} {} (d_queue d) (d_queue (d\<lparr>d_queue := p'\<rparr>))"
    using step_Ack [of ?m "d_queue d" clk "ak_Reason req"] a by (simp add: message_key_def ack_key_def)
  note s2 = queue_step_trans [OF s step_remove_acked, of req "clk 2"]
    and s3 = queue_step_mono [OF s order_refl empty_subsetI]
  show ?thesis using a s s2 s3 by (simp add: Deckard_Ack_def Let_def split: sum.splits)
qed

lemma step_Service_Nack:
  "step {ack_key req} (if ak_RemoveMessage req then {ack_key req} else {})
     (d_queue d) (d_queue (fst (Deckard_Nack C S now clk d req)))"
proof -
  let ?m = "zero_Message\<lparr>msg_ID := ak_Id req, msg_Queue := ak_Queue req,
             msg_LastScoreSubtract := ak_ScoreSubtract req, msg_Breakpoint := ak_Breakpoint req,
             msg_LockMs := ak_LockMs req, msg_Score := nack_score req\<rparr>"
  obtain p' r where a: "Queue_Nack C S clk (d_queue d) (Some ?m) now (ak_Reason req) = (p', r)" by (meson surj_pair)
  have s: "step {ack_key req} {} (d_queue d) (d_queue (d\<lparr>d_queue := p'\<rparr>))"
    using step_Nack [of ?m "d_queue d" clk now "ak_Reason req"] a by (simp add: message_key_def ack_key_def)
  note s2 = queue_step_trans [OF s step_remove_acked, of req "clk 2"]
    and s3 = queue_step_mono [OF s order_refl empty_subsetI]
  show ?thesis using a s s2 s3 by (simp add: Deckard_Nack_def Let_def split: sum.splits)
qed

lemma step_Service_Flush:
  assumes "d_memoryInstance d \<longrightarrow> flushable"
  shows "step UNIV UNIV (d_queue d) (d_queue (fst (Deckard_Flush C S d)))"
proof (cases "d_memoryInstance d")
  case True
  obtain p' r where f: "Queue_Flush C S (d_queue d) = (p', r)" by (meson surj_pair)
  have "step UNIV UNIV (d_queue d) p'" using step_Flush [of "d_queue d"] assms True f by simp
  then show ?thesis using f by (simp add: Deckard_Flush_def)
qed (simp add: Deckard_Flush_def)

lemma step_edit_storage:
  assumes "s_EditQueueConfiguration S (q_storage p) cfg = (st, e)"
  shows "step {} {} p (p\<lparr>q_storage := st\<rparr>)"
  using storage.edit_stored [OF _ assms] by (simp add: step_def ok_def processing_def)

lemma QueueConfiguration_Edit_storage:
  "QueueConfiguration_Edit S LC now st lc cfg = (st', lc', e) \<Longrightarrow>
   st' = st \<or> (\<exists>c e'. s_EditQueueConfiguration S st c = (st', e'))"
  by (auto simp: QueueConfiguration_Edit_def Let_def split: option.splits if_splits prod.splits)

lemma step_Service_EditQueue: "step {} {} (d_queue d) (d_queue (fst (Deckard_EditQueue S LC now d q cfg)))"
proof (cases cfg)
  case (Some mx)
  obtain st lc e where r: "QueueConfiguration_Edit S LC now (q_storage (d_queue d)) (d_localCache d)
      (Some \<lparr>cfg_Queue = q, cfg_MaxElements = mx\<rparr>) = (st, lc, e)" by (rule prod_cases3)
  have "step {} {} (d_queue d) ((d_queue d)\<lparr>q_storage := st\<rparr>)"
    using QueueConfiguration_Edit_storage [OF r] by (auto intro: step_edit_storage queue_step_same)
  then show ?thesis using Some r by (simp add: Deckard_EditQueue_def Let_def split: option.splits)
qed (simp add: Deckard_EditQueue_def)

lemma step_Service_GetQueue: "step {} {} (d_queue d) (d_queue (fst (Deckard_GetQueue S LC clk d q)))"
  by (simp add: Deckard_GetQueue_def Let_def split: prod.splits sum.splits)

end

end
