(* ===== verification/Memory_Cache.thy ===== *)
theory Memory_Cache
  imports Cache_Interface
begin

text \<open>
  \<^verbatim>\<open>internal/queue/cache/memory_cache.go\<close>: the priority queues kept in memory. Every queue name has a
  list of entries in each of four pools (available, being processed, locked by an ack, locked by a
  nack). A \<^verbatim>\<open>*list.List\<close> is \<open>None\<close> when it is nil, and a Go map index that is absent reads nil. The
  mutex makes every method one atomic step.
\<close>

section \<open>State\<close>

record MemoryMessageEntry =
  e_score :: float64
  e_id :: string
  e_lockUntil :: float64

type_synonym entries = "MemoryMessageEntry list"
type_synonym pools = "(string, entries option) gomap"

record MemoryCache =
  queues :: pools
  processingQueues :: pools
  lockAckQueues :: pools
  lockNackQueues :: pools
  keys :: "(string, string) gomap"

definition NewMemoryCache :: MemoryCache where
  "NewMemoryCache =
     \<lparr>queues = [], processingQueues = [], lockAckQueues = [], lockNackQueues = [], keys = []\<rparr>"

definition lget :: "pools \<Rightarrow> string \<Rightarrow> entries option" where
  "lget m q = (case map_of m q of None \<Rightarrow> None | Some l \<Rightarrow> l)"

section \<open>Operations on one list\<close>

fun removeEntry_loop :: "MemoryMessageEntry \<Rightarrow> entries \<Rightarrow> entries \<times> bool" where
  "removeEntry_loop data [] = ([], False)"
| "removeEntry_loop data (value # rest) =
     (if e_id value \<noteq> e_id data
      then let (rest', b) = removeEntry_loop data rest in (value # rest', b)
      else (rest, True))"

definition removeEntry :: "MemoryMessageEntry \<Rightarrow> entries option \<Rightarrow> entries option \<times> bool" where
  "removeEntry data listToRemove =
     (case listToRemove of
        None \<Rightarrow> (listToRemove, False)
      | Some l \<Rightarrow>
          if length l = 0 then (listToRemove, False)
          else let (l', b) = removeEntry_loop data l in (Some l', b))"

fun insertEntry_loop :: "MemoryMessageEntry \<Rightarrow> entries \<Rightarrow> entries" where
  "insertEntry_loop data [] = [data]"
| "insertEntry_loop data (value # rest) =
     (if e_score data \<le> e_score value then data # value # rest
      else value # insertEntry_loop data rest)"

definition insertEntry :: "MemoryMessageEntry \<Rightarrow> entries option \<Rightarrow> entries option \<times> bool" where
  "insertEntry data listData =
     (let l0 = (case listData of None \<Rightarrow> [] | Some l \<Rightarrow> l);
          (l1, removed) = removeEntry data (Some l0)
      in case l1 of None \<Rightarrow> (None, \<not> removed)
         | Some l \<Rightarrow>
             if length l = 0 then (Some (l @ [data]), \<not> removed)
             else (Some (insertEntry_loop data l), \<not> removed))"

definition createEntry :: "Message \<Rightarrow> MemoryMessageEntry" where
  "createEntry message =
     \<lparr>e_score = msg_Score message, e_id = msg_ID message, e_lockUntil = Fin 0\<rparr>"

fun removeId :: "string \<Rightarrow> entries \<Rightarrow> entries \<times> int64" where
  "removeId i [] = ([], 0)"
| "removeId i (value # rest) =
     (if e_id value = i then (rest, 1)
      else let (rest', n) = removeId i rest in (value # rest', n))"

fun removeFromSlice_loop :: "entries \<Rightarrow> int64 \<Rightarrow> string list \<Rightarrow> int64 \<times> entries" where
  "removeFromSlice_loop data cnt [] = (cnt, data)"
| "removeFromSlice_loop data cnt (i # ids) =
     (let (data', n) = removeId i data in removeFromSlice_loop data' (cnt + n) ids)"

definition removeFromSlice :: "entries option \<Rightarrow> string list \<Rightarrow> int64 \<times> entries option" where
  "removeFromSlice data ids =
     (case data of
        None \<Rightarrow> (0, data)
      | Some l \<Rightarrow>
          if length l = 0 then (0, data)
          else let (n, l') = removeFromSlice_loop l 0 ids in (n, Some l'))"

section \<open>Methods\<close>

definition MemoryCache_Flush :: "MemoryCache \<Rightarrow> MemoryCache" where
  "MemoryCache_Flush cache =
     cache\<lparr>queues := [], processingQueues := [], lockAckQueues := [], lockNackQueues := [],
           keys := []\<rparr>"

definition MemoryCache_Remove ::
    "MemoryCache \<Rightarrow> string \<Rightarrow> string list \<Rightarrow> MemoryCache \<times> int64 \<times> go_error option" where
  "MemoryCache_Remove cache queue ids =
     (let (n1, l1) = removeFromSlice (lget (queues cache) queue) ids;
          c1 = cache\<lparr>queues := AList.update queue l1 (queues cache)\<rparr>;
          (n2, l2) = removeFromSlice (lget (processingQueues c1) queue) ids;
          c2 = c1\<lparr>processingQueues := AList.update queue l2 (processingQueues c1)\<rparr>;
          (n3, l3) = removeFromSlice (lget (lockAckQueues c2) queue) ids;
          c3 = c2\<lparr>lockAckQueues := AList.update queue l3 (lockAckQueues c2)\<rparr>;
          (n4, l4) = removeFromSlice (lget (lockNackQueues c3) queue) ids;
          c4 = c3\<lparr>lockNackQueues := AList.update queue l4 (lockNackQueues c3)\<rparr>
      in (c4, n1 + n2 + n3 + n4, None))"

definition MemoryCache_MakeAvailable :: "MemoryCache \<Rightarrow> Message \<Rightarrow> MemoryCache \<times> bool result" where
  "MemoryCache_MakeAvailable cache message =
     (if msg_Queue message = [] then (cache, Inl (Err ''invalid message queue''))
      else
        let entry = createEntry message;
            (l, result) = removeEntry entry (lget (processingQueues cache) (msg_Queue message));
            c1 = cache\<lparr>processingQueues :=
                         AList.update (msg_Queue message) l (processingQueues cache)\<rparr>;
            c2 = (if result
                  then c1\<lparr>queues :=
                            AList.update (msg_Queue message)
                              (fst (insertEntry entry (lget (queues c1) (msg_Queue message))))
                              (queues c1)\<rparr>
                  else c1)
        in (c2, Inr result))"

definition pool_map :: "MemoryCache \<Rightarrow> PoolType \<Rightarrow> pools" where
  "pool_map cache poolType =
     (case poolType of
        PRIMARY_POOL \<Rightarrow> queues cache
      | PROCESSING_POOL \<Rightarrow> processingQueues cache
      | LOCK_ACK_POOL \<Rightarrow> lockAckQueues cache
      | LOCK_NACK_POOL \<Rightarrow> lockNackQueues cache)"

text \<open>\<open>glob\<close> is the matcher of \<^verbatim>\<open>github.com/gobwas/glob\<close>: the value first, then the pattern.\<close>

definition MemoryCache_ListQueues ::
    "(string list \<Rightarrow> string list) \<Rightarrow> (string \<Rightarrow> string \<Rightarrow> bool) \<Rightarrow> MemoryCache \<Rightarrow> string \<Rightarrow> PoolType \<Rightarrow>
     string list result" where
  "MemoryCache_ListQueues ord glob cache pattern poolType =
     (let queueMap = pool_map cache poolType
      in Inr (filter (\<lambda>queue. case lget queueMap queue of None \<Rightarrow> False
                              | Some l \<Rightarrow> glob queue pattern \<and> length l > 0)
                (ord (map fst queueMap))))"

definition MemoryCache_LockMessage ::
    "time \<Rightarrow> MemoryCache \<Rightarrow> Message \<Rightarrow> LockType \<Rightarrow> MemoryCache \<times> bool result" where
  "MemoryCache_LockMessage now cache message lockType =
     (if msg_Queue message = [] then (cache, Inl (Err ''invalid queue to lock''))
      else if msg_LockMs message \<le> 0 then (cache, Inl (Err ''invalid lock seconds''))
      else if map_of (processingQueues cache) (msg_Queue message) = None then (cache, Inr False)
      else
        let queue = msg_Queue message;
            entry = createEntry message;
            (l, result) = removeEntry entry (lget (processingQueues cache) queue);
            c1 = cache\<lparr>processingQueues := AList.update queue l (processingQueues cache)\<rparr>;
            entry' = entry\<lparr>e_lockUntil := float_of_int (wrap64 (NowMs now + msg_LockMs message))\<rparr>;
            c2 = (if result
                  then (case lockType of
                          LOCK_ACK \<Rightarrow>
                            c1\<lparr>lockAckQueues :=
                                 AList.update queue (fst (insertEntry entry' (lget (lockAckQueues c1) queue)))
                                   (lockAckQueues c1)\<rparr>
                        | LOCK_NACK \<Rightarrow>
                            c1\<lparr>lockNackQueues :=
                                 AList.update queue (fst (insertEntry entry' (lget (lockNackQueues c1) queue)))
                                   (lockNackQueues c1)\<rparr>)
                  else c1)
        in (c2, Inr result))"

text \<open>
  The scan of one lock list. \<^verbatim>\<open>list.Remove(e)\<close> unlinks the element, after which \<^verbatim>\<open>e.Next()\<close> is nil: the
  loop ends at the first entry whose lock is over.
\<close>

fun unlock_scan :: "int64 \<Rightarrow> entries \<Rightarrow> (MemoryMessageEntry \<times> entries) option" where
  "unlock_scan nowMs [] = None"
| "unlock_scan nowMs (value # rest) =
     (if nowMs \<ge> int_of_float (e_lockUntil value) then Some (value, rest)
      else case unlock_scan nowMs rest of None \<Rightarrow> None | Some (v, rest') \<Rightarrow> Some (v, value # rest'))"

definition lock_map :: "MemoryCache \<Rightarrow> LockType \<Rightarrow> pools" where
  "lock_map cache lockType =
     (if lockType = LOCK_ACK then lockAckQueues cache else lockNackQueues cache)"

definition set_lock_map :: "LockType \<Rightarrow> pools \<Rightarrow> MemoryCache \<Rightarrow> MemoryCache" where
  "set_lock_map lockType m cache =
     (if lockType = LOCK_ACK then cache\<lparr>lockAckQueues := m\<rparr> else cache\<lparr>lockNackQueues := m\<rparr>)"

definition unlock_queue ::
    "int64 \<Rightarrow> float64 \<Rightarrow> LockType \<Rightarrow> string \<Rightarrow> MemoryCache \<times> string list \<Rightarrow> MemoryCache \<times> string list" where
  "unlock_queue nowMs defaultScore lockType queue = (\<lambda>(cache, unlocked).
     case lget (lock_map cache lockType) queue of
       None \<Rightarrow> (cache, unlocked)
     | Some l \<Rightarrow>
        (case unlock_scan nowMs l of
           None \<Rightarrow> (cache, unlocked)
         | Some (value, l') \<Rightarrow>
             let c1 = set_lock_map lockType
                        (AList.update queue (Some l') (lock_map cache lockType)) cache;
                 value' = (if IsUndefined (e_score value) then value\<lparr>e_score := defaultScore\<rparr> else value);
                 c2 = c1\<lparr>queues := AList.update queue (fst (insertEntry value' (lget (queues c1) queue)))
                                     (queues c1)\<rparr>
             in (c2, unlocked @ [e_id value'])))"

text \<open>
  The loop variable of \<^verbatim>\<open>for queue := range data\<close> shadows the parameter \<^verbatim>\<open>queue\<close>, which is not used. The source
  reads the clock for the default score and once more for the locks; here both readings of a call give the same instant.
\<close>

definition MemoryCache_UnlockMessages ::
    "(string list \<Rightarrow> string list) \<Rightarrow> time \<Rightarrow> MemoryCache \<Rightarrow> string \<Rightarrow> LockType \<Rightarrow>
     MemoryCache \<times> string list result" where
  "MemoryCache_UnlockMessages ord now cache queue lockType =
     (let data = lock_map cache lockType;
          defaultScore = (if lockType = LOCK_ACK then GetScoreByDefaultAlgorithm now else score_Min);
          nowMs = NowMs now;
          (cache', unlocked) =
            fold (unlock_queue nowMs defaultScore lockType) (ord (map fst data)) (cache, [])
      in (cache', Inr unlocked))"

record pull_state =
  pl_active :: "entries option"
  pl_processing :: "entries option"
  pl_filtered :: entries
  pl_result :: "string list"

definition pull_step ::
    "int64 \<Rightarrow> float64 option \<Rightarrow> float64 option \<Rightarrow> MemoryMessageEntry \<Rightarrow> pull_state \<Rightarrow> pull_state" where
  "pull_step deadline minScore maxScore entry s =
     (let s1 = s\<lparr>pl_active := fst (removeEntry entry (pl_active s))\<rparr>
      in if (case minScore of None \<Rightarrow> False | Some lo \<Rightarrow> e_score entry < lo) \<or>
            (case maxScore of None \<Rightarrow> False | Some hi \<Rightarrow> e_score entry > hi)
         then s1\<lparr>pl_filtered := pl_filtered s1 @ [entry]\<rparr>
         else s1\<lparr>pl_processing :=
                   fst (insertEntry
                          \<lparr>e_score = float_of_int deadline, e_id = e_id entry, e_lockUntil = Fin 0\<rparr>
                          (pl_processing s1)),
                 pl_result := pl_result s1 @ [e_id entry]\<rparr>)"

text \<open>The loop runs at most \<open>k\<close> times, \<open>k\<close> the smaller of the requested amount and the length.\<close>

fun pull_loop ::
    "int64 \<Rightarrow> float64 option \<Rightarrow> float64 option \<Rightarrow> nat \<Rightarrow> pull_state \<Rightarrow> pull_state" where
  "pull_loop deadline minScore maxScore 0 s = s"
| "pull_loop deadline minScore maxScore (Suc k) s =
     (case pl_active s of
        None \<Rightarrow> s
      | Some [] \<Rightarrow> s
      | Some (entry # rest) \<Rightarrow>
          pull_loop deadline minScore maxScore k (pull_step deadline minScore maxScore entry s))"

text \<open>
  The source reads the clock again for every entry it takes; here all the readings of one call, which holds the
  mutex, give the same instant.
\<close>

definition MemoryCache_PullMessages ::
    "time \<Rightarrow> MemoryCache \<Rightarrow> string \<Rightarrow> int64 \<Rightarrow> float64 option \<Rightarrow> float64 option \<Rightarrow> int64 \<Rightarrow>
     MemoryCache \<times> string list result" where
  "MemoryCache_PullMessages now cache queue n minScore maxScore ackDeadlineMs =
     (case lget (queues cache) queue of
        None \<Rightarrow> (cache, Inr [])
      | Some l \<Rightarrow>
          if length l = 0 then (cache, Inr [])
          else
            let ackDeadlineMs = (if ackDeadlineMs = 0 then DefaultTimeoutMs else ackDeadlineMs);
                total = int (length l)
            in if MinInt64 n total < 0 then (cache, Inl (Panic ''makeslice: cap out of range''))
               else
                 let s = pull_loop (wrap64 (Unix now + ackDeadlineMs)) minScore maxScore
                           (nat (MinInt64 n total))
                           \<lparr>pl_active = Some l, pl_processing = lget (processingQueues cache) queue,
                            pl_filtered = [], pl_result = []\<rparr>;
                     active = fold (\<lambda>entry a. fst (insertEntry entry a)) (pl_filtered s) (pl_active s)
                 in (cache\<lparr>queues := AList.update queue active (queues cache),
                           processingQueues :=
                             (if pl_result s = [] then processingQueues cache
                              else AList.update queue (pl_processing s) (processingQueues cache))\<rparr>,
                     Inr (pl_result s)))"

text \<open>
  The scan of the processing list; the list is \<open>seen @ rest\<close>. \<^verbatim>\<open>removeEntry\<close> unlinks the first entry
  with the id of the current one. When that is the current one, \<^verbatim>\<open>e.Next()\<close> is nil and the loop ends.
\<close>

fun timeout_loop ::
    "float64 \<Rightarrow> entries \<Rightarrow> entries \<Rightarrow> entries option \<Rightarrow> string list \<Rightarrow>
     entries \<times> entries option \<times> string list" where
  "timeout_loop timeoutTime seen [] active result = (seen, active, result)"
| "timeout_loop timeoutTime seen (value # rest) active result =
     (if e_score value \<le> timeoutTime
      then
        let value' = value\<lparr>e_score := score_Min\<rparr>;
            result' = result @ [e_id value'];
            (seen', earlier) = removeEntry_loop value' seen;
            active' = fst (insertEntry value' active)
        in if earlier then timeout_loop timeoutTime (seen' @ [value']) rest active' result'
           else (seen @ rest, active', result')
      else timeout_loop timeoutTime (seen @ [value]) rest active result)"

definition MemoryCache_TimeoutMessages ::
    "time \<Rightarrow> MemoryCache \<Rightarrow> string \<Rightarrow> MemoryCache \<times> string list result" where
  "MemoryCache_TimeoutMessages now cache queue =
     (case lget (processingQueues cache) queue of
        None \<Rightarrow> (cache, Inr [])
      | Some l \<Rightarrow>
          let (l', active, result) =
                timeout_loop (float_of_int (Unix now)) [] l (lget (queues cache) queue) []
          in (if result = [] then cache
              else cache\<lparr>processingQueues := AList.update queue (Some l') (processingQueues cache),
                         queues := AList.update queue active (queues cache)\<rparr>,
              Inr result))"

definition isPresentOnPool :: "pools \<Rightarrow> string \<Rightarrow> string \<Rightarrow> bool" where
  "isPresentOnPool pool queue i =
     (case lget pool queue of
        None \<Rightarrow> False
      | Some data \<Rightarrow> if length data = 0 then False else list_ex (\<lambda>value. e_id value = i) data)"

definition isPresentOnAnyPool :: "MemoryCache \<Rightarrow> string \<Rightarrow> string \<Rightarrow> bool" where
  "isPresentOnAnyPool cache queue i =
     (let isActive = isPresentOnPool (queues cache) queue i;
          isProcessing = isPresentOnPool (processingQueues cache) queue i;
          isLockedAck = isPresentOnPool (lockAckQueues cache) queue i;
          isLockedNack = isPresentOnPool (lockNackQueues cache) queue i
      in isActive \<or> isProcessing \<or> isLockedAck \<or> isLockedNack)"

definition MemoryCache_Insert ::
    "MemoryCache \<Rightarrow> string \<Rightarrow> Message list \<Rightarrow> MemoryCache \<times> string list result" where
  "MemoryCache_Insert cache queue messages =
     (if list_ex (\<lambda>m. msg_Queue m \<noteq> queue) messages
      then (cache, Inl (Err ''invalid queue to insert data''))
      else
        let insertions = filter (\<lambda>m. \<not> isPresentOnAnyPool cache queue (msg_ID m)) messages;
            cache' = fold (\<lambda>m c. c\<lparr>queues := AList.update (msg_Queue m)
                                     (fst (insertEntry (createEntry m) (lget (queues c) (msg_Queue m))))
                                     (queues c)\<rparr>) insertions cache
        in (cache', Inr (map msg_ID insertions)))"

definition MemoryCache_IsProcessing :: "MemoryCache \<Rightarrow> string \<Rightarrow> string \<Rightarrow> bool result" where
  "MemoryCache_IsProcessing cache queue i = Inr (isPresentOnPool (processingQueues cache) queue i)"

definition MemoryCache_Get :: "MemoryCache \<Rightarrow> string \<Rightarrow> string result" where
  "MemoryCache_Get cache key = Inr (case map_of (keys cache) key of None \<Rightarrow> [] | Some v \<Rightarrow> v)"

definition MemoryCache_Set :: "MemoryCache \<Rightarrow> string \<Rightarrow> string \<Rightarrow> MemoryCache \<times> go_error option" where
  "MemoryCache_Set cache key value = (cache\<lparr>keys := AList.update key value (keys cache)\<rparr>, None)"

text \<open>The memory cache as an implementation of the interface.\<close>

definition memory_cache ::
    "(string list \<Rightarrow> string list) \<Rightarrow> (string \<Rightarrow> string \<Rightarrow> bool) \<Rightarrow> MemoryCache Cache" where
  "memory_cache ord glob =
     \<lparr>c_MakeAvailable = MemoryCache_MakeAvailable,
      c_IsProcessing = MemoryCache_IsProcessing,
      c_PullMessages = MemoryCache_PullMessages,
      c_TimeoutMessages = MemoryCache_TimeoutMessages,
      c_LockMessage = MemoryCache_LockMessage,
      c_UnlockMessages = MemoryCache_UnlockMessages ord,
      c_ListQueues = MemoryCache_ListQueues ord glob,
      c_Insert = MemoryCache_Insert,
      c_Remove = MemoryCache_Remove,
      c_Flush = MemoryCache_Flush,
      c_Get = MemoryCache_Get,
      c_Set = MemoryCache_Set\<rparr>"

section \<open>Lemmas on one list\<close>

definition opt_list :: "entries option \<Rightarrow> entries" where
  "opt_list l = (case l of None \<Rightarrow> [] | Some xs \<Rightarrow> xs)"

definition plist :: "pools \<Rightarrow> string \<Rightarrow> entries" where
  "plist m q = opt_list (lget m q)"

abbreviation entry_ids :: "entries \<Rightarrow> string list" where
  "entry_ids l \<equiv> map e_id l"

definition del_id :: "string \<Rightarrow> entries \<Rightarrow> entries" where
  "del_id i l = fst (removeId i l)"

definition put_entry :: "MemoryMessageEntry \<Rightarrow> entries \<Rightarrow> entries" where
  "put_entry d l = insertEntry_loop d (del_id (e_id d) l)"

lemma opt_list_simps [simp]: "opt_list None = []" "opt_list (Some l) = l"
  by (simp_all add: opt_list_def)

lemma lget_update [simp]: "lget (AList.update k v m) q = (if q = k then v else lget m q)"
  by (simp add: lget_def)

lemma plist_update [simp]:
  "plist (AList.update k v m) q = (if q = k then opt_list v else plist m q)"
  by (simp add: plist_def)

lemma lget_Nil [simp]: "lget [] q = None"
  by (simp add: lget_def)

lemma plist_Nil [simp]: "plist [] q = []"
  by (simp add: plist_def)

lemma lget_absent: "map_of m q = None \<Longrightarrow> lget m q = None"
  by (simp add: lget_def)

lemma plist_lget: "lget m q = Some l \<Longrightarrow> plist m q = l" "lget m q = None \<Longrightarrow> plist m q = []"
  by (simp_all add: plist_def)

lemma del_id_simps [simp]:
  "del_id i [] = []"
  "del_id i (v # l) = (if e_id v = i then l else v # del_id i l)"
  by (simp_all add: del_id_def split: prod.splits)

lemma removeId_eq: "removeId i l = (del_id i l, if i \<in> e_id ` set l then 1 else 0)"
  by (induction l) auto

lemma del_id_absent [simp]: "i \<notin> e_id ` set l \<Longrightarrow> del_id i l = l"
  by (induction l) auto

lemma del_id_filter: "distinct (entry_ids l) \<Longrightarrow> del_id i l = filter (\<lambda>e. e_id e \<noteq> i) l"
  by (induction l) (auto simp: filter_id_conv)

lemma set_del_id_subset: "set (del_id i l) \<subseteq> set l"
  by (induction l) auto

lemma ids_del_id: "distinct (entry_ids l) \<Longrightarrow> e_id ` set (del_id i l) = e_id ` set l - {i}"
  by (auto simp: del_id_filter)

lemma distinct_del_id: "distinct (entry_ids l) \<Longrightarrow> distinct (entry_ids (del_id i l))"
  by (simp add: del_id_filter distinct_map_filter)

lemma mset_del_id:
  "image_mset e_id (mset (del_id i l)) = image_mset e_id (mset l) - {#i#}"
  by (induction l) auto

lemma sorted_wrt_del_id: "sorted_wrt P l \<Longrightarrow> sorted_wrt P (del_id i l)"
  by (induction l) (use set_del_id_subset in auto)

lemma removeEntry_loop_eq:
  "removeEntry_loop d l = (del_id (e_id d) l, e_id d \<in> e_id ` set l)"
  by (induction l) auto

lemma removeEntry_eq:
  "opt_list (fst (removeEntry d lo)) = del_id (e_id d) (opt_list lo)"
  "snd (removeEntry d lo) = (e_id d \<in> e_id ` set (opt_list lo))"
  by (auto simp: removeEntry_def removeEntry_loop_eq split: option.splits)

lemma removeEntry_Some: "removeEntry d (Some l) = (Some (del_id (e_id d) l), e_id d \<in> e_id ` set l)"
  by (cases l) (simp_all add: removeEntry_def removeEntry_loop_eq)

lemma insertEntry_eq:
  "insertEntry d lo = (Some (put_entry d (opt_list lo)), e_id d \<notin> e_id ` set (opt_list lo))"
  by (cases lo; cases "del_id (e_id d) (opt_list lo)")
     (auto simp: insertEntry_def removeEntry_Some put_entry_def Let_def)

lemma mset_insertEntry_loop [simp]: "mset (insertEntry_loop d l) = add_mset d (mset l)"
  by (induction l) auto

lemma set_insertEntry_loop [simp]: "set (insertEntry_loop d l) = insert d (set l)"
  by (induction l) auto

lemma mset_put_entry:
  "image_mset e_id (mset (put_entry d l)) =
     add_mset (e_id d) (image_mset e_id (mset l) - {#e_id d#})"
  by (simp add: put_entry_def mset_del_id)

lemma mset_put_new:
  "e_id d \<notin> e_id ` set l \<Longrightarrow> mset (put_entry d l) = add_mset d (mset l)"
  by (simp add: put_entry_def)

lemma set_put_entry: "set (put_entry d l) = insert d (set (del_id (e_id d) l))"
  by (simp add: put_entry_def)

lemma insert_ids_del_id: "insert i (e_id ` set (del_id i l)) = insert i (e_id ` set l)"
  by (induction l) auto

lemma ids_put_entry: "e_id ` set (put_entry d l) = insert (e_id d) (e_id ` set l)"
  by (simp add: set_put_entry insert_ids_del_id)

text \<open>Lists ordered by score, without NaN.\<close>

definition score_sorted :: "entries \<Rightarrow> bool" where
  "score_sorted l \<longleftrightarrow>
     sorted_wrt (\<lambda>a b. e_score a \<le> e_score b) l \<and> (\<forall>e\<in>set l. e_score e \<noteq> NaN)"

lemma score_sorted_Nil [simp]: "score_sorted []"
  by (simp add: score_sorted_def)

lemma score_sorted_del_id: "score_sorted l \<Longrightarrow> score_sorted (del_id i l)"
  unfolding score_sorted_def using sorted_wrt_del_id set_del_id_subset by blast

lemma score_sorted_insert:
  assumes "score_sorted l" "e_score d \<noteq> NaN"
  shows "score_sorted (insertEntry_loop d l)"
  using assms
proof (induction l)
  case Nil
  then show ?case by (simp add: score_sorted_def)
next
  case (Cons v l)
  then have v: "e_score v \<noteq> NaN" "\<forall>e\<in>set l. e_score v \<le> e_score e" and l: "score_sorted l"
    by (auto simp: score_sorted_def)
  show ?case
  proof (cases "e_score d \<le> e_score v")
    case True
    then show ?thesis using Cons.prems v
      by (auto simp: score_sorted_def intro: float_le_trans)
  next
    case False
    then have "e_score v \<le> e_score d"
      using v Cons.prems(2) float_le_linear by blast
    then show ?thesis using False v Cons.IH [OF l Cons.prems(2)]
      by (simp add: score_sorted_def)
  qed
qed

lemma score_sorted_put: "score_sorted l \<Longrightarrow> e_score d \<noteq> NaN \<Longrightarrow> score_sorted (put_entry d l)"
  by (simp add: put_entry_def score_sorted_insert score_sorted_del_id)

lemma score_sorted_drop: "score_sorted l \<Longrightarrow> score_sorted (drop k l)"
  by (auto simp: score_sorted_def sorted_wrt_drop dest: in_set_dropD)

end
