(* ===== verification/Memory_Cache_View.thy ===== *)
theory Memory_Cache_View
  imports Memory_Cache
begin

text \<open>
  The memory cache seen as a function from pools and queue names to lists of entries, and what every
  method does to it. The invariant is that an id occurs at most once in the four lists of a queue.
\<close>

section \<open>Views\<close>

type_synonym view = "PoolType \<Rightarrow> string \<Rightarrow> entries"

definition cview :: "MemoryCache \<Rightarrow> view" where
  "cview c p q = plist (pool_map c p) q"

definition vput :: "view \<Rightarrow> PoolType \<Rightarrow> string \<Rightarrow> entries \<Rightarrow> view" where
  "vput v p q l = v(p := (v p)(q := l))"

definition queue_entries :: "view \<Rightarrow> string \<Rightarrow> entries" where
  "queue_entries v q =
     v PRIMARY_POOL q @ v PROCESSING_POOL q @ v LOCK_ACK_POOL q @ v LOCK_NACK_POOL q"

definition view_inv :: "view \<Rightarrow> bool" where
  "view_inv v \<longleftrightarrow> (\<forall>q. distinct (entry_ids (queue_entries v q)))"

definition pools_wf :: "MemoryCache \<Rightarrow> bool" where
  "pools_wf c \<longleftrightarrow> gomap_wf (queues c) \<and> gomap_wf (processingQueues c) \<and>
     gomap_wf (lockAckQueues c) \<and> gomap_wf (lockNackQueues c)"

definition mc_inv :: "MemoryCache \<Rightarrow> bool" where
  "mc_inv c \<longleftrightarrow> view_inv (cview c) \<and> pools_wf c"

abbreviation view_ids :: "view \<Rightarrow> PoolType \<Rightarrow> string \<Rightarrow> string set" where
  "view_ids v p q \<equiv> e_id ` set (v p q)"

lemma vput_apply: "vput v p q l p' q' = (if p' = p \<and> q' = q then l else v p' q')"
  by (simp add: vput_def)

lemma vput_at [simp]: "vput v p q l p q = l"
  by (simp add: vput_def)

lemma vput_vput [simp]: "vput (vput v p q l) p q l' = vput v p q l'"
  by (simp add: vput_def)

lemma vput_same [simp]: "vput v p q (v p q) = v"
  by (auto simp: vput_def fun_eq_iff)

definition queue_ids :: "view \<Rightarrow> string \<Rightarrow> string multiset" where
  "queue_ids v q = image_mset e_id (mset (queue_entries v q))"

lemma queue_ids_eq:
  "queue_ids v q =
     image_mset e_id (mset (v PRIMARY_POOL q)) + image_mset e_id (mset (v PROCESSING_POOL q)) +
     image_mset e_id (mset (v LOCK_ACK_POOL q)) + image_mset e_id (mset (v LOCK_NACK_POOL q))"
  by (simp add: queue_ids_def queue_entries_def add.assoc)

lemma view_inv_mset:
  assumes "view_inv v" "\<And>q. queue_ids v' q = queue_ids v q"
  shows "view_inv v'"
  unfolding view_inv_def
proof
  fix q
  have "mset (entry_ids (queue_entries v' q)) = mset (entry_ids (queue_entries v q))"
    using assms(2) [of q] by (simp add: queue_ids_def)
  then have "distinct (entry_ids (queue_entries v' q)) = distinct (entry_ids (queue_entries v q))"
    by (rule mset_eq_imp_distinct_iff)
  then show "distinct (entry_ids (queue_entries v' q))" using assms(1) by (simp add: view_inv_def)
qed

lemma view_inv_distinct: "view_inv v \<Longrightarrow> distinct (entry_ids (v p q))"
  unfolding view_inv_def queue_entries_def by (cases p) (auto dest!: spec [of _ q])

lemma view_inv_disjoint:
  assumes "view_inv v" "p \<noteq> p'"
  shows "view_ids v p q \<inter> view_ids v p' q = {}"
proof -
  have "distinct (entry_ids (queue_entries v q))" using assms(1) by (simp add: view_inv_def)
  then show ?thesis using assms(2)
    unfolding queue_entries_def by (cases p; cases p') auto
qed

lemma view_inv_disjointD:
  "view_inv v \<Longrightarrow> i \<in> view_ids v p q \<Longrightarrow> p \<noteq> p' \<Longrightarrow> i \<notin> view_ids v p' q"
  using view_inv_disjoint by blast

lemma set_queue_entries:
  "e_id ` set (queue_entries v q) = (\<Union>p. view_ids v p q)"
proof (rule set_eqI)
  fix i
  have "(i \<in> (\<Union>p. view_ids v p q)) = (\<exists>p. i \<in> view_ids v p q)" by simp
  also have "\<dots> = (i \<in> e_id ` set (queue_entries v q))"
  proof
    assume "\<exists>p. i \<in> view_ids v p q"
    then obtain p where "i \<in> view_ids v p q" ..
    then show "i \<in> e_id ` set (queue_entries v q)"
      by (cases p) (simp_all add: queue_entries_def image_Un)
  next
    assume "i \<in> e_id ` set (queue_entries v q)"
    then show "\<exists>p. i \<in> view_ids v p q" by (auto simp: queue_entries_def)
  qed
  finally show "(i \<in> e_id ` set (queue_entries v q)) = (i \<in> (\<Union>p. view_ids v p q))" by simp
qed

text \<open>Moving an entry from one pool of a queue to another one.\<close>

definition vmove :: "view \<Rightarrow> PoolType \<Rightarrow> PoolType \<Rightarrow> string \<Rightarrow> MemoryMessageEntry \<Rightarrow> view" where
  "vmove v p p' q e =
     vput (vput v p q (del_id (e_id e) (v p q))) p' q (put_entry e (v p' q))"

lemma queue_ids_vmove:
  assumes "view_inv v" "p \<noteq> p'" "e_id e \<in> view_ids v p q"
  shows "queue_ids (vmove v p p' q e) q' = queue_ids v q'"
proof (cases "q' = q")
  case True
  have "e_id e \<notin> view_ids v p' q" using view_inv_disjointD [OF assms(1) assms(3) assms(2)] .
  then have put: "image_mset e_id (mset (put_entry e (v p' q))) =
      add_mset (e_id e) (image_mset e_id (mset (v p' q)))"
    by (simp add: mset_put_entry diff_single_trivial)
  have "e_id e \<in># image_mset e_id (mset (v p q))" using assms(3) by simp
  then have "image_mset e_id (mset (v p q)) =
      add_mset (e_id e) (image_mset e_id (mset (del_id (e_id e) (v p q))))"
    by (simp add: mset_del_id)
  then show ?thesis
    using True put assms(2)
    unfolding queue_ids_eq vmove_def
    by (cases p; cases p') (simp_all add: vput_apply)
next
  case False
  then show ?thesis by (simp add: vmove_def queue_ids_eq vput_apply)
qed

lemma view_inv_vmove:
  assumes "view_inv v" "p \<noteq> p'" "e_id e \<in> view_ids v p q"
  shows "view_inv (vmove v p p' q e)"
  using assms(1) queue_ids_vmove [OF assms] by (rule view_inv_mset)

lemma vmove_ids:
  assumes "view_inv v" "p \<noteq> p'" "e_id e \<in> view_ids v p q"
  shows "view_ids (vmove v p p' q e) r q' =
    (if q' = q \<and> r = p then view_ids v p q - {e_id e}
     else if q' = q \<and> r = p' then insert (e_id e) (view_ids v p' q)
     else view_ids v r q')"
  using assms(2) ids_del_id [OF view_inv_distinct [OF assms(1), of p q]]
  by (auto simp: vmove_def vput_apply ids_put_entry)

section \<open>Methods that move or remove single entries\<close>

lemma pool_map_update [simp]:
  "pool_map (c\<lparr>queues := m\<rparr>) p = (if p = PRIMARY_POOL then m else pool_map c p)"
  "pool_map (c\<lparr>processingQueues := m\<rparr>) p = (if p = PROCESSING_POOL then m else pool_map c p)"
  "pool_map (c\<lparr>lockAckQueues := m\<rparr>) p = (if p = LOCK_ACK_POOL then m else pool_map c p)"
  "pool_map (c\<lparr>lockNackQueues := m\<rparr>) p = (if p = LOCK_NACK_POOL then m else pool_map c p)"
  "pool_map (c\<lparr>keys := ks\<rparr>) p = pool_map c p"
  by (cases p; simp add: pool_map_def)+

lemma pool_map_simps [simp]:
  "pool_map c PRIMARY_POOL = queues c" "pool_map c PROCESSING_POOL = processingQueues c"
  "pool_map c LOCK_ACK_POOL = lockAckQueues c" "pool_map c LOCK_NACK_POOL = lockNackQueues c"
  by (simp_all add: pool_map_def)

lemma cview_lget:
  "opt_list (lget (queues c) q) = cview c PRIMARY_POOL q"
  "opt_list (lget (processingQueues c) q) = cview c PROCESSING_POOL q"
  "opt_list (lget (lockAckQueues c) q) = cview c LOCK_ACK_POOL q"
  "opt_list (lget (lockNackQueues c) q) = cview c LOCK_NACK_POOL q"
  by (simp_all add: cview_def plist_def)

lemma cview_Some: "lget (pool_map c p) q = Some l \<Longrightarrow> cview c p q = l"
  and cview_None: "lget (pool_map c p) q = None \<Longrightarrow> cview c p q = []"
  by (simp_all add: cview_def plist_lget)

lemma cview_upd:
  "cview (c\<lparr>queues := AList.update q l (queues c)\<rparr>) = vput (cview c) PRIMARY_POOL q (opt_list l)"
  "cview (c\<lparr>processingQueues := AList.update q l (processingQueues c)\<rparr>) =
     vput (cview c) PROCESSING_POOL q (opt_list l)"
  "cview (c\<lparr>lockAckQueues := AList.update q l (lockAckQueues c)\<rparr>) =
     vput (cview c) LOCK_ACK_POOL q (opt_list l)"
  "cview (c\<lparr>lockNackQueues := AList.update q l (lockNackQueues c)\<rparr>) =
     vput (cview c) LOCK_NACK_POOL q (opt_list l)"
  by (auto simp: fun_eq_iff vput_apply cview_def)

lemma pools_wf_upd:
  "pools_wf c \<Longrightarrow> pools_wf (c\<lparr>queues := AList.update q l (queues c)\<rparr>)"
  "pools_wf c \<Longrightarrow> pools_wf (c\<lparr>processingQueues := AList.update q l (processingQueues c)\<rparr>)"
  "pools_wf c \<Longrightarrow> pools_wf (c\<lparr>lockAckQueues := AList.update q l (lockAckQueues c)\<rparr>)"
  "pools_wf c \<Longrightarrow> pools_wf (c\<lparr>lockNackQueues := AList.update q l (lockNackQueues c)\<rparr>)"
  by (simp_all add: pools_wf_def)

lemma view_inv_empty: "view_inv (\<lambda>p q. [])"
  by (simp add: view_inv_def queue_entries_def)

lemma cview_empty: "(\<And>p. pool_map c p = []) \<Longrightarrow> mc_inv c"
proof -
  assume e: "\<And>p. pool_map c p = []"
  then have "cview c = (\<lambda>p q. [])" by (simp add: fun_eq_iff cview_def del: pool_map_simps)
  then show ?thesis
    using e [of PRIMARY_POOL] e [of PROCESSING_POOL] e [of LOCK_ACK_POOL] e [of LOCK_NACK_POOL]
    by (simp add: mc_inv_def view_inv_empty pools_wf_def)
qed

lemma mc_inv_new [simp]: "mc_inv NewMemoryCache"
  by (rule cview_empty) (simp add: NewMemoryCache_def pool_map_def split: PoolType.split)

lemma mc_inv_flush [simp]: "mc_inv (MemoryCache_Flush c)"
  by (rule cview_empty) (simp add: MemoryCache_Flush_def pool_map_def split: PoolType.split)

lemma createEntry_id [simp]: "e_id (createEntry m) = msg_ID m"
  by (simp add: createEntry_def)

lemma MakeAvailable_view:
  assumes "MemoryCache_MakeAvailable c m = (c', r)" "msg_Queue m \<noteq> []"
  defines "q \<equiv> msg_Queue m" and "b \<equiv> msg_ID m \<in> view_ids (cview c) PROCESSING_POOL (msg_Queue m)"
  shows "r = Inr b"
    "cview c' = (if b then vmove (cview c) PROCESSING_POOL PRIMARY_POOL q (createEntry m) else cview c)"
    "pools_wf c \<Longrightarrow> pools_wf c'"
proof -
  let ?e = "createEntry m"
  define l where "l = fst (removeEntry ?e (lget (processingQueues c) q))"
  define c1 where "c1 = c\<lparr>processingQueues := AList.update q l (processingQueues c)\<rparr>"
  define c2 where
    "c2 = c1\<lparr>queues := AList.update q (fst (insertEntry ?e (lget (queues c1) q))) (queues c1)\<rparr>"
  have l: "opt_list l = del_id (msg_ID m) (cview c PROCESSING_POOL q)"
    and b: "removeEntry ?e (lget (processingQueues c) q) = (l, b)"
    using removeEntry_eq [of ?e "lget (processingQueues c) q"]
    by (simp_all add: cview_lget l_def b_def q_def prod_eq_iff)
  have "MemoryCache_MakeAvailable c m = (if b then c2 else c1, Inr b)"
    using assms(2) b by (simp add: MemoryCache_MakeAvailable_def Let_def c1_def c2_def q_def)
  then have d: "(c', r) = (if b then c2 else c1, Inr b)" using assms(1) by simp
  then show "r = Inr b" by simp
  have c1: "cview c1 = vput (cview c) PROCESSING_POOL q (del_id (msg_ID m) (cview c PROCESSING_POOL q))"
    by (simp add: c1_def cview_upd l)
  have "cview c2 = vmove (cview c) PROCESSING_POOL PRIMARY_POOL q ?e"
    by (simp add: c2_def cview_upd insertEntry_eq cview_lget vmove_def c1 vput_apply)
  moreover have "cview c1 = cview c" if "\<not> b"
    using that by (simp add: c1 b_def q_def)
  ultimately show "cview c' = (if b then vmove (cview c) PROCESSING_POOL PRIMARY_POOL q ?e else cview c)"
    using d by simp
  show "pools_wf c'" if "pools_wf c"
    using that d by (auto simp: c2_def c1_def pools_wf_def split: if_splits)
qed

definition locked_entry :: "time \<Rightarrow> Message \<Rightarrow> MemoryMessageEntry" where
  "locked_entry now m =
     (createEntry m)\<lparr>e_lockUntil := float_of_int (wrap64 (NowMs now + msg_LockMs m))\<rparr>"

lemma locked_entry_id [simp]: "e_id (locked_entry now m) = msg_ID m"
  by (simp add: locked_entry_def)

lemma LockMessage_view:
  assumes "MemoryCache_LockMessage now c m t = (c', r)" "msg_Queue m \<noteq> []" "0 < msg_LockMs m"
  defines "q \<equiv> msg_Queue m" and "b \<equiv> msg_ID m \<in> view_ids (cview c) PROCESSING_POOL (msg_Queue m)"
  shows "r = Inr b"
    "cview c' = (if b then vmove (cview c) PROCESSING_POOL (lock_pool t) q (locked_entry now m) else cview c)"
    "pools_wf c \<Longrightarrow> pools_wf c'"
proof -
  let ?e = "createEntry m"
  let ?e' = "locked_entry now m"
  define l where "l = fst (removeEntry ?e (lget (processingQueues c) q))"
  define c1 where "c1 = c\<lparr>processingQueues := AList.update q l (processingQueues c)\<rparr>"
  define c2 where
    "c2 = (case t of LOCK_ACK \<Rightarrow>
             c1\<lparr>lockAckQueues := AList.update q (fst (insertEntry ?e' (lget (lockAckQueues c1) q))) (lockAckQueues c1)\<rparr>
           | LOCK_NACK \<Rightarrow>
             c1\<lparr>lockNackQueues := AList.update q (fst (insertEntry ?e' (lget (lockNackQueues c1) q))) (lockNackQueues c1)\<rparr>)"
  have l: "opt_list l = del_id (msg_ID m) (cview c PROCESSING_POOL q)"
    and b: "removeEntry ?e (lget (processingQueues c) q) = (l, b)"
    using removeEntry_eq [of ?e "lget (processingQueues c) q"]
    by (simp_all add: cview_lget l_def b_def q_def prod_eq_iff)
  have absent: "\<not> b" if "map_of (processingQueues c) q = None"
    using that by (simp add: b_def q_def cview_def plist_def lget_absent)
  have "MemoryCache_LockMessage now c m t =
      (if map_of (processingQueues c) q = None then (c, Inr b) else (if b then c2 else c1, Inr b))"
    using assms(2,3) b absent
    by (cases t) (auto simp: MemoryCache_LockMessage_def Let_def c1_def c2_def q_def locked_entry_def)
  then have d: "(c', r) =
      (if map_of (processingQueues c) q = None then (c, Inr b) else (if b then c2 else c1, Inr b))"
    using assms(1) by simp
  then show "r = Inr b" by (simp split: if_splits)
  have c1: "cview c1 = vput (cview c) PROCESSING_POOL q (del_id (msg_ID m) (cview c PROCESSING_POOL q))"
    by (simp add: c1_def cview_upd l)
  have "cview c2 = vmove (cview c) PROCESSING_POOL (lock_pool t) q ?e'"
    by (cases t)
       (simp_all add: c2_def cview_upd insertEntry_eq cview_lget vmove_def c1 vput_apply lock_pool_def)
  moreover have "cview c1 = cview c" if "\<not> b"
    using that by (simp add: c1 b_def q_def)
  ultimately show "cview c' =
      (if b then vmove (cview c) PROCESSING_POOL (lock_pool t) q ?e' else cview c)"
    using d absent by (simp split: if_splits)
  show "pools_wf c'" if "pools_wf c"
    using that d by (cases t) (auto simp: c2_def c1_def pools_wf_def split: if_splits)
qed

section \<open>Removal\<close>

lemma removeFromSlice_loop_eq:
  "removeFromSlice_loop l n ids =
     (n + int (length l) - int (length (fold del_id ids l)), fold del_id ids l)"
proof (induction ids arbitrary: l n)
  case Nil
  then show ?case by simp
next
  case (Cons i ids)
  have "int (length (del_id i l)) = int (length l) - (if i \<in> e_id ` set l then 1 else 0)"
    by (induction l) auto
  then show ?case by (simp add: removeId_eq Cons.IH)
qed

lemma fold_del_id_Nil [simp]: "fold del_id ids [] = []"
  by (induction ids) simp_all

lemma removeFromSlice_eq:
  "fst (removeFromSlice lo ids) =
     int (length (opt_list lo)) - int (length (fold del_id ids (opt_list lo)))"
  "opt_list (snd (removeFromSlice lo ids)) = fold del_id ids (opt_list lo)"
  by (auto simp: removeFromSlice_def removeFromSlice_loop_eq split: option.splits)

lemma fold_del_id_filter:
  "distinct (entry_ids l) \<Longrightarrow> fold del_id ids l = filter (\<lambda>e. e_id e \<notin> set ids) l"
proof (induction ids arbitrary: l)
  case Nil
  then show ?case by simp
next
  case (Cons i ids)
  have "fold del_id ids (del_id i l) = filter (\<lambda>e. e_id e \<notin> set ids) (del_id i l)"
    using Cons.prems by (intro Cons.IH) (rule distinct_del_id)
  then show ?case using Cons.prems by (simp add: del_id_filter)
qed

lemma Remove_view:
  assumes "MemoryCache_Remove c q ids = (c', n, err)"
  shows "cview c' = (\<lambda>p q'. if q' = q then fold del_id ids (cview c p q) else cview c p q')"
    "n = int (length (queue_entries (cview c) q)) - int (length (queue_entries (cview c') q))"
    "err = None" "pools_wf c \<Longrightarrow> pools_wf c'" "keys c' = keys c"
proof -
  define l where "l p = snd (removeFromSlice (lget (pool_map c p) q) ids)" for p
  define k where "k p = fst (removeFromSlice (lget (pool_map c p) q) ids)" for p
  have r: "removeFromSlice (lget (pool_map c p) q) ids = (k p, l p)" for p
    by (simp add: k_def l_def)
  note rs = r [of PRIMARY_POOL, simplified] r [of PROCESSING_POOL, simplified]
    r [of LOCK_ACK_POOL, simplified] r [of LOCK_NACK_POOL, simplified]
  define c4 where
    "c4 = c\<lparr>queues := AList.update q (l PRIMARY_POOL) (queues c),
           processingQueues := AList.update q (l PROCESSING_POOL) (processingQueues c),
           lockAckQueues := AList.update q (l LOCK_ACK_POOL) (lockAckQueues c),
           lockNackQueues := AList.update q (l LOCK_NACK_POOL) (lockNackQueues c)\<rparr>"
  have "MemoryCache_Remove c q ids =
    (c4, k PRIMARY_POOL + k PROCESSING_POOL + k LOCK_ACK_POOL + k LOCK_NACK_POOL, None)"
    by (simp add: MemoryCache_Remove_def rs Let_def c4_def)
  with assms have c': "c' = c4" and err: "err = None"
    and n: "n = k PRIMARY_POOL + k PROCESSING_POOL + k LOCK_ACK_POOL + k LOCK_NACK_POOL"
    by simp_all
  have lk: "opt_list (l p) = fold del_id ids (cview c p q)"
    "k p = int (length (cview c p q)) - int (length (fold del_id ids (cview c p q)))" for p
    by (simp_all add: l_def k_def removeFromSlice_eq cview_def plist_def)
  show v: "cview c' = (\<lambda>p q'. if q' = q then fold del_id ids (cview c p q) else cview c p q')"
  proof (intro ext)
    fix p q'
    show "cview c' p q' = (if q' = q then fold del_id ids (cview c p q) else cview c p q')"
      using lk(1) [of p] by (cases p) (simp_all add: c' c4_def cview_def)
  qed
  show "n = int (length (queue_entries (cview c) q)) - int (length (queue_entries (cview c') q))"
    by (simp add: n lk(2) v queue_entries_def)
  show "err = None" "keys c' = keys c" by (simp_all add: err c' c4_def)
  show "pools_wf c \<Longrightarrow> pools_wf c'" by (simp add: c' c4_def pools_wf_def)
qed

section \<open>Insertion\<close>

lemma isPresentOnPool_iff: "isPresentOnPool m q i \<longleftrightarrow> i \<in> e_id ` set (plist m q)"
  by (auto simp: isPresentOnPool_def plist_def opt_list_def list_ex_iff split: option.splits)

lemma isPresentOnAnyPool_iff:
  "isPresentOnAnyPool c q i \<longleftrightarrow> i \<in> e_id ` set (queue_entries (cview c) q)"
  by (auto simp: isPresentOnAnyPool_def isPresentOnPool_iff queue_entries_def cview_def)

definition add_entry :: "Message \<Rightarrow> MemoryCache \<Rightarrow> MemoryCache" where
  "add_entry m c =
     c\<lparr>queues := AList.update (msg_Queue m)
                  (fst (insertEntry (createEntry m) (lget (queues c) (msg_Queue m)))) (queues c)\<rparr>"

lemma Insert_fold:
  assumes "\<forall>m\<in>set messages. msg_Queue m = queue"
  shows "MemoryCache_Insert cache queue messages =
     (let insertions = filter (\<lambda>m. \<not> isPresentOnAnyPool cache queue (msg_ID m)) messages
      in (fold add_entry insertions cache, Inr (map msg_ID insertions)))"
proof -
  have "(\<lambda>m c. c\<lparr>queues := AList.update (msg_Queue m)
          (fst (insertEntry (createEntry m) (lget (queues c) (msg_Queue m)))) (queues c)\<rparr>) = add_entry"
    by (intro ext) (simp add: add_entry_def)
  then show ?thesis
    using assms by (auto simp: MemoryCache_Insert_def list_ex_iff Let_def)
qed

lemma add_entry_view:
  "cview (add_entry m c) =
     vput (cview c) PRIMARY_POOL (msg_Queue m)
       (put_entry (createEntry m) (cview c PRIMARY_POOL (msg_Queue m)))"
  by (simp add: add_entry_def cview_upd insertEntry_eq cview_lget)

lemma fold_add_entry_view:
  assumes "\<forall>m\<in>set ms. msg_Queue m = q"
  shows "cview (fold add_entry ms c) =
    vput (cview c) PRIMARY_POOL q (fold put_entry (map createEntry ms) (cview c PRIMARY_POOL q))"
  using assms
proof (induction ms arbitrary: c)
  case Nil
  then show ?case by simp
next
  case (Cons m ms)
  then show ?case by (simp add: add_entry_view)
qed

lemma ids_fold_put:
  "e_id ` set (fold put_entry es l) = e_id ` set es \<union> e_id ` set l"
  by (induction es arbitrary: l) (auto simp: ids_put_entry)

lemma distinct_put_entry: "distinct (entry_ids l) \<Longrightarrow> distinct (entry_ids (put_entry d l))"
proof -
  assume d: "distinct (entry_ids l)"
  have "distinct (entry_ids (put_entry d l)) = distinct (e_id d # entry_ids (del_id (e_id d) l))"
    by (rule mset_eq_imp_distinct_iff) (simp add: mset_put_entry mset_del_id)
  then show ?thesis using d by (simp add: distinct_del_id ids_del_id)
qed

lemma distinct_fold_put:
  "distinct (entry_ids l) \<Longrightarrow> distinct (entry_ids (fold put_entry es l))"
  by (induction es arbitrary: l) (simp_all add: distinct_put_entry)

lemma fold_put_new:
  assumes "distinct (entry_ids es)" "e_id ` set es \<inter> e_id ` set l = {}"
  shows "mset (fold put_entry es l) = mset es + mset l"
  using assms
proof (induction es arbitrary: l)
  case Nil
  then show ?case by simp
next
  case (Cons e es)
  have "e_id ` set es \<inter> e_id ` set (put_entry e l) = {}" using Cons.prems by (auto simp: ids_put_entry)
  then have "mset (fold put_entry es (put_entry e l)) = mset es + mset (put_entry e l)"
    using Cons.prems(1) by (intro Cons.IH) simp_all
  then show ?case using Cons.prems(2) by (simp add: mset_put_new)
qed

text \<open>Replacing the available list by one that adds fresh ids keeps the invariant.\<close>

lemma view_inv_vput_primary:
  assumes "view_inv v" "distinct (entry_ids l)"
    "\<And>i. i \<in> e_id ` set l \<Longrightarrow> i \<in> view_ids v PRIMARY_POOL q \<or> i \<notin> e_id ` set (queue_entries v q)"
  shows "view_inv (vput v PRIMARY_POOL q l)"
proof -
  have d: "distinct (entry_ids (queue_entries v q'))" for q' using assms(1) by (simp add: view_inv_def)
  show ?thesis
    unfolding view_inv_def
  proof
    fix q'
    show "distinct (entry_ids (queue_entries (vput v PRIMARY_POOL q l) q'))"
    proof (cases "q' = q")
      case True
      have disj: "e_id ` set l \<inter> view_ids v p q = {}" if "p \<noteq> PRIMARY_POOL" for p
      proof (intro equals0I)
        fix i assume "i \<in> e_id ` set l \<inter> view_ids v p q"
        then have "i \<in> e_id ` set l" and ip: "i \<in> view_ids v p q" by simp_all
        moreover from ip have "i \<in> e_id ` set (queue_entries v q)" unfolding set_queue_entries by blast
        ultimately have "i \<in> view_ids v PRIMARY_POOL q" using assms(3) by blast
        then show False using view_inv_disjointD [OF assms(1) ip that] by simp
      qed
      show ?thesis
        using True assms(2) d [of q] disj [of PROCESSING_POOL] disj [of LOCK_ACK_POOL]
          disj [of LOCK_NACK_POOL]
        by (simp add: queue_entries_def vput_apply Int_Un_distrib image_Un)
    next
      case False
      then show ?thesis using d [of q'] by (simp add: queue_entries_def vput_apply)
    qed
  qed
qed

lemma pools_wf_fold_add: "pools_wf c \<Longrightarrow> pools_wf (fold add_entry ms c)"
  by (induction ms arbitrary: c) (simp_all add: add_entry_def pools_wf_upd)

definition new_messages :: "view \<Rightarrow> string \<Rightarrow> Message list \<Rightarrow> Message list" where
  "new_messages v q ms = filter (\<lambda>m. msg_ID m \<notin> e_id ` set (queue_entries v q)) ms"

lemma Insert_view:
  assumes "MemoryCache_Insert c q ms = (c', Inr ins)"
  shows "ins = map msg_ID (new_messages (cview c) q ms)"
    "cview c' = vput (cview c) PRIMARY_POOL q
       (fold put_entry (map createEntry (new_messages (cview c) q ms)) (cview c PRIMARY_POOL q))"
    "mc_inv c \<Longrightarrow> mc_inv c'" "\<forall>m\<in>set ms. msg_Queue m = q"
proof -
  show q: "\<forall>m\<in>set ms. msg_Queue m = q"
    using assms by (auto simp: MemoryCache_Insert_def list_ex_iff split: if_splits)
  have f: "filter (\<lambda>m. \<not> isPresentOnAnyPool c q (msg_ID m)) ms = new_messages (cview c) q ms"
    by (simp add: new_messages_def isPresentOnAnyPool_iff)
  have c': "c' = fold add_entry (new_messages (cview c) q ms) c"
    and i: "ins = map msg_ID (new_messages (cview c) q ms)"
    using assms Insert_fold [OF q] f by (simp_all add: Let_def)
  show "ins = map msg_ID (new_messages (cview c) q ms)" by (rule i)
  have "\<forall>m\<in>set (new_messages (cview c) q ms). msg_Queue m = q"
    using q by (simp add: new_messages_def)
  then show v: "cview c' = vput (cview c) PRIMARY_POOL q
       (fold put_entry (map createEntry (new_messages (cview c) q ms)) (cview c PRIMARY_POOL q))"
    using c' by (simp add: fold_add_entry_view)
  show "mc_inv c'" if "mc_inv c"
    unfolding mc_inv_def
  proof
    have new: "e_id ` set (map createEntry (new_messages (cview c) q ms)) \<inter>
        e_id ` set (queue_entries (cview c) q) = {}"
      by (auto simp: new_messages_def image_image)
    show "view_inv (cview c')"
      unfolding v
    proof (rule view_inv_vput_primary)
      show "view_inv (cview c)" using that by (simp add: mc_inv_def)
      then show "distinct (entry_ids (fold put_entry (map createEntry (new_messages (cview c) q ms))
          (cview c PRIMARY_POOL q)))"
        by (intro distinct_fold_put view_inv_distinct)
    qed (use new in \<open>auto simp only: ids_fold_put Un_iff\<close>)
    show "pools_wf c'" using that by (simp add: c' pools_wf_fold_add mc_inv_def)
  qed
qed

section \<open>Pulling\<close>

definition in_filter :: "float64 option \<Rightarrow> float64 option \<Rightarrow> MemoryMessageEntry \<Rightarrow> bool" where
  "in_filter lo hi e \<longleftrightarrow>
     \<not> ((case lo of None \<Rightarrow> False | Some l \<Rightarrow> e_score e < l) \<or>
        (case hi of None \<Rightarrow> False | Some h \<Rightarrow> e_score e > h))"

definition processing_entry :: "int64 \<Rightarrow> MemoryMessageEntry \<Rightarrow> MemoryMessageEntry" where
  "processing_entry deadline e =
     \<lparr>e_score = float_of_int deadline, e_id = e_id e, e_lockUntil = Fin 0\<rparr>"

lemma processing_entry_id [simp]: "e_id (processing_entry d e) = e_id e"
  by (simp add: processing_entry_def)

lemma pull_step_eq:
  assumes "pl_active s = Some (e # l)"
  shows "pull_step dl lo hi e s =
    (if in_filter lo hi e
     then s\<lparr>pl_active := Some l,
            pl_processing := Some (put_entry (processing_entry dl e) (opt_list (pl_processing s))),
            pl_result := pl_result s @ [e_id e]\<rparr>
     else s\<lparr>pl_active := Some l, pl_filtered := pl_filtered s @ [e]\<rparr>)"
  using assms
  by (auto simp: pull_step_def in_filter_def removeEntry_Some insertEntry_eq processing_entry_def Let_def)

lemma pull_loop_eq:
  assumes "pl_active s = Some l"
  shows "pl_active (pull_loop dl lo hi k s) = Some (drop k l)"
    "pl_filtered (pull_loop dl lo hi k s) =
       pl_filtered s @ filter (\<lambda>e. \<not> in_filter lo hi e) (take k l)"
    "pl_result (pull_loop dl lo hi k s) =
       pl_result s @ entry_ids (filter (in_filter lo hi) (take k l))"
    "opt_list (pl_processing (pull_loop dl lo hi k s)) =
       fold put_entry (map (processing_entry dl) (filter (in_filter lo hi) (take k l)))
         (opt_list (pl_processing s))"
  using assms
proof (induction k arbitrary: s l)
  case 0
  { case 1 then show ?case by simp }
  { case 2 then show ?case by simp }
  { case 3 then show ?case by simp }
  { case 4 then show ?case by simp }
next
  case (Suc k)
  { case 1 with Suc.IH(1) show ?case by (cases l) (simp_all add: pull_step_eq) }
  { case 2 with Suc.IH(2) show ?case by (cases l) (simp_all add: pull_step_eq) }
  { case 3 with Suc.IH(3) show ?case by (cases l) (simp_all add: pull_step_eq) }
  { case 4 with Suc.IH(4) show ?case by (cases l) (simp_all add: pull_step_eq) }
qed

lemma fold_insertEntry:
  "fold (\<lambda>e a. fst (insertEntry e a)) es (Some l) = Some (fold put_entry es l)"
  by (induction es arbitrary: l) (simp_all add: insertEntry_eq)

definition pull_taken :: "float64 option \<Rightarrow> float64 option \<Rightarrow> int64 \<Rightarrow> entries \<Rightarrow> entries" where
  "pull_taken lo hi n l = filter (in_filter lo hi) (take (nat n) l)"

definition pull_rest :: "float64 option \<Rightarrow> float64 option \<Rightarrow> int64 \<Rightarrow> entries \<Rightarrow> entries" where
  "pull_rest lo hi n l =
     fold put_entry (filter (\<lambda>e. \<not> in_filter lo hi e) (take (nat n) l)) (drop (nat n) l)"

definition ack_deadline :: "time \<Rightarrow> int64 \<Rightarrow> int64" where
  "ack_deadline now ms = wrap64 (Unix now + (if ms = 0 then DefaultTimeoutMs else ms))"

lemma PullMessages_view:
  assumes "MemoryCache_PullMessages now c q n lo hi ms = (c', r)" "0 \<le> n"
  defines "l \<equiv> cview c PRIMARY_POOL q"
  shows "r = Inr (entry_ids (pull_taken lo hi n l))"
    "cview c' = vput (vput (cview c) PRIMARY_POOL q (pull_rest lo hi n l)) PROCESSING_POOL q
       (fold put_entry (map (processing_entry (ack_deadline now ms)) (pull_taken lo hi n l))
          (cview c PROCESSING_POOL q))"
    "pools_wf c \<Longrightarrow> pools_wf c'"
proof -
  consider (empty) "l = []" "(c', r) = (c, Inr [])"
    | (some) "lget (queues c) q = Some l" "l \<noteq> []"
  proof (cases "lget (queues c) q")
    case None
    then show ?thesis using assms(1) empty cview_None [of c PRIMARY_POOL q]
      by (simp add: MemoryCache_PullMessages_def l_def)
  next
    case (Some xs)
    then have "xs = l" using cview_Some [of c PRIMARY_POOL q] by (simp add: l_def)
    then show ?thesis using assms(1) Some empty some
      by (cases "l = []") (simp_all add: MemoryCache_PullMessages_def)
  qed
  then have "r = Inr (entry_ids (pull_taken lo hi n l)) \<and>
    cview c' = vput (vput (cview c) PRIMARY_POOL q (pull_rest lo hi n l)) PROCESSING_POOL q
       (fold put_entry (map (processing_entry (ack_deadline now ms)) (pull_taken lo hi n l))
          (cview c PROCESSING_POOL q)) \<and> (pools_wf c \<longrightarrow> pools_wf c')"
  proof cases
    case empty
    then show ?thesis
      by (auto simp: pull_taken_def pull_rest_def fun_eq_iff vput_apply l_def [symmetric])
  next
    case some
    define k where "k = nat (MinInt64 n (int (length l)))"
    have k: "take k l = take (nat n) l" "drop k l = drop (nat n) l"
      using assms(2) by (auto simp: k_def MinInt64_def)
    define s where "s = pull_loop (ack_deadline now ms) lo hi k
      \<lparr>pl_active = Some l, pl_processing = lget (processingQueues c) q, pl_filtered = [], pl_result = []\<rparr>"
    have s: "pl_active s = Some (drop (nat n) l)"
      "pl_filtered s = filter (\<lambda>e. \<not> in_filter lo hi e) (take (nat n) l)"
      "pl_result s = entry_ids (pull_taken lo hi n l)"
      "opt_list (pl_processing s) =
         fold put_entry (map (processing_entry (ack_deadline now ms)) (pull_taken lo hi n l))
           (cview c PROCESSING_POOL q)"
      by (simp_all add: s_def pull_loop_eq k pull_taken_def cview_lget)
    have nn: "\<not> MinInt64 n (int (length l)) < 0" using assms(2) by (simp add: MinInt64_def)
    have f: "fold (\<lambda>entry a. fst (insertEntry entry a)) (pl_filtered s) (pl_active s) =
        Some (pull_rest lo hi n l)"
      by (simp add: s fold_insertEntry pull_rest_def)
    have "MemoryCache_PullMessages now c q n lo hi ms =
      (c\<lparr>queues := AList.update q
           (fold (\<lambda>entry a. fst (insertEntry entry a)) (pl_filtered s) (pl_active s)) (queues c),
         processingQueues := (if pl_result s = [] then processingQueues c
           else AList.update q (pl_processing s) (processingQueues c))\<rparr>, Inr (pl_result s))"
      using some nn
      by (simp add: MemoryCache_PullMessages_def Let_def s_def k_def ack_deadline_def)
    then have "MemoryCache_PullMessages now c q n lo hi ms =
      (c\<lparr>queues := AList.update q (Some (pull_rest lo hi n l)) (queues c),
         processingQueues := (if pl_result s = [] then processingQueues c
           else AList.update q (pl_processing s) (processingQueues c))\<rparr>, Inr (pl_result s))"
      unfolding f .
    then have d: "c' = c\<lparr>queues := AList.update q (Some (pull_rest lo hi n l)) (queues c),
         processingQueues := (if pl_result s = [] then processingQueues c
           else AList.update q (pl_processing s) (processingQueues c))\<rparr>" "r = Inr (pl_result s)"
      using assms(1) by simp_all
    have "cview c' p q' = vput (vput (cview c) PRIMARY_POOL q (pull_rest lo hi n l)) PROCESSING_POOL q
       (fold put_entry (map (processing_entry (ack_deadline now ms)) (pull_taken lo hi n l))
          (cview c PROCESSING_POOL q)) p q'" for p q'
      using s(3,4) unfolding d(1)
      by (cases p) (auto simp: vput_apply cview_def)
    then show ?thesis using d s(3) by (auto simp: fun_eq_iff pools_wf_def)
  qed
  then show "r = Inr (entry_ids (pull_taken lo hi n l))"
    "cview c' = vput (vput (cview c) PRIMARY_POOL q (pull_rest lo hi n l)) PROCESSING_POOL q
       (fold put_entry (map (processing_entry (ack_deadline now ms)) (pull_taken lo hi n l))
          (cview c PROCESSING_POOL q))"
    "pools_wf c \<Longrightarrow> pools_wf c'"
    by blast+
qed

end
