(* ===== verification/Memory_Cache_Moves.thy ===== *)
theory Memory_Cache_Moves
  imports Memory_Cache_View
begin

text \<open>
  What the three methods of the memory cache that move several messages do to the view of the cache:
  \<^verbatim>\<open>PullMessages\<close>, \<^verbatim>\<open>TimeoutMessages\<close> and \<^verbatim>\<open>UnlockMessages\<close>. Each keeps the invariant and the ids of
  every queue.
\<close>

section \<open>Pulling\<close>

lemma pull_taken_ids: "e_id ` set (pull_taken lo hi n l) \<subseteq> e_id ` set l"
  by (auto simp: pull_taken_def dest: in_set_takeD)

lemma distinct_pull_taken: "distinct (entry_ids l) \<Longrightarrow> distinct (entry_ids (pull_taken lo hi n l))"
  by (simp add: pull_taken_def distinct_map_filter take_map [symmetric])

lemma length_pull_taken: "0 \<le> n \<Longrightarrow> int (length (pull_taken lo hi n l)) \<le> n"
  using length_filter_le [of "in_filter lo hi" "take (nat n) l"]
  unfolding pull_taken_def length_take by linarith

lemma mset_pull:
  assumes "distinct (entry_ids l)"
  shows "mset (pull_taken lo hi n l) + mset (pull_rest lo hi n l) = mset l"
proof -
  let ?a = "take (nat n) l" and ?b = "drop (nat n) l"
  let ?bad = "filter (\<lambda>e. \<not> in_filter lo hi e) ?a"
  have d: "distinct (entry_ids (?a @ ?b))" using assms by simp
  then have "distinct (entry_ids ?bad)" "e_id ` set ?bad \<inter> e_id ` set ?b = {}"
    by (auto simp: distinct_map_filter simp del: append_take_drop_id)
  then have "mset (pull_rest lo hi n l) = mset ?bad + mset ?b"
    by (simp add: pull_rest_def fold_put_new)
  moreover have "mset ?a + mset ?b = mset l" by (metis append_take_drop_id mset_append)
  moreover have "mset (filter (in_filter lo hi) ?a) + mset ?bad = mset ?a"
    by (metis mset_filter multiset_partition)
  ultimately show ?thesis by (simp add: pull_taken_def add.assoc [symmetric])
qed

lemma pull_rest_ids:
  assumes "distinct (entry_ids l)"
  shows "e_id ` set (pull_rest lo hi n l) = e_id ` set l - e_id ` set (pull_taken lo hi n l)"
proof -
  have m: "mset (entry_ids (pull_taken lo hi n l @ pull_rest lo hi n l)) = mset (entry_ids l)"
    using mset_pull [OF assms, of lo hi n]
    by (metis image_mset_union mset_append mset_map)
  then have "set (entry_ids (pull_taken lo hi n l @ pull_rest lo hi n l)) = set (entry_ids l)"
    by (rule mset_eq_setD)
  moreover have "distinct (entry_ids (pull_taken lo hi n l @ pull_rest lo hi n l))"
    using mset_eq_imp_distinct_iff [OF m] assms by simp
  ultimately show ?thesis by auto
qed

lemma PullMessages_inv:
  assumes "MemoryCache_PullMessages now c q n lo hi ms = (c', r)" "0 \<le> n" "mc_inv c"
  shows "queue_ids (cview c') q' = queue_ids (cview c) q'" "mc_inv c'"
proof -
  let ?l = "cview c PRIMARY_POOL q" and ?p = "cview c PROCESSING_POOL q"
  let ?t = "map (processing_entry (ack_deadline now ms)) (pull_taken lo hi n ?l)"
  note v = PullMessages_view [OF assms(1,2)]
  have vi: "view_inv (cview c)" using assms(3) by (simp add: mc_inv_def)
  have ids: "entry_ids ?t = entry_ids (pull_taken lo hi n ?l)" by simp
  have "distinct (entry_ids ?t)"
    unfolding ids by (intro distinct_pull_taken view_inv_distinct vi)
  moreover have "e_id ` set ?t \<inter> e_id ` set ?p = {}"
    using pull_taken_ids [of lo hi n ?l] view_inv_disjoint [OF vi, of PRIMARY_POOL PROCESSING_POOL q]
    by (auto simp: image_image)
  ultimately have "mset (fold put_entry ?t ?p) = mset ?t + mset ?p" by (rule fold_put_new)
  then have "image_mset e_id (mset (fold put_entry ?t ?p)) =
      image_mset e_id (mset (pull_taken lo hi n ?l)) + image_mset e_id (mset ?p)"
    by (metis ids image_mset_union mset_map)
  moreover have "image_mset e_id (mset ?l) = image_mset e_id (mset (pull_taken lo hi n ?l)) +
      image_mset e_id (mset (pull_rest lo hi n ?l))"
    using mset_pull [OF view_inv_distinct [OF vi], of lo hi n PRIMARY_POOL q]
    by (metis image_mset_union)
  ultimately have k: "queue_ids (cview c') q'' = queue_ids (cview c) q''" for q''
    unfolding v(2) queue_ids_eq by (cases "q'' = q") (simp_all add: vput_apply)
  then show "queue_ids (cview c') q' = queue_ids (cview c) q'" .
  show "mc_inv c'"
    using view_inv_mset [OF vi k] v(3) assms(3) by (simp add: mc_inv_def)
qed

lemma PullMessages_ids:
  assumes "MemoryCache_PullMessages now c q n lo hi ms = (c', Inr r)" "0 \<le> n" "mc_inv c"
  shows "view_ids (cview c') p q' =
    (if q' = q \<and> p = PRIMARY_POOL then view_ids (cview c) p q - set r
     else if q' = q \<and> p = PROCESSING_POOL then view_ids (cview c) p q \<union> set r
     else view_ids (cview c) p q')"
proof -
  note v = PullMessages_view [OF assms(1,2)]
  have "distinct (entry_ids (cview c PRIMARY_POOL q))"
    using assms(3) by (simp add: mc_inv_def view_inv_distinct)
  note rest = pull_rest_ids [OF this, of lo hi n]
  have r: "set r = e_id ` set (pull_taken lo hi n (cview c PRIMARY_POOL q))" using v(1) by simp
  show ?thesis
    unfolding v(2) r by (auto simp: vput_apply rest ids_fold_put image_image)
qed

section \<open>Timeouts\<close>

text \<open>The first entry of a list that satisfies a predicate is moved, whatever the entries behind it.\<close>

lemma timeout_loop_extract:
  assumes "distinct (entry_ids (seen @ rest))"
  shows "timeout_loop t seen rest active result =
    (case List.extract (\<lambda>e. e_score e \<le> t) rest of
       None \<Rightarrow> (seen @ rest, active, result)
     | Some (a, e, b) \<Rightarrow> (seen @ a @ b,
         Some (put_entry (e\<lparr>e_score := score_Min\<rparr>) (opt_list active)), result @ [e_id e]))"
  using assms
proof (induction rest arbitrary: seen)
  case Nil
  then show ?case by (simp add: extract_Nil_code)
next
  case (Cons e rest)
  have "e_id e \<notin> e_id ` set seen" using Cons.prems by auto
  moreover have "distinct (entry_ids ((seen @ [e]) @ rest))" using Cons.prems by simp
  ultimately show ?case
    using Cons.IH [of "seen @ [e]"]
    by (auto simp: extract_Cons_code removeEntry_loop_eq insertEntry_eq Let_def split: option.splits)
qed

lemma unlock_scan_extract:
  "unlock_scan t l = (case List.extract (\<lambda>e. int_of_float (e_lockUntil e) \<le> t) l of
     None \<Rightarrow> None | Some (a, e, b) \<Rightarrow> Some (e, a @ b))"
  by (induction l) (auto simp: extract_Nil_code extract_Cons_code split: option.splits)

lemma extract_del_id:
  assumes "List.extract P l = Some (a, e, b)" "distinct (entry_ids l)"
  shows "a @ b = del_id (e_id e) l" "e \<in> set l" "P e"
proof -
  have l: "l = a @ e # b" "P e" using assms(1) by (auto simp: extract_Some_iff)
  then show "e \<in> set l" "P e" by auto
  have "e_id e \<notin> e_id ` set a" using assms(2) l by auto
  then show "a @ b = del_id (e_id e) l" unfolding l(1) by (induction a) auto
qed

lemma TimeoutMessages_view:
  assumes "MemoryCache_TimeoutMessages now c q = (c', r)" "mc_inv c"
  shows "case List.extract (\<lambda>e. e_score e \<le> float_of_int (Unix now)) (cview c PROCESSING_POOL q) of
      None \<Rightarrow> c' = c \<and> r = Inr []
    | Some (a, e, b) \<Rightarrow> r = Inr [e_id e] \<and>
        cview c' = vmove (cview c) PROCESSING_POOL PRIMARY_POOL q (e\<lparr>e_score := score_Min\<rparr>)"
    "pools_wf c'"
proof -
  let ?P = "\<lambda>e. e_score e \<le> float_of_int (Unix now)"
  let ?goal = "(case List.extract ?P (cview c PROCESSING_POOL q) of
      None \<Rightarrow> c' = c \<and> r = Inr []
    | Some (a, e, b) \<Rightarrow> r = Inr [e_id e] \<and>
        cview c' = vmove (cview c) PROCESSING_POOL PRIMARY_POOL q (e\<lparr>e_score := score_Min\<rparr>))
    \<and> pools_wf c'"
  have d: "distinct (entry_ids (cview c PROCESSING_POOL q))" and wf: "pools_wf c"
    using assms(2) by (simp_all add: mc_inv_def view_inv_distinct)
  have ?goal
  proof (cases "lget (processingQueues c) q")
    case None
    then show ?thesis
      using assms(1) wf cview_None [of c PROCESSING_POOL q]
      by (simp add: MemoryCache_TimeoutMessages_def extract_Nil_code)
  next
    case (Some l)
    then have l: "cview c PROCESSING_POOL q = l" using cview_Some [of c PROCESSING_POOL q] by simp
    show ?thesis
    proof (cases "List.extract ?P l")
      case None
      then show ?thesis
        using assms(1) wf Some d unfolding l
        by (auto simp: MemoryCache_TimeoutMessages_def timeout_loop_extract)
    next
      case (Some x)
      obtain a e b where x: "x = (a, e, b)" by (cases x)
      note ab = extract_del_id(1) [OF Some [unfolded x] d [unfolded l]]
      have "c' = c\<lparr>processingQueues := AList.update q (Some (a @ b)) (processingQueues c),
          queues := AList.update q (Some (put_entry (e\<lparr>e_score := score_Min\<rparr>)
            (cview c PRIMARY_POOL q))) (queues c)\<rparr>" "r = Inr [e_id e]"
        using assms(1) Some x d \<open>lget (processingQueues c) q = Some l\<close>
        by (simp_all add: MemoryCache_TimeoutMessages_def l timeout_loop_extract cview_lget)
      note c' = this
      have "cview c' = vmove (cview c) PROCESSING_POOL PRIMARY_POOL q (e\<lparr>e_score := score_Min\<rparr>)"
        using ab l unfolding c'(1) by (simp add: fun_eq_iff vmove_def vput_apply cview_def)
      moreover have "pools_wf c'" using wf unfolding c'(1) by (simp add: pools_wf_def)
      ultimately show ?thesis using Some x c'(2) by (simp add: l)
    qed
  qed
  then show "case List.extract ?P (cview c PROCESSING_POOL q) of
      None \<Rightarrow> c' = c \<and> r = Inr []
    | Some (a, e, b) \<Rightarrow> r = Inr [e_id e] \<and>
        cview c' = vmove (cview c) PROCESSING_POOL PRIMARY_POOL q (e\<lparr>e_score := score_Min\<rparr>)"
    "pools_wf c'" by auto
qed

lemma TimeoutMessages_ids:
  assumes "MemoryCache_TimeoutMessages now c q = (c', r)" "mc_inv c"
  obtains ids where "r = Inr ids" "length ids \<le> 1" "set ids \<subseteq> view_ids (cview c) PROCESSING_POOL q"
    "\<And>p q'. view_ids (cview c') p q' =
      (if q' = q \<and> p = PROCESSING_POOL then view_ids (cview c) p q - set ids
       else if q' = q \<and> p = PRIMARY_POOL then view_ids (cview c) p q \<union> set ids
       else view_ids (cview c) p q')"
    "mc_inv c'" "\<And>q'. queue_ids (cview c') q' = queue_ids (cview c) q'"
proof -
  let ?P = "\<lambda>e. e_score e \<le> float_of_int (Unix now)"
  have vi: "view_inv (cview c)" using assms(2) by (simp add: mc_inv_def)
  note v = TimeoutMessages_view [OF assms]
  show thesis
  proof (cases "List.extract ?P (cview c PROCESSING_POOL q)")
    case None
    then have "c' = c" "r = Inr []" using v(1) by simp_all
    then show thesis using assms(2) by (intro that [of "[]"]) simp_all
  next
    case (Some x)
    obtain a e b where x: "x = (a, e, b)" by (cases x)
    then have r: "r = Inr [e_id e]" and v': "cview c' =
        vmove (cview c) PROCESSING_POOL PRIMARY_POOL q (e\<lparr>e_score := score_Min\<rparr>)"
      using v(1) Some by simp_all
    have i: "e_id e \<in> view_ids (cview c) PROCESSING_POOL q"
      using extract_del_id(2) [OF Some [unfolded x] view_inv_distinct [OF vi]] by simp
    have m: "e_id (e\<lparr>e_score := score_Min\<rparr>) \<in> view_ids (cview c) PROCESSING_POOL q"
      using i by simp
    note mv = vi PoolType.distinct(2) m
    show thesis
    proof (rule that [of "[e_id e]"])
      show "mc_inv c'" using view_inv_vmove [OF vi _ m] v' v(2) by (simp add: mc_inv_def)
    qed (use r i vmove_ids [OF vi _ m] queue_ids_vmove [OF vi _ m] v' in \<open>auto\<close>)
  qed
qed

section \<open>Unlocking\<close>

definition unlock_ready :: "time \<Rightarrow> MemoryMessageEntry \<Rightarrow> bool" where
  "unlock_ready now e \<longleftrightarrow> int_of_float (e_lockUntil e) \<le> NowMs now"

text \<open>The ids that one call unlocks in a queue: the first one whose lock is over.\<close>

definition unlocked_ids :: "time \<Rightarrow> entries \<Rightarrow> string list" where
  "unlocked_ids now l =
     (case List.extract (unlock_ready now) l of None \<Rightarrow> [] | Some (a, e, b) \<Rightarrow> [e_id e])"

definition unlocked_entry :: "float64 \<Rightarrow> MemoryMessageEntry \<Rightarrow> MemoryMessageEntry" where
  "unlocked_entry ds e = (if IsUndefined (e_score e) then e\<lparr>e_score := ds\<rparr> else e)"

lemma unlocked_entry_id [simp]: "e_id (unlocked_entry ds e) = e_id e"
  by (simp add: unlocked_entry_def)

lemma lock_map_pool: "lock_map c t = pool_map c (lock_pool t)"
  by (simp add: lock_map_def lock_pool_def split: LockType.split)

lemma unlock_queue_view:
  assumes "unlock_queue (NowMs now) ds t q (c, u) = (c', u')" "mc_inv c"
  shows "case List.extract (unlock_ready now) (cview c (lock_pool t) q) of
      None \<Rightarrow> c' = c \<and> u' = u
    | Some (a, e, b) \<Rightarrow> u' = u @ [e_id e] \<and>
        cview c' = vmove (cview c) (lock_pool t) PRIMARY_POOL q (unlocked_entry ds e)" (is ?v)
    "pools_wf c'"
proof -
  let ?E = "List.extract (unlock_ready now)"
  have d: "distinct (entry_ids (cview c (lock_pool t) q))" and wf: "pools_wf c"
    using assms(2) by (simp_all add: mc_inv_def view_inv_distinct)
  have sc: "unlock_scan (NowMs now) l = (case ?E l of None \<Rightarrow> None | Some (a, e, b) \<Rightarrow> Some (e, a @ b))" for l
    using unlock_scan_extract [of "NowMs now" l] by (simp add: unlock_ready_def [abs_def])
  have "?v \<and> pools_wf c'"
  proof (cases "lget (lock_map c t) q")
    case None
    then show ?thesis
      using assms(1) wf cview_None [of c "lock_pool t" q]
      by (auto simp: unlock_queue_def lock_map_pool extract_Nil_code)
  next
    case (Some l)
    then have l: "cview c (lock_pool t) q = l" by (simp add: cview_Some lock_map_pool)
    show ?thesis
    proof (cases "?E l")
      case None
      then show ?thesis
        using assms(1) wf Some unfolding l by (auto simp: unlock_queue_def sc)
    next
      case (Some x)
      obtain a e b where x: "x = (a, e, b)" by (cases x)
      note ab = extract_del_id(1) [OF Some [unfolded x] d [unfolded l]]
      define c1 where "c1 = set_lock_map t (AList.update q (Some (a @ b)) (lock_map c t)) c"
      have "c' = c1\<lparr>queues := AList.update q
            (Some (put_entry (unlocked_entry ds e) (cview c1 PRIMARY_POOL q))) (queues c1)\<rparr>"
        "u' = u @ [e_id e]"
        using assms(1) Some x \<open>lget (lock_map c t) q = Some l\<close>
        by (simp_all add: unlock_queue_def sc Let_def c1_def unlocked_entry_def insertEntry_eq cview_lget
            split: if_splits)
      note c' = this
      have "cview c' = vmove (cview c) (lock_pool t) PRIMARY_POOL q (unlocked_entry ds e)"
        using ab l unfolding c'(1) c1_def
        by (cases t) (simp_all add: fun_eq_iff vmove_def vput_apply cview_def set_lock_map_def
            lock_map_def lock_pool_def)
      moreover have "pools_wf c'"
        using wf unfolding c'(1) c1_def
        by (cases t) (simp_all add: pools_wf_def set_lock_map_def lock_map_def)
      ultimately show ?thesis using Some x c'(2) by (simp add: l)
    qed
  qed
  then show ?v "pools_wf c'" by auto
qed

lemma unlock_queue_ids:
  assumes "unlock_queue (NowMs now) ds t q (c, u) = (c', u')" "mc_inv c"
  defines "ids \<equiv> unlocked_ids now (cview c (lock_pool t) q)"
  shows "u' = u @ ids" "mc_inv c'" "queue_ids (cview c') q' = queue_ids (cview c) q'"
    "set ids \<subseteq> view_ids (cview c) (lock_pool t) q"
    "view_ids (cview c') p q' =
      (if q' = q \<and> p = lock_pool t then view_ids (cview c) p q - set ids
       else if q' = q \<and> p = PRIMARY_POOL then view_ids (cview c) p q \<union> set ids
       else view_ids (cview c) p q')"
    "q' \<noteq> q \<Longrightarrow> cview c' p q' = cview c p q'"
proof -
  have vi: "view_inv (cview c)" using assms(2) by (simp add: mc_inv_def)
  note v = unlock_queue_view [OF assms(1,2)]
  have "u' = u @ ids \<and> mc_inv c' \<and> queue_ids (cview c') q' = queue_ids (cview c) q' \<and>
    set ids \<subseteq> view_ids (cview c) (lock_pool t) q \<and>
    view_ids (cview c') p q' =
      (if q' = q \<and> p = lock_pool t then view_ids (cview c) p q - set ids
       else if q' = q \<and> p = PRIMARY_POOL then view_ids (cview c) p q \<union> set ids
       else view_ids (cview c) p q') \<and> (q' \<noteq> q \<longrightarrow> cview c' p q' = cview c p q')"
  proof (cases "List.extract (unlock_ready now) (cview c (lock_pool t) q)")
    case None
    then show ?thesis using v assms(2) by (simp add: ids_def unlocked_ids_def)
  next
    case (Some x)
    obtain a e b where x: "x = (a, e, b)" by (cases x)
    then have v': "cview c' = vmove (cview c) (lock_pool t) PRIMARY_POOL q (unlocked_entry ds e)"
      and u': "u' = u @ [e_id e]" and ids: "ids = [e_id e]"
      using v(1) Some by (simp_all add: ids_def unlocked_ids_def)
    have i: "e_id (unlocked_entry ds e) \<in> view_ids (cview c) (lock_pool t) q"
      using extract_del_id(2) [OF Some [unfolded x] view_inv_distinct [OF vi]] by simp
    have "view_inv (cview c')" unfolding v' by (rule view_inv_vmove [OF vi _ i]) simp
    moreover have "q' \<noteq> q \<longrightarrow> cview c' p q' = cview c p q'" by (simp add: v' vmove_def vput_apply)
    ultimately show ?thesis
      using i u' v(2) vmove_ids [OF vi _ i, of PRIMARY_POOL p q'] queue_ids_vmove [OF vi _ i, of PRIMARY_POOL q']
      by (auto simp: mc_inv_def ids v')
  qed
  then show "u' = u @ ids" "mc_inv c'" "queue_ids (cview c') q' = queue_ids (cview c) q'"
    "set ids \<subseteq> view_ids (cview c) (lock_pool t) q"
    "view_ids (cview c') p q' =
      (if q' = q \<and> p = lock_pool t then view_ids (cview c) p q - set ids
       else if q' = q \<and> p = PRIMARY_POOL then view_ids (cview c) p q \<union> set ids
       else view_ids (cview c) p q')"
    "q' \<noteq> q \<Longrightarrow> cview c' p q' = cview c p q'"
    by blast+
qed

lemma unlocked_ids_length: "length (unlocked_ids now l) \<le> 1"
  by (auto simp: unlocked_ids_def split: option.splits)

lemma unlocked_ids_Nil [simp]: "unlocked_ids now [] = []"
  by (simp add: unlocked_ids_def extract_Nil_code)

lemma unlocked_ids_subset: "set (unlocked_ids now l) \<subseteq> e_id ` set l"
proof (cases "List.extract (unlock_ready now) l")
  case (Some x)
  obtain a e b where "x = (a, e, b)" by (cases x)
  then have e: "List.extract (unlock_ready now) l = Some (a, e, b)" using Some by simp
  then have "unlocked_ids now l = [e_id e]" by (simp add: unlocked_ids_def)
  moreover have "e \<in> set l" using e by (auto simp: extract_Some_iff)
  ultimately show ?thesis by simp
qed (simp add: unlocked_ids_def)

lemma unlock_fold:
  assumes "fold (unlock_queue (NowMs now) ds t) qs (c, u) = (c', u')" "distinct qs" "mc_inv c"
  shows "u' = u @ concat (map (\<lambda>q. unlocked_ids now (cview c (lock_pool t) q)) qs) \<and> mc_inv c' \<and>
    (\<forall>q. queue_ids (cview c') q = queue_ids (cview c) q) \<and>
    (\<forall>p q. view_ids (cview c') p q =
      (if q \<in> set qs \<and> p = lock_pool t
       then view_ids (cview c) p q - set (unlocked_ids now (cview c (lock_pool t) q))
       else if q \<in> set qs \<and> p = PRIMARY_POOL
       then view_ids (cview c) p q \<union> set (unlocked_ids now (cview c (lock_pool t) q))
       else view_ids (cview c) p q))"
  using assms
proof (induction qs arbitrary: c u)
  case Nil
  then show ?case by simp
next
  case (Cons q0 qs)
  obtain c1 u1 where 1: "unlock_queue (NowMs now) ds t q0 (c, u) = (c1, u1)" by (meson surj_pair)
  note s = unlock_queue_ids [OF 1 Cons.prems(3)]
  have "fold (unlock_queue (NowMs now) ds t) qs (c1, u1) = (c', u')" using Cons.prems(1) 1 by simp
  note ih = Cons.IH [OF this _ s(2)]
  have same: "unlocked_ids now (cview c1 p q) = unlocked_ids now (cview c p q)" if "q \<in> set qs" for p q
  proof -
    have "q \<noteq> q0" using that Cons.prems(2) by auto
    then show ?thesis by (simp add: s(6))
  qed
  then have "map (\<lambda>q. unlocked_ids now (cview c1 (lock_pool t) q)) qs =
      map (\<lambda>q. unlocked_ids now (cview c (lock_pool t) q)) qs" by simp
  then show ?case
    using ih Cons.prems(2) s(1,3,5) same by (simp only: distinct.simps) auto
qed

lemma UnlockMessages_ids:
  assumes "MemoryCache_UnlockMessages ord now c q0 t = (c', r)" "mc_inv c" "any_order ord"
  defines "ids \<equiv> (\<lambda>q. unlocked_ids now (cview c (lock_pool t) q))"
  shows "r = Inr (concat (map ids (ord (map fst (lock_map c t)))))" "mc_inv c'"
    "queue_ids (cview c') q = queue_ids (cview c) q"
    "view_ids (cview c') p q =
      (if p = lock_pool t then view_ids (cview c) p q - set (ids q)
       else if p = PRIMARY_POOL then view_ids (cview c) p q \<union> set (ids q)
       else view_ids (cview c) p q)"
proof -
  let ?qs = "ord (map fst (lock_map c t))"
  let ?ds = "if t = LOCK_ACK then GetScoreByDefaultAlgorithm now else score_Min"
  obtain u' where f: "fold (unlock_queue (NowMs now) ?ds t) ?qs (c, []) = (c', u')" and r: "r = Inr u'"
    using assms(1) by (auto simp: MemoryCache_UnlockMessages_def Let_def split: prod.splits)
  have "gomap_wf (lock_map c t)" using assms(2) by (simp add: mc_inv_def pools_wf_def lock_map_def)
  then have d: "distinct ?qs"
    using assms(3) by (simp add: any_order_distinct gomap_wf_def)
  note u = unlock_fold [OF f d assms(2)]
  have "ids q = []" if "q \<notin> set ?qs"
  proof -
    have "map_of (pool_map c (lock_pool t)) q = None"
      using that assms(3) by (simp add: any_order_set lock_map_pool map_of_eq_None_iff)
    then have "cview c (lock_pool t) q = []"
      by (intro cview_None lget_absent)
    then show ?thesis by (simp add: ids_def)
  qed
  then show "r = Inr (concat (map ids ?qs))" "mc_inv c'" "queue_ids (cview c') q = queue_ids (cview c) q"
    "view_ids (cview c') p q =
      (if p = lock_pool t then view_ids (cview c) p q - set (ids q)
       else if p = PRIMARY_POOL then view_ids (cview c) p q \<union> set (ids q)
       else view_ids (cview c) p q)"
    using u r by (auto simp: ids_def)
qed

end
