(* ===== verification/Memory_Cache_Contract.thy ===== *)
theory Memory_Cache_Contract
  imports Memory_Cache_Moves Cache_Contract
begin

text \<open>
  The memory cache keeps the contract of the interface, whatever the iteration order of Go maps and
  whatever the pattern matcher of \<^verbatim>\<open>ListQueues\<close>.
\<close>

section \<open>The laws, method by method\<close>

definition mc_ids :: "MemoryCache \<Rightarrow> pool_ids" where
  "mc_ids c p q = view_ids (cview c) p q"

lemma mc_ids_disjoint: "mc_inv c \<Longrightarrow> pool_disjoint (mc_ids c)"
  by (simp add: pool_disjoint_def mc_ids_def mc_inv_def view_inv_disjoint)

lemma mc_known_ids: "known_ids (mc_ids c) q = e_id ` set (queue_entries (cview c) q)"
  by (simp add: known_ids_def mc_ids_def set_queue_entries)

lemma mc_ids_same:
  "cview c' = cview c \<Longrightarrow> mc_inv c \<Longrightarrow> pools_wf c' \<Longrightarrow> mc_ids c' = mc_ids c \<and> mc_inv c'"
  by (auto simp: mc_ids_def mc_inv_def intro!: ext)

lemma mc_ids_vmove:
  assumes "mc_inv c" "p \<noteq> p'" "cview c' = vmove (cview c) p p' q e" "e_id e \<in> mc_ids c p q" "pools_wf c'"
  shows "mc_ids c' = pool_move (mc_ids c) p p' q {e_id e}" "mc_inv c'"
proof -
  have vi: "view_inv (cview c)" using assms(1) by (simp add: mc_inv_def)
  have e: "e_id e \<in> view_ids (cview c) p q" using assms(4) by (simp add: mc_ids_def)
  show "mc_ids c' = pool_move (mc_ids c) p p' q {e_id e}"
    by (auto simp: fun_eq_iff mc_ids_def pool_move_def assms(3) vmove_ids [OF vi assms(2) e])
  show "mc_inv c'" using view_inv_vmove [OF vi assms(2) e] assms(3,5) by (simp add: mc_inv_def)
qed

lemma mc_insert_ids:
  assumes "mc_inv c" "MemoryCache_Insert c q ms = (c', Inr r)"
  shows "set r = msg_ID ` set ms - known_ids (mc_ids c) q \<and>
    mc_ids c' = pool_add (mc_ids c) q (set r) \<and> mc_inv c'"
proof -
  note v = Insert_view [OF assms(2)]
  have r: "set r = msg_ID ` set ms - known_ids (mc_ids c) q"
    by (auto simp: v(1) new_messages_def mc_known_ids)
  have "e_id ` set (map createEntry (new_messages (cview c) q ms)) = set r"
    by (simp add: v(1) image_image)
  then have "mc_ids c' = pool_add (mc_ids c) q (set r)"
    by (auto simp: fun_eq_iff mc_ids_def pool_add_def v(2) vput_apply ids_fold_put)
  then show ?thesis using r v(3) assms(1) by simp
qed

lemma mc_pull_ids:
  assumes "mc_inv c" "MemoryCache_PullMessages now c q n lo hi ack = (c', Inr r)"
  shows "distinct r \<and> set r \<subseteq> mc_ids c PRIMARY_POOL q \<and> int (length r) \<le> max 0 n \<and>
    mc_ids c' = pool_move (mc_ids c) PRIMARY_POOL PROCESSING_POOL q (set r) \<and> mc_inv c'"
proof (cases "0 \<le> n")
  case True
  let ?l = "cview c PRIMARY_POOL q"
  have r: "r = entry_ids (pull_taken lo hi n ?l)" using PullMessages_view(1) [OF assms(2) True] by simp
  have "distinct (entry_ids ?l)" using assms(1) by (simp add: mc_inv_def view_inv_distinct)
  then have "distinct r" by (simp add: r distinct_pull_taken)
  moreover have "mc_ids c' = pool_move (mc_ids c) PRIMARY_POOL PROCESSING_POOL q (set r)"
    by (auto simp: fun_eq_iff mc_ids_def pool_move_def PullMessages_ids [OF assms(2) True assms(1)])
  moreover have "int (length r) \<le> max 0 n" using length_pull_taken [OF True, of lo hi ?l] by (simp add: r)
  ultimately show ?thesis
    using pull_taken_ids [of lo hi n ?l] PullMessages_inv(2) [OF assms(2) True assms(1)]
    by (simp add: mc_ids_def r)
next
  case False
  then have "c' = c \<and> r = []"
    using assms(2) by (auto simp: MemoryCache_PullMessages_def MinInt64_def Let_def split: option.splits if_splits)
  then show ?thesis using assms(1) by (auto simp: pool_move_def fun_eq_iff)
qed

lemma mc_make_available_ids:
  assumes "mc_inv c" "MemoryCache_MakeAvailable c m = (c', Inr b)"
  shows "b = (msg_ID m \<in> mc_ids c PROCESSING_POOL (msg_Queue m)) \<and>
    mc_ids c' = pool_move (mc_ids c) PROCESSING_POOL PRIMARY_POOL (msg_Queue m) (if b then {msg_ID m} else {}) \<and>
    mc_inv c'"
proof -
  have "msg_Queue m \<noteq> []" using assms(2) by (auto simp: MemoryCache_MakeAvailable_def)
  note v = MakeAvailable_view [OF assms(2) this]
  have wf: "pools_wf c'" using v(3) assms(1) by (simp add: mc_inv_def)
  have b: "b = (msg_ID m \<in> mc_ids c PROCESSING_POOL (msg_Queue m))" using v(1) by (simp add: mc_ids_def)
  show ?thesis
  proof (cases b)
    case True
    then show ?thesis
      using v(2) b wf mc_ids_vmove [OF assms(1), of PROCESSING_POOL PRIMARY_POOL c' "msg_Queue m" "createEntry m"]
      by (simp add: mc_ids_def)
  next
    case False
    then have "cview c' = cview c" using v(2) b by (simp add: mc_ids_def)
    then show ?thesis using False b mc_ids_same [OF _ assms(1) wf] by simp
  qed
qed

lemma mc_lock_ids:
  assumes "mc_inv c" "MemoryCache_LockMessage now c m t = (c', Inr b)"
  shows "b = (msg_ID m \<in> mc_ids c PROCESSING_POOL (msg_Queue m)) \<and>
    mc_ids c' = pool_move (mc_ids c) PROCESSING_POOL (lock_pool t) (msg_Queue m) (if b then {msg_ID m} else {}) \<and>
    mc_inv c'"
proof -
  have "msg_Queue m \<noteq> []" "0 < msg_LockMs m"
    using assms(2) by (auto simp: MemoryCache_LockMessage_def split: if_splits)
  note v = LockMessage_view [OF assms(2) this]
  have wf: "pools_wf c'" using v(3) assms(1) by (simp add: mc_inv_def)
  have b: "b = (msg_ID m \<in> mc_ids c PROCESSING_POOL (msg_Queue m))" using v(1) by (simp add: mc_ids_def)
  show ?thesis
  proof (cases b)
    case True
    then show ?thesis
      using v(2) b wf mc_ids_vmove [OF assms(1), of PROCESSING_POOL "lock_pool t" c' "msg_Queue m" "locked_entry now m"]
      by (simp add: mc_ids_def)
  next
    case False
    then have "cview c' = cview c" using v(2) b by (simp add: mc_ids_def)
    then show ?thesis using False b mc_ids_same [OF _ assms(1) wf] by simp
  qed
qed

lemma mc_unlock_ids:
  assumes "mc_inv c" "any_order ord" "MemoryCache_UnlockMessages ord now c q t = (c', Inr r)"
  shows "\<exists>I. (\<forall>q'. I q' \<subseteq> mc_ids c (lock_pool t) q') \<and> set r = (\<Union>q'. I q') \<and>
    mc_ids c' = pool_moves (mc_ids c) (lock_pool t) PRIMARY_POOL I \<and> mc_inv c'"
proof -
  define I where "I q' = set (unlocked_ids now (cview c (lock_pool t) q'))" for q'
  note u = UnlockMessages_ids [OF assms(3,1,2)]
  have sub: "I q' \<subseteq> mc_ids c (lock_pool t) q'" for q'
    using unlocked_ids_subset by (simp add: I_def mc_ids_def)
  have qs: "set (ord (map fst (lock_map c t))) = fst ` set (lock_map c t)"
    using assms(2) by (simp add: any_order_set)
  have "I q' = {}" if "q' \<notin> fst ` set (lock_map c t)" for q'
  proof -
    have "cview c (lock_pool t) q' = []"
      using that by (intro cview_None lget_absent) (simp add: lock_map_pool map_of_eq_None_iff)
    then show ?thesis by (simp add: I_def)
  qed
  then have "set r = (\<Union>q'. I q')" using u(1) by (fastforce simp: qs I_def)
  moreover have "mc_ids c' = pool_moves (mc_ids c) (lock_pool t) PRIMARY_POOL I"
    by (auto simp: fun_eq_iff mc_ids_def pool_moves_def u(4) I_def)
  ultimately show ?thesis using sub u(2) by blast
qed

lemma mc_timeout_ids:
  assumes "mc_inv c" "MemoryCache_TimeoutMessages now c q = (c', Inr r)"
  shows "set r \<subseteq> mc_ids c PROCESSING_POOL q \<and>
    mc_ids c' = pool_move (mc_ids c) PROCESSING_POOL PRIMARY_POOL q (set r) \<and> mc_inv c'"
proof -
  obtain ids where "Inr r = (Inr ids :: string list result)" "set ids \<subseteq> view_ids (cview c) PROCESSING_POOL q"
    "\<And>p q'. view_ids (cview c') p q' =
      (if q' = q \<and> p = PROCESSING_POOL then view_ids (cview c) p q - set ids
       else if q' = q \<and> p = PRIMARY_POOL then view_ids (cview c) p q \<union> set ids
       else view_ids (cview c) p q')" "mc_inv c'"
    using TimeoutMessages_ids [OF assms(2,1)] by metis
  then show ?thesis by (auto simp: mc_ids_def pool_move_def fun_eq_iff)
qed

lemma fold_del_id_ids:
  "distinct (entry_ids l) \<Longrightarrow> e_id ` set (fold del_id ids l) = e_id ` set l - set ids"
  by (auto simp: fold_del_id_filter)

lemma mc_remove_ids:
  assumes "mc_inv c" "MemoryCache_Remove c q del = (c', n, err)"
  shows "mc_ids c' = pool_remove (mc_ids c) q (set del) \<and> mc_inv c' \<and> err = None"
proof -
  note v = Remove_view [OF assms(2)]
  have vi: "view_inv (cview c)" using assms(1) by (simp add: mc_inv_def)
  have "mc_ids c' = pool_remove (mc_ids c) q (set del)"
    by (auto simp: fun_eq_iff mc_ids_def pool_remove_def v(1) fold_del_id_ids [OF view_inv_distinct [OF vi]])
  moreover have "queue_entries (cview c') q' =
      (if q' = q then filter (\<lambda>e. e_id e \<notin> set del) (queue_entries (cview c) q')
       else queue_entries (cview c) q')" for q'
    by (simp add: queue_entries_def v(1) fold_del_id_filter view_inv_distinct [OF vi])
  then have "view_inv (cview c')"
    using vi by (simp add: view_inv_def distinct_map_filter)
  ultimately show ?thesis using v(3,4) assms(1) by (simp add: mc_inv_def)
qed

section \<open>The interpretation\<close>

lemma mc_errors_change_nothing:
  "MemoryCache_Insert c q ms = (c', Inl e) \<Longrightarrow> c' = c"
  "MemoryCache_PullMessages now c q n lo hi ack = (c', Inl e) \<Longrightarrow> c' = c"
  "MemoryCache_MakeAvailable c m = (c', Inl e) \<Longrightarrow> c' = c"
  "MemoryCache_LockMessage now c m t = (c', Inl e) \<Longrightarrow> c' = c"
  "MemoryCache_UnlockMessages ord now c q t \<noteq> (c', Inl e)"
  "MemoryCache_TimeoutMessages now c q \<noteq> (c', Inl e)"
  by (auto simp: MemoryCache_Insert_def MemoryCache_PullMessages_def MemoryCache_MakeAvailable_def
      MemoryCache_LockMessage_def MemoryCache_UnlockMessages_def MemoryCache_TimeoutMessages_def Let_def
      split: if_splits prod.splits option.splits)

lemma mc_set_ids: "MemoryCache_Set c k v = (c', e) \<Longrightarrow> mc_ids c' = mc_ids c \<and> (mc_inv c \<longrightarrow> mc_inv c')"
proof -
  assume "MemoryCache_Set c k v = (c', e)"
  then have c': "c' = c\<lparr>keys := AList.update k v (keys c)\<rparr>" by (simp add: MemoryCache_Set_def)
  then have "cview c' = cview c" by (simp add: cview_def fun_eq_iff)
  moreover have "pools_wf c \<Longrightarrow> pools_wf c'" by (simp add: c' pools_wf_def)
  ultimately show ?thesis by (auto simp: mc_ids_def mc_inv_def intro!: ext)
qed

lemma mc_flush_ids: "mc_ids (MemoryCache_Flush c) = (\<lambda>p q. {}) \<and> mc_inv (MemoryCache_Flush c)"
proof -
  have "mc_ids (MemoryCache_Flush c) = (\<lambda>p q. {})"
    by (simp add: mc_ids_def fun_eq_iff cview_def MemoryCache_Flush_def pool_map_def split: PoolType.split)
  then show ?thesis by simp
qed

locale map_order =
  fixes ord :: "string list \<Rightarrow> string list" and glob :: "string \<Rightarrow> string \<Rightarrow> bool"
  assumes order: "any_order ord"

sublocale map_order \<subseteq> mc: lossless_cache "memory_cache ord glob" mc_ids mc_inv "\<lambda>n. True"
proof (unfold_locales, unfold memory_cache_def Cache.select_convs, goal_cases)
  case 1
  show ?case ..
next
  case 2
  then show ?case by (rule mc_ids_disjoint)
next
  case 3
  then show ?case by (rule mc_insert_ids)
next
  case 4
  then show ?case by (auto dest: mc_errors_change_nothing(1) intro!: exI [of _ "{}"])
next
  case (5 c now q n lo hi ack c' r)
  then show ?case using mc_pull_ids [OF 5(1,3)] by blast
next
  case (6 c n now q lo hi ack c' r)
  then show ?case using mc_pull_ids [OF 6(1,4)] by simp
next
  case 7
  then show ?case by (auto dest: mc_errors_change_nothing(2) intro!: exI [of _ "{}"])
next
  case 8
  then show ?case by (rule mc_make_available_ids)
next
  case 9
  then show ?case by (auto dest: mc_errors_change_nothing(3))
next
  case 10
  then show ?case by (rule mc_lock_ids)
next
  case 11
  then show ?case by (auto dest: mc_errors_change_nothing(4))
next
  case 12
  then show ?case by (rule mc_unlock_ids [OF _ order])
next
  case 13
  then show ?case by (simp add: mc_errors_change_nothing(5))
next
  case 14
  then show ?case by (rule mc_timeout_ids)
next
  case 15
  then show ?case by (simp add: mc_errors_change_nothing(6))
next
  case 16
  show ?case using mc_remove_ids [OF 16] by simp
next
  case 17
  then show ?case by (auto dest: Remove_view(3))
next
  case 18
  then show ?case by (rule mc_set_ids)
next
  case 19
  then show ?case by (auto simp: MemoryCache_Set_def MemoryCache_Get_def)
next
  case 20
  then show ?case by (simp add: mc_flush_ids)
next
  case 21
  then show ?case by (auto dest: mc_errors_change_nothing(3))
qed

interpretation insertion_order: map_order "\<lambda>qs. qs" glob for glob
  by unfold_locales simp

end
