(* ===== verification/Strconv.thy ===== *)
theory Strconv
  imports Deckard_Prelude
begin

text \<open>
  \<^verbatim>\<open>internal/queue/utils/primitive_conversion.go\<close>, and what it and the storages use of \<^verbatim>\<open>strconv\<close>:
  \<^verbatim>\<open>ParseInt(s, 10, 64)\<close> and \<^verbatim>\<open>FormatInt(n, 10)\<close>.
\<close>

section \<open>Decimal numbers\<close>

definition digit_char :: "nat \<Rightarrow> char" where
  "digit_char d = char_of (48 + d)"

definition digit_value :: "char \<Rightarrow> nat option" where
  "digit_value c = (let n = of_char c in if 48 \<le> n \<and> n \<le> 57 then Some (n - 48) else None)"

fun format_nat :: "nat \<Rightarrow> string" where
  "format_nat n =
     (if n < 10 then [digit_char n] else format_nat (n div 10) @ [digit_char (n mod 10)])"

declare format_nat.simps [simp del]

fun parse_digits :: "nat \<Rightarrow> string \<Rightarrow> nat option" where
  "parse_digits acc [] = Some acc"
| "parse_digits acc (c # cs) =
     (case digit_value c of None \<Rightarrow> None | Some d \<Rightarrow> parse_digits (10 * acc + d) cs)"

definition FormatInt :: "int64 \<Rightarrow> string" where
  "FormatInt n = (if n < 0 then CHR ''-'' # format_nat (nat (- n)) else format_nat (nat n))"

definition syntax_error :: "string \<Rightarrow> go_error" where
  "syntax_error s = Err (''strconv.ParseInt: parsing '' @ s @ '': invalid syntax'')"

definition range_error :: "string \<Rightarrow> go_error" where
  "range_error s = Err (''strconv.ParseInt: parsing '' @ s @ '': value out of range'')"

definition ParseInt :: "string \<Rightarrow> int64 result" where
  "ParseInt s =
     (let (neg, ds) = (case s of
            [] \<Rightarrow> (False, [])
          | c # cs \<Rightarrow> if c = CHR ''+'' then (False, cs) else if c = CHR ''-'' then (True, cs) else (False, s))
      in if ds = [] then Inl (syntax_error s)
         else case parse_digits 0 ds of
             None \<Rightarrow> Inl (syntax_error s)
           | Some un \<Rightarrow>
               if \<not> neg \<and> int un \<ge> 2 ^ 63 then Inl (range_error s)
               else if neg \<and> int un > 2 ^ 63 then Inl (range_error s)
               else Inr (if neg then - int un else int un))"

definition StrToInt64 :: "string \<Rightarrow> int64 result" where
  "StrToInt64 data = ParseInt data"

section \<open>Formatting and parsing\<close>

lemma digit_value_char [simp]: "d < 10 \<Longrightarrow> digit_value (digit_char d) = Some d"
  by (simp add: digit_value_def digit_char_def Let_def of_char_of take_bit_eq_mod)

lemma digit_char_neq [simp]:
  assumes "d < 10"
  shows "digit_char d \<noteq> CHR ''-''" "digit_char d \<noteq> CHR ''+''"
proof -
  have "digit_value (digit_char d) \<noteq> digit_value CHR ''-''" "digit_value (digit_char d) \<noteq> digit_value CHR ''+''"
    using assms by (simp_all add: digit_value_def [of "CHR ''-''"] digit_value_def [of "CHR ''+''"])
  then show "digit_char d \<noteq> CHR ''-''" "digit_char d \<noteq> CHR ''+''" by metis+
qed

lemma parse_digits_append:
  "parse_digits acc (xs @ ys) =
     (case parse_digits acc xs of None \<Rightarrow> None | Some n \<Rightarrow> parse_digits n ys)"
  by (induction xs arbitrary: acc) (auto split: option.splits)

lemma parse_format_nat: "parse_digits 0 (format_nat n) = Some n"
proof (induction n rule: format_nat.induct)
  case (1 n)
  then show ?case by (cases "n < 10") (simp_all add: format_nat.simps [of n] parse_digits_append)
qed

lemma format_nat_head: "\<exists>d cs. d < 10 \<and> format_nat n = digit_char d # cs"
proof (induction n rule: format_nat.induct)
  case (1 n)
  then show ?case by (cases "n < 10") (auto simp: format_nat.simps [of n])
qed

lemma ParseInt_FormatInt: "int64_range n \<Longrightarrow> ParseInt (FormatInt n) = Inr n"
proof -
  assume r: "int64_range n"
  obtain d cs where f: "d < 10" "format_nat (nat \<bar>n\<bar>) = digit_char d # cs" using format_nat_head by blast
  note p = parse_format_nat [of "nat \<bar>n\<bar>", unfolded f(2)]
  show ?thesis
  proof (cases "n < 0")
    case True
    then have "FormatInt n = CHR ''-'' # digit_char d # cs" using f(2) by (simp add: FormatInt_def)
    then show ?thesis using r p True by (simp add: ParseInt_def int64_range_def)
  next
    case False
    then have "FormatInt n = digit_char d # cs" using f(2) by (simp add: FormatInt_def)
    then show ?thesis using r p f(1) False by (simp add: ParseInt_def int64_range_def)
  qed
qed

lemma FormatInt_nonempty [simp]: "FormatInt n \<noteq> []"
  using format_nat_head [of "nat n"] by (auto simp: FormatInt_def)

lemma ParseInt_range: "ParseInt s = Inr n \<Longrightarrow> int64_range n"
  by (auto simp: ParseInt_def int64_range_def Let_def split: list.splits if_splits option.splits)

text \<open>The breakpoints that recovery keeps in the cache as text come back unchanged.\<close>

lemma StrToInt64_FormatInt: "int64_range n \<Longrightarrow> StrToInt64 (FormatInt n) = Inr n"
  by (simp add: StrToInt64_def ParseInt_FormatInt)

end
