(* ===== verification/Memory_Storage.thy ===== *)
theory Memory_Storage
  imports Storage_Interface Strconv
begin

text \<open>
  \<^verbatim>\<open>internal/queue/storage/memory_storage.go\<close>. The map \<^verbatim>\<open>docs\<close> holds pointers that only the storage
  writes through after an insertion; the model holds the messages. An operation that reads the clock
  takes one instant, and one that ranges over \<^verbatim>\<open>docs\<close> takes an iteration order of its keys.
\<close>

section \<open>State\<close>

record MemoryStorage =
  docs :: "(string, Message) gomap"
  configurations :: "(string, QueueConfiguration) gomap"
  internalCounter :: int64

definition NewMemoryStorage :: MemoryStorage where
  "NewMemoryStorage = \<lparr>docs = [], configurations = [], internalCounter = 0\<rparr>"

text \<open>The values of a map in the order in which a loop visits its keys.\<close>

definition range_values :: "('k list \<Rightarrow> 'k list) \<Rightarrow> ('k, 'v) gomap \<Rightarrow> 'v list" where
  "range_values ord m = map (\<lambda>k. the (map_of m k)) (ord (map fst m))"

section \<open>Queue configurations\<close>

definition MemoryStorage_ListQueueConfigurations ::
    "(string list \<Rightarrow> string list) \<Rightarrow> MemoryStorage \<Rightarrow> QueueConfiguration list result" where
  "MemoryStorage_ListQueueConfigurations ord storage = Inr (range_values ord (configurations storage))"

definition MemoryStorage_EditQueueConfiguration ::
    "MemoryStorage \<Rightarrow> QueueConfiguration \<Rightarrow> MemoryStorage \<times> go_error option" where
  "MemoryStorage_EditQueueConfiguration storage configuration =
     (if cfg_MaxElements configuration = 0 then (storage, None)
      else
        let configuration' = (if cfg_MaxElements configuration < 0
                              then configuration\<lparr>cfg_MaxElements := 0\<rparr> else configuration)
        in (storage\<lparr>configurations :=
              AList.update (cfg_Queue configuration') configuration' (configurations storage)\<rparr>, None))"

definition MemoryStorage_GetQueueConfiguration ::
    "MemoryStorage \<Rightarrow> string \<Rightarrow> QueueConfiguration option result" where
  "MemoryStorage_GetQueueConfiguration storage queue = Inr (map_of (configurations storage) queue)"

definition MemoryStorage_Flush :: "MemoryStorage \<Rightarrow> MemoryStorage \<times> int64 result" where
  "MemoryStorage_Flush storage =
     (let cnt = int (length (docs storage)) + int (length (configurations storage))
      in (storage\<lparr>docs := [], configurations := []\<rparr>, Inr cnt))"

section \<open>Insertion\<close>

definition getKey :: "Message \<Rightarrow> string" where
  "getKey message = msg_Queue message @ '':'' @ msg_ID message"

definition update_doc :: "Message \<Rightarrow> Message \<Rightarrow> Message" where
  "update_doc doc message =
     doc\<lparr>msg_Description := msg_Description message,
         msg_ExpiryDate := msg_ExpiryDate message,
         msg_Metadata := msg_Metadata message,
         msg_Payload := msg_Payload message,
         msg_StringPayload := msg_StringPayload message\<rparr>"

fun insert_loop ::
    "time \<Rightarrow> Message list \<Rightarrow> int64 \<Rightarrow> int64 \<Rightarrow> MemoryStorage \<Rightarrow> MemoryStorage \<times> (int64 \<times> int64) result" where
  "insert_loop now [] inserted modified storage = (storage, Inr (inserted, modified))"
| "insert_loop now (message # messages) inserted modified storage =
     (if msg_Queue message = [] then (storage, Inl (Err ''message has a invalid queue''))
      else if msg_ID message = [] then (storage, Inl (Err ''message has a invalid ID''))
      else
        let key = getKey message
        in case map_of (docs storage) key of
             Some doc \<Rightarrow>
               insert_loop now messages inserted (modified + 1)
                 (storage\<lparr>docs := AList.update key (update_doc doc message) (docs storage)\<rparr>)
           | None \<Rightarrow>
               let counter = wrap64 (internalCounter storage + 1);
                   message' = message\<lparr>msg_InternalId := IdInt counter, msg_LastUsage := Some now\<rparr>
               in insert_loop now messages (inserted + 1) modified
                    (storage\<lparr>internalCounter := counter,
                             docs := AList.update key message' (docs storage)\<rparr>))"

definition MemoryStorage_Insert ::
    "time \<Rightarrow> MemoryStorage \<Rightarrow> Message list \<Rightarrow> MemoryStorage \<times> (int64 \<times> int64) result" where
  "MemoryStorage_Insert now storage messages = insert_loop now messages 0 0 storage"

text \<open>The type assertion \<^verbatim>\<open>InternalId.(int64)\<close>.\<close>

fun assert_int64 :: "internal_id \<Rightarrow> int64 result" where
  "assert_int64 (IdInt n) = Inr n"
| "assert_int64 _ = Inl (Panic ''interface conversion'')"

definition MemoryStorage_GetStringInternalId :: "MemoryStorage \<Rightarrow> Message \<Rightarrow> string result" where
  "MemoryStorage_GetStringInternalId storage message =
     (if msg_InternalId message = IdNil then Inr []
      else case assert_int64 (msg_InternalId message) of
          Inl e \<Rightarrow> Inl e
        | Inr n \<Rightarrow> Inr (FormatInt n))"

section \<open>Filters\<close>

definition breakpoint_error :: go_error where
  "breakpoint_error = Err ''breakpoint for memory storage need to be a valid int64 message''"

definition beyond_breakpoint :: "(int64 \<Rightarrow> int64 \<Rightarrow> bool) \<Rightarrow> Message \<Rightarrow> string \<Rightarrow> bool result" where
  "beyond_breakpoint excluded message bp =
     (if bp = [] then Inr True
      else case assert_int64 (msg_InternalId message) of
          Inl e \<Rightarrow> Inl e
        | Inr internalId \<Rightarrow>
            (case StrToInt64 bp of
               Inl _ \<Rightarrow> Inl breakpoint_error
             | Inr breakpoint \<Rightarrow> Inr (\<not> excluded internalId breakpoint)))"

definition matchesInternalFilter :: "Message \<Rightarrow> InternalFilter option \<Rightarrow> bool result" where
  "matchesInternalFilter message filter_ptr =
     (case filter_ptr of
        None \<Rightarrow> Inr True
      | Some flt \<Rightarrow>
          if if_Queue flt \<noteq> [] \<and> msg_Queue message \<noteq> if_Queue flt then Inr False
          else if if_QueuePrefix flt \<noteq> [] \<and> msg_QueuePrefix message \<noteq> if_QueuePrefix flt
          then Inr False
          else if (case if_Ids flt of None \<Rightarrow> False
                   | Some ids \<Rightarrow> 0 < length ids \<and> \<not> list_ex (\<lambda>i. i = msg_ID message) ids)
          then Inr False
          else case beyond_breakpoint (\<lambda>i b. i \<le> b) message (if_InternalIdBreakpointGt flt) of
              Inl e \<Rightarrow> Inl e
            | Inr False \<Rightarrow> Inr False
            | Inr True \<Rightarrow>
                (case beyond_breakpoint (\<lambda>i b. i > b) message (if_InternalIdBreakpointLte flt) of
                   Inl e \<Rightarrow> Inl e
                 | Inr False \<Rightarrow> Inr False
                 | Inr True \<Rightarrow>
                     (case if_ExpiryDate flt of
                        None \<Rightarrow> Inr True
                      | Some d \<Rightarrow> Inr (\<not> msg_ExpiryDate message > d))))"

definition messageMatchesFilter :: "Message \<Rightarrow> FindOptions option \<Rightarrow> bool result" where
  "messageMatchesFilter q opts =
     (case opts of None \<Rightarrow> Inr True | Some fo \<Rightarrow> matchesInternalFilter q (fo_InternalFilter fo))"

fun count_loop :: "FindOptions option \<Rightarrow> Message list \<Rightarrow> int64 \<Rightarrow> int64 result" where
  "count_loop opts [] cnt = Inr cnt"
| "count_loop opts (value # values) cnt =
     (case messageMatchesFilter value opts of
        Inl e \<Rightarrow> Inl e
      | Inr matches \<Rightarrow> count_loop opts values (if matches then cnt + 1 else cnt))"

definition MemoryStorage_Count ::
    "(string list \<Rightarrow> string list) \<Rightarrow> MemoryStorage \<Rightarrow> FindOptions option \<Rightarrow> CountOptions option \<Rightarrow> int64 result" where
  "MemoryStorage_Count ord storage findOpts countOpts =
     count_loop findOpts (range_values ord (docs storage)) 0"

definition isExpired :: "time \<Rightarrow> Message \<Rightarrow> bool" where
  "isExpired now message \<longleftrightarrow>
     \<not> msg_Timeless message \<and> (msg_ExpiryDate message < now \<or> msg_ExpiryDate message = now)"

section \<open>Find\<close>

fun find_loop :: "time \<Rightarrow> FindOptions option \<Rightarrow> Message list \<Rightarrow> Message list \<Rightarrow> Message list result" where
  "find_loop now opt [] messages = Inr messages"
| "find_loop now opt (doc # rest) messages =
     (if (case opt of None \<Rightarrow> True
          | Some fo \<Rightarrow> (case fo_InternalFilter fo of None \<Rightarrow> True | Some flt \<Rightarrow> if_ExpiryDate flt = None)) \<and>
         isExpired now doc
      then find_loop now opt rest messages
      else case messageMatchesFilter doc opt of
          Inl e \<Rightarrow> Inl e
        | Inr matches \<Rightarrow> find_loop now opt rest (if matches then messages @ [doc] else messages))"

text \<open>
  The comparison of the sort. The storage gives every document an \<^verbatim>\<open>int64\<close> internal id on insertion, so the
  type assertion on it does not fail; the other internal ids never occur in \<^verbatim>\<open>docs\<close>.
\<close>

fun id_int64 :: "internal_id \<Rightarrow> int64" where
  "id_int64 (IdInt n) = n"
| "id_int64 _ = 0"

fun sort_less :: "(string \<times> int) list \<Rightarrow> Message \<Rightarrow> Message \<Rightarrow> bool" where
  "sort_less [] a b = (id_int64 (msg_InternalId a) < id_int64 (msg_InternalId b))"
| "sort_less ((key, value) # ks) a b =
     (if key = ''expiry_date''
      then if msg_ExpiryDate a \<noteq> zero_time \<or> msg_ExpiryDate b \<noteq> zero_time
           then if value = -1 then msg_ExpiryDate a > msg_ExpiryDate b
                else msg_ExpiryDate a < msg_ExpiryDate b
           else sort_less ks a b
      else if key = ''score''
      then if value = -1 then msg_Score a > msg_Score b else msg_Score a < msg_Score b
      else if key = ''_id''
      then if value = -1 then id_int64 (msg_InternalId a) > id_int64 (msg_InternalId b)
           else id_int64 (msg_InternalId a) < id_int64 (msg_InternalId b)
      else sort_less ks a b)"

definition MemoryStorage_Find ::
    "(string list \<Rightarrow> string list) \<Rightarrow> time \<Rightarrow> MemoryStorage \<Rightarrow> FindOptions option \<Rightarrow> Message list result" where
  "MemoryStorage_Find ord now storage opt =
     (case find_loop now opt (range_values ord (docs storage)) [] of
        Inl e \<Rightarrow> Inl e
      | Inr messages \<Rightarrow>
          let sorted = (case opt of None \<Rightarrow> messages
                        | Some fo \<Rightarrow> (case fo_Sort fo of None \<Rightarrow> messages
                                      | Some ks \<Rightarrow> stable_sort (sort_less ks) messages))
          in Inr (case opt of None \<Rightarrow> sorted
                  | Some fo \<Rightarrow>
                      if fo_Limit fo > 0 \<and> int (length sorted) > fo_Limit fo
                      then take (nat (fo_Limit fo)) sorted else sorted))"

section \<open>Removal, acks and nacks\<close>

text \<open>
  The loop visits every document of the queue once and counts each of the given ids that equals its
  id, also the second of two equal ones.
\<close>

definition MemoryStorage_Remove :: "MemoryStorage \<Rightarrow> string \<Rightarrow> string list \<Rightarrow> MemoryStorage \<times> int64 result" where
  "MemoryStorage_Remove storage queue ids =
     (let hits = (\<lambda>message. if msg_Queue message \<noteq> queue then 0
                            else length (filter (\<lambda>i. msg_ID message = i) ids));
          cnt = sum_list (map (\<lambda>(key, message). hits message) (docs storage))
      in (storage\<lparr>docs := filter (\<lambda>(key, message). hits message = 0) (docs storage)\<rparr>, Inr (int cnt)))"

definition setDiagnosticsStruct :: "Message \<Rightarrow> Message" where
  "setDiagnosticsStruct value =
     (let zero_if_nil = (\<lambda>p :: int64 option. case p of None \<Rightarrow> Some 0 | Some n \<Rightarrow> Some n)
      in case msg_Diagnostics value of
           None \<Rightarrow> value\<lparr>msg_Diagnostics := Some \<lparr>dg_Acks = Some 0, dg_Nacks = Some 0,
                         dg_ConsecutiveAcks = Some 0, dg_ConsecutiveNacks = Some 0\<rparr>\<rparr>
         | Some d \<Rightarrow> value\<lparr>msg_Diagnostics := Some \<lparr>dg_Acks = zero_if_nil (dg_Acks d),
                          dg_Nacks = zero_if_nil (dg_Nacks d),
                          dg_ConsecutiveAcks = zero_if_nil (dg_ConsecutiveAcks d),
                          dg_ConsecutiveNacks = zero_if_nil (dg_ConsecutiveNacks d)\<rparr>\<rparr>)"

definition incr :: "int64 option \<Rightarrow> int64 option" where
  "incr p = map_option (\<lambda>n. wrap64 (n + 1)) p"

definition ack_doc :: "Message \<Rightarrow> Message \<Rightarrow> Message" where
  "ack_doc value msg =
     (let v1 = value\<lparr>msg_TotalScoreSubtract := fadd (msg_TotalScoreSubtract value) (msg_LastScoreSubtract msg),
                     msg_UsageCount := wrap64 (msg_UsageCount value + 1),
                     msg_LastUsage := msg_LastUsage msg,
                     msg_LastScoreSubtract := msg_LastScoreSubtract msg,
                     msg_Score := msg_Score msg,
                     msg_LockMs := msg_LockMs msg,
                     msg_Breakpoint := msg_Breakpoint msg\<rparr>;
          v2 = setDiagnosticsStruct v1
      in v2\<lparr>msg_Diagnostics := map_option (\<lambda>d. d\<lparr>dg_Acks := incr (dg_Acks d),
              dg_ConsecutiveAcks := incr (dg_ConsecutiveAcks d), dg_ConsecutiveNacks := Some 0\<rparr>)
              (msg_Diagnostics v2)\<rparr>)"

definition MemoryStorage_Ack :: "MemoryStorage \<Rightarrow> Message \<Rightarrow> MemoryStorage \<times> int64 result" where
  "MemoryStorage_Ack storage msg =
     (case map_of (docs storage) (getKey msg) of
        None \<Rightarrow> (storage, Inr 0)
      | Some value \<Rightarrow>
          (storage\<lparr>docs := AList.update (getKey msg) (ack_doc value msg) (docs storage)\<rparr>, Inr 1))"

definition nack_doc :: "Message \<Rightarrow> Message \<Rightarrow> Message" where
  "nack_doc value msg =
     (let v2 = setDiagnosticsStruct (value\<lparr>msg_Score := msg_Score msg, msg_LockMs := msg_LockMs msg\<rparr>)
      in v2\<lparr>msg_Diagnostics := map_option (\<lambda>d. d\<lparr>dg_Nacks := incr (dg_Nacks d),
              dg_ConsecutiveNacks := incr (dg_ConsecutiveNacks d), dg_ConsecutiveAcks := Some 0\<rparr>)
              (msg_Diagnostics v2)\<rparr>)"

definition MemoryStorage_Nack :: "MemoryStorage \<Rightarrow> Message \<Rightarrow> MemoryStorage \<times> int64 result" where
  "MemoryStorage_Nack storage msg =
     (case map_of (docs storage) (getKey msg) of
        None \<Rightarrow> (storage, Inr 0)
      | Some value \<Rightarrow>
          (storage\<lparr>docs := AList.update (getKey msg) (nack_doc value msg) (docs storage)\<rparr>, Inr 1))"

section \<open>Queue names\<close>

definition MemoryStorage_ListQueueNames ::
    "(string list \<Rightarrow> string list) \<Rightarrow> MemoryStorage \<Rightarrow> string list result" where
  "MemoryStorage_ListQueueNames ord storage =
     (let temporaryMap = fold (\<lambda>message m. AList.update (msg_Queue message) True m)
                           (range_values ord (docs storage)) []
      in Inr (ord (map fst temporaryMap)))"

definition MemoryStorage_ListQueuePrefixes ::
    "(string list \<Rightarrow> string list) \<Rightarrow> MemoryStorage \<Rightarrow> string list result" where
  "MemoryStorage_ListQueuePrefixes ord storage =
     (let temporaryMap = fold (\<lambda>message m. AList.update (msg_QueuePrefix message) True m)
                           (range_values ord (docs storage)) []
      in Inr (ord (map fst temporaryMap)))"

definition memory_storage :: "(string list \<Rightarrow> string list) \<Rightarrow> MemoryStorage Storage" where
  "memory_storage ord =
     \<lparr>s_Insert = MemoryStorage_Insert,
      s_Find = MemoryStorage_Find ord,
      s_Remove = MemoryStorage_Remove,
      s_Ack = MemoryStorage_Ack,
      s_Nack = MemoryStorage_Nack,
      s_ListQueueNames = MemoryStorage_ListQueueNames ord,
      s_ListQueuePrefixes = MemoryStorage_ListQueuePrefixes ord,
      s_Count = MemoryStorage_Count ord,
      s_GetStringInternalId = MemoryStorage_GetStringInternalId,
      s_EditQueueConfiguration = MemoryStorage_EditQueueConfiguration,
      s_GetQueueConfiguration = MemoryStorage_GetQueueConfiguration,
      s_ListQueueConfigurations = MemoryStorage_ListQueueConfigurations ord,
      s_Flush = MemoryStorage_Flush\<rparr>"

end
