(* ===== verification/Memory_Storage_Contract.thy ===== *)
theory Memory_Storage_Contract
  imports Memory_Storage
begin

text \<open>
  The invariant of the memory storage and its contract. Two messages of different queues share a
  document when the text \<^verbatim>\<open>queue:id\<close> is the same for both, which ids without a colon exclude.
\<close>

section \<open>The invariant\<close>

definition plain_id :: "string \<Rightarrow> bool" where
  "plain_id i \<longleftrightarrow> CHR '':'' \<notin> set i"

definition doc_ok :: "string \<Rightarrow> Message \<Rightarrow> bool" where
  "doc_ok k m \<longleftrightarrow> k = getKey m \<and> plain_id (msg_ID m) \<and> msg_Queue m \<noteq> [] \<and> msg_ID m \<noteq> [] \<and>
     (\<exists>n. msg_InternalId m = IdInt n)"

definition ms_inv :: "MemoryStorage \<Rightarrow> bool" where
  "ms_inv s \<longleftrightarrow> gomap_wf (docs s) \<and> (\<forall>k m. map_of (docs s) k = Some m \<longrightarrow> doc_ok k m)"

definition ms_stored :: "MemoryStorage \<Rightarrow> stored_ids" where
  "ms_stored s = message_key ` ran (map_of (docs s))"

definition ms_expired :: "time \<Rightarrow> MemoryStorage \<Rightarrow> stored_ids" where
  "ms_expired now s = message_key ` {m \<in> ran (map_of (docs s)). isExpired now m}"

lemma getKey_inj:
  assumes "getKey m = getKey m'" "plain_id (msg_ID m)" "plain_id (msg_ID m')"
  shows "message_key m = message_key m'"
proof -
  let ?p = "\<lambda>c. c \<noteq> CHR '':''"
  have id: "takeWhile ?p (rev (getKey x)) = rev (msg_ID x)"
    and queue: "dropWhile ?p (rev (getKey x)) = CHR '':'' # rev (msg_Queue x)"
    if "plain_id (msg_ID x)" for x
  proof -
    have "\<And>c. c \<in> set (rev (msg_ID x)) \<Longrightarrow> ?p c" using that by (auto simp: plain_id_def)
    from takeWhile_append2 [of "rev (msg_ID x)" ?p, OF this] dropWhile_append2 [of "rev (msg_ID x)" ?p, OF this]
    show "takeWhile ?p (rev (getKey x)) = rev (msg_ID x)"
      "dropWhile ?p (rev (getKey x)) = CHR '':'' # rev (msg_Queue x)"
      by (simp_all add: getKey_def)
  qed
  show ?thesis
    using id [OF assms(2)] id [OF assms(3)] queue [OF assms(2)] queue [OF assms(3)] assms(1)
    by (simp add: message_key_def)
qed

lemma ms_inv_new [simp]: "ms_inv NewMemoryStorage"
  by (simp add: ms_inv_def NewMemoryStorage_def)

lemma ms_invD: "ms_inv s \<Longrightarrow> map_of (docs s) k = Some m \<Longrightarrow> doc_ok k m"
  by (simp add: ms_inv_def)

lemma image_ran_upd:
  assumes "\<And>v0. m k = Some v0 \<Longrightarrow> f v0 = f v"
  shows "f ` ran (m(k \<mapsto> v)) = insert (f v) (f ` ran m)"
proof (intro equalityI subsetI)
  fix y assume "y \<in> insert (f v) (f ` ran m)"
  then consider "y = f v" | k' v' where "m k' = Some v'" "y = f v'" by (auto simp: ran_def)
  then show "y \<in> f ` ran (m(k \<mapsto> v))"
  proof cases
    case 2
    then show ?thesis using assms by (cases "k' = k") (auto simp: ran_def)
  qed (auto simp: ran_def)
qed (auto simp: ran_def split: if_splits)

text \<open>Writing a document under its own key.\<close>

lemma put_doc:
  assumes "ms_inv s" "doc_ok (getKey m) m"
    and "\<And>d. map_of (docs s) (getKey m) = Some d \<Longrightarrow> message_key d = message_key m"
  defines "s' \<equiv> s\<lparr>docs := AList.update (getKey m) m (docs s)\<rparr>"
  shows "ms_inv s'" "ms_stored s' = insert (message_key m) (ms_stored s)"
proof -
  show "ms_inv s'" using assms(1,2) by (simp add: ms_inv_def s'_def)
  show "ms_stored s' = insert (message_key m) (ms_stored s)"
    using image_ran_upd [of "map_of (docs s)" "getKey m" message_key m] assms(3)
    by (simp add: ms_stored_def s'_def)
qed

lemma ms_inv_counter [simp]: "ms_inv (s\<lparr>internalCounter := n\<rparr>) = ms_inv s"
  "ms_stored (s\<lparr>internalCounter := n\<rparr>) = ms_stored s"
  by (simp_all add: ms_inv_def ms_stored_def)

section \<open>Insertion\<close>

lemma update_doc_key [simp]:
  "getKey (update_doc d m) = getKey d" "message_key (update_doc d m) = message_key d"
  "msg_ID (update_doc d m) = msg_ID d" "msg_Queue (update_doc d m) = msg_Queue d"
  "msg_InternalId (update_doc d m) = msg_InternalId d"
  by (simp_all add: update_doc_def getKey_def message_key_def)

lemma insert_step:
  assumes "msg_Queue m \<noteq> []" "msg_ID m \<noteq> []" "ms_inv s" "plain_id (msg_ID m)"
    and s': "s' = (case map_of (docs s) (getKey m) of
      Some d \<Rightarrow> s\<lparr>docs := AList.update (getKey m) (update_doc d m) (docs s)\<rparr>
    | None \<Rightarrow> s\<lparr>internalCounter := wrap64 (internalCounter s + 1),
               docs := AList.update (getKey m) (m\<lparr>msg_InternalId := IdInt (wrap64 (internalCounter s + 1)),
                 msg_LastUsage := Some now\<rparr>) (docs s)\<rparr>)"
  shows "ms_inv s' \<and> ms_stored s' = insert (message_key m) (ms_stored s)"
proof (cases "map_of (docs s) (getKey m)")
  case (Some d)
  have d: "doc_ok (getKey m) d" using ms_invD [OF assms(3) Some] .
  then have "message_key d = message_key m" using assms(4) by (auto simp: doc_ok_def intro: getKey_inj)
  then show ?thesis
    using put_doc [OF assms(3), of "update_doc d m"] d Some by (simp add: doc_ok_def s')
next
  case None
  let ?m = "m\<lparr>msg_InternalId := IdInt (wrap64 (internalCounter s + 1)), msg_LastUsage := Some now\<rparr>"
  have k: "getKey ?m = getKey m" "message_key ?m = message_key m" by (simp_all add: getKey_def message_key_def)
  have "ms_inv (s\<lparr>internalCounter := wrap64 (internalCounter s + 1)\<rparr>)" using assms(3) by simp
  from put_doc [OF this, of ?m] show ?thesis using assms None k by (simp add: doc_ok_def s')
qed

lemma insert_loop_stored:
  assumes "insert_loop now ms ins upd s = (s', r)" "ms_inv s" "\<forall>m\<in>set ms. plain_id (msg_ID m)"
  shows "ms_inv s' \<and> ms_stored s \<subseteq> ms_stored s' \<and>
    (\<forall>n. r = Inr n \<longrightarrow> ms_stored s' = ms_stored s \<union> message_key ` set ms)"
  using assms
proof (induction now ms ins upd s rule: insert_loop.induct)
  case (2 now m ms ins upd s)
  show ?case
  proof (cases "msg_Queue m = [] \<or> msg_ID m = []")
    case True
    then show ?thesis using 2 by (auto split: if_splits)
  next
    case False
    note st = insert_step [of m s _ now, OF _ _ _ _ refl]
    have p: "plain_id (msg_ID m)" "\<forall>m\<in>set ms. plain_id (msg_ID m)" using "2.prems"(3) by simp_all
    show ?thesis
    proof (cases "map_of (docs s) (getKey m)")
      case None
      then show ?thesis
        using 2(1) [OF _ _ refl None refl refl _ _ p(2)] "2.prems"(1,2) False p(1) st by (auto simp: Let_def)
    next
      case (Some d)
      then show ?thesis
        using 2(2) [OF _ _ refl Some _ _ p(2)] "2.prems"(1,2) False p(1) st by (auto simp: Let_def)
    qed
  qed
qed simp

section \<open>Find\<close>

definition find_match :: "time \<Rightarrow> FindOptions option \<Rightarrow> Message \<Rightarrow> bool" where
  "find_match now opt d \<longleftrightarrow>
     \<not> ((case opt of None \<Rightarrow> True
         | Some fo \<Rightarrow> (case fo_InternalFilter fo of None \<Rightarrow> True | Some flt \<Rightarrow> if_ExpiryDate flt = None)) \<and>
        isExpired now d) \<and>
     messageMatchesFilter d opt = Inr True"

lemma find_loop_eq:
  "find_loop now opt ds acc = Inr r \<Longrightarrow> r = acc @ filter (find_match now opt) ds"
proof (induction now opt ds acc rule: find_loop.induct)
  case (2 now opt d ds acc)
  show ?case
  proof (cases "messageMatchesFilter d opt")
    case (Inl e)
    then show ?thesis using 2 by (auto simp: find_match_def split: if_splits)
  next
    case (Inr b)
    then show ?thesis using 2 by (cases b) (auto simp: find_match_def split: if_splits)
  qed
qed simp

lemma Find_eq:
  assumes "MemoryStorage_Find ord now s opt = Inr r"
  obtains sorted where "mset sorted = mset (filter (find_match now opt) (range_values ord (docs s)))"
    "r = (case opt of None \<Rightarrow> sorted
          | Some fo \<Rightarrow> if fo_Limit fo > 0 then take (nat (fo_Limit fo)) sorted else sorted)"
proof -
  let ?ms = "filter (find_match now opt) (range_values ord (docs s))"
  let ?sorted = "case opt of None \<Rightarrow> ?ms
    | Some fo \<Rightarrow> (case fo_Sort fo of None \<Rightarrow> ?ms | Some ks \<Rightarrow> stable_sort (sort_less ks) ?ms)"
  obtain ms where f: "find_loop now opt (range_values ord (docs s)) [] = Inr ms"
    using assms by (auto simp: MemoryStorage_Find_def split: sum.splits)
  then have ms: "ms = ?ms" using find_loop_eq by fastforce
  have "mset ?sorted = mset ?ms" by (simp add: mset_stable_sort split: option.split)
  moreover have "r = (case opt of None \<Rightarrow> ?sorted
      | Some fo \<Rightarrow> if fo_Limit fo > 0 then take (nat (fo_Limit fo)) ?sorted else ?sorted)"
    using assms f unfolding ms by (auto simp: MemoryStorage_Find_def Let_def split: option.splits)
  ultimately show thesis by (rule that)
qed

lemma mset_range_values:
  assumes "any_order ord" "gomap_wf m"
  shows "mset (range_values ord m) = mset (map snd m)"
proof -
  have "mset (range_values ord m) = image_mset (\<lambda>k. the (map_of m k)) (mset (map fst m))"
    using assms(1) by (simp add: range_values_def any_order_def)
  also have "\<dots> = mset (map (\<lambda>(k, v). the (map_of m k)) m)"
    by (simp add: multiset.map_comp comp_def case_prod_unfold)
  also have "map (\<lambda>(k, v). the (map_of m k)) m = map snd m"
    using assms(2) by (auto simp: gomap_wf_def)
  finally show ?thesis .
qed

lemma set_range_values:
  assumes "any_order ord" "gomap_wf m"
  shows "set (range_values ord m) = ran (map_of m)"
proof -
  have "set (range_values ord m) = set (map snd m)"
    using mset_range_values [OF assms] by (rule mset_eq_setD)
  then show ?thesis using assms(2) by (simp add: gomap_wf_def ran_distinct)
qed

lemma distinct_docs:
  assumes "any_order ord" "ms_inv s"
  shows "distinct (map message_key (range_values ord (docs s)))"
proof -
  have ok: "\<forall>(k, m)\<in>set (docs s). k = getKey m"
    using assms(2) by (auto simp: ms_inv_def doc_ok_def gomap_wf_def)
  have keys: "distinct (map fst (docs s))" using assms(2) by (simp add: ms_inv_def gomap_wf_def)
  have "map fst (docs s) = map getKey (map snd (docs s))" using ok by auto
  then have d: "distinct (map getKey (map snd (docs s)))" using keys by metis
  have "getKey = (\<lambda>(q, i). q @ '':'' @ i) \<circ> message_key"
    by (simp add: fun_eq_iff getKey_def message_key_def)
  then have "distinct (map message_key (map snd (docs s)))"
    using d by (metis distinct_map list.map_comp)
  moreover have "mset (map message_key (range_values ord (docs s))) = mset (map message_key (map snd (docs s)))"
    using mset_range_values [OF assms(1)] assms(2) by (metis ms_inv_def mset_map)
  ultimately show ?thesis using mset_eq_imp_distinct_iff by blast
qed

lemma ms_find_stored:
  assumes "any_order ord" "ms_inv s" "MemoryStorage_Find ord now s opt = Inr r"
  shows "message_key ` set r \<subseteq> ms_stored s" "set r \<subseteq> ran (map_of (docs s))"
    "\<forall>m\<in>set r. find_match now opt m" "distinct (map message_key r)"
proof -
  obtain sorted where so: "mset sorted = mset (filter (find_match now opt) (range_values ord (docs s)))"
    and r: "r = (case opt of None \<Rightarrow> sorted
          | Some fo \<Rightarrow> if fo_Limit fo > 0 then take (nat (fo_Limit fo)) sorted else sorted)"
    using Find_eq [OF assms(3)] by blast
  have wf: "gomap_wf (docs s)" using assms(2) by (simp add: ms_inv_def)
  have sub: "set r \<subseteq> set sorted" using r by (auto split: option.splits if_splits dest: in_set_takeD)
  have ss: "set sorted = {m \<in> ran (map_of (docs s)). find_match now opt m}"
    using mset_eq_setD [OF so] set_range_values [OF assms(1) wf] by simp
  show "set r \<subseteq> ran (map_of (docs s))" "\<forall>m\<in>set r. find_match now opt m" using sub ss by auto
  then show "message_key ` set r \<subseteq> ms_stored s" by (auto simp: ms_stored_def)
  have "mset (map message_key sorted) =
      mset (map message_key (filter (find_match now opt) (range_values ord (docs s))))"
    using so by simp
  then have "distinct (map message_key sorted)"
    using mset_eq_imp_distinct_iff distinct_docs [OF assms(1,2)] distinct_map_filter by blast
  then show "distinct (map message_key r)"
    using r by (auto simp: take_map [symmetric] split: option.splits if_splits)
qed

lemma ids_filter_match:
  assumes "ids_filter q ids fo" "ids \<noteq> []" "q \<noteq> []"
  shows "find_match now (Some fo) m \<longleftrightarrow> \<not> isExpired now m \<and> msg_Queue m = q \<and> msg_ID m \<in> set ids"
  using assms
  by (auto simp: find_match_def ids_filter_def messageMatchesFilter_def matchesInternalFilter_def
      zero_InternalFilter_def beyond_breakpoint_def list_ex_iff)

lemma ms_find_ids:
  assumes "any_order ord" "ms_inv s" "ids \<noteq> []" "q \<noteq> []" "ids_filter q ids fo"
    "MemoryStorage_Find ord now s (Some fo) = Inr r"
  shows "distinct (map msg_ID r) \<and> (\<forall>m\<in>set r. msg_Queue m = q \<and> msg_ID m \<in> set ids) \<and>
    (\<forall>i\<in>set ids. (q, i) \<in> ms_stored s - ms_expired now s \<longrightarrow> i \<in> msg_ID ` set r)"
proof -
  note m = ids_filter_match [OF assms(5,3,4), of now]
  let ?ms = "filter (find_match now (Some fo)) (range_values ord (docs s))"
  obtain sorted where so: "mset sorted = mset ?ms"
    and r: "r = (if fo_Limit fo > 0 then take (nat (fo_Limit fo)) sorted else sorted)"
    using Find_eq [OF assms(6)] by auto
  have wf: "gomap_wf (docs s)" using assms(2) by (simp add: ms_inv_def)
  have set_so: "set sorted = {x \<in> ran (map_of (docs s)). find_match now (Some fo) x}"
    using mset_eq_setD [OF so] set_range_values [OF assms(1) wf] by simp
  have "distinct (map message_key ?ms)" by (rule distinct_map_filter [OF distinct_docs [OF assms(1,2)]])
  moreover have "mset (map message_key sorted) = mset (map message_key ?ms)" using so by simp
  ultimately have "distinct (map message_key sorted)" using mset_eq_imp_distinct_iff by blast
  moreover have key: "map message_key sorted = map (\<lambda>i. (q, i)) (map msg_ID sorted)"
    using set_so m by (auto simp: message_key_def)
  ultimately have d: "distinct (map msg_ID sorted)" by (metis distinct_map)
  have "set (map msg_ID sorted) \<subseteq> set ids" using set_so m by auto
  then have "length (map msg_ID sorted) \<le> length ids"
    using d by (metis card_length card_mono distinct_card finite_set le_trans)
  then have rs: "r = sorted" using r assms(5) by (simp add: ids_filter_def)
  have "i \<in> msg_ID ` set sorted" if i: "i \<in> set ids" "(q, i) \<in> ms_stored s - ms_expired now s" for i
  proof -
    obtain x where x: "x \<in> ran (map_of (docs s))" "message_key x = (q, i)"
      using i(2) by (auto simp: ms_stored_def)
    then have "\<not> isExpired now x" using i(2) by (force simp: ms_expired_def)
    then have "x \<in> set sorted" using x i(1) set_so m by (simp add: message_key_def)
    moreover have "msg_ID x = i" using x(2) by (simp add: message_key_def)
    ultimately show ?thesis by blast
  qed
  then show ?thesis using d rs set_so m by auto
qed

section \<open>Removal, acks and nacks\<close>

definition remove_hits :: "string \<Rightarrow> string list \<Rightarrow> Message \<Rightarrow> nat" where
  "remove_hits q ids m = (if msg_Queue m \<noteq> q then 0 else length (filter (\<lambda>i. msg_ID m = i) ids))"

lemma remove_hits_0: "remove_hits q ids m = 0 \<longleftrightarrow> \<not> (msg_Queue m = q \<and> msg_ID m \<in> set ids)"
  by (auto simp: remove_hits_def filter_empty_conv)

lemma Remove_eq:
  "MemoryStorage_Remove s q ids =
     (s\<lparr>docs := filter (\<lambda>(k, m). \<not> (msg_Queue m = q \<and> msg_ID m \<in> set ids)) (docs s)\<rparr>,
      Inr (int (\<Sum>(k, m)\<leftarrow>docs s. remove_hits q ids m)))"
  unfolding MemoryStorage_Remove_def Let_def remove_hits_0 [symmetric] by (simp add: remove_hits_def)

lemma map_of_filter_wf:
  "gomap_wf m \<Longrightarrow> map_of (filter P m) k = (case map_of m k of None \<Rightarrow> None
     | Some v \<Rightarrow> if P (k, v) then Some v else None)"
  by (induction m) (auto simp: gomap_wf_def map_of_eq_None_iff split: option.splits dest: map_of_SomeD)

lemma ms_remove_stored:
  assumes "ms_inv s" "MemoryStorage_Remove s q ids = (s', r)"
  shows "ms_stored s' = ms_stored s - {q} \<times> set ids" "ms_inv s'" "r \<noteq> Inl e"
proof -
  let ?P = "\<lambda>(k :: string, m). \<not> (msg_Queue m = q \<and> msg_ID m \<in> set ids)"
  have wf: "gomap_wf (docs s)" using assms(1) by (simp add: ms_inv_def)
  have s': "s' = s\<lparr>docs := filter ?P (docs s)\<rparr>" and r: "r \<noteq> Inl e" using assms(2) by (auto simp: Remove_eq)
  then show "r \<noteq> Inl e" by simp
  have map: "map_of (docs s') k = (case map_of (docs s) k of None \<Rightarrow> None
     | Some v \<Rightarrow> if ?P (k, v) then Some v else None)" for k
    by (simp add: s' map_of_filter_wf [OF wf] split: option.split)
  have "gomap_wf (docs s')" using wf by (simp add: s' gomap_wf_def distinct_map_filter)
  then show "ms_inv s'" using assms(1) map by (auto simp: ms_inv_def split: option.splits if_splits)
  have "ran (map_of (docs s')) = {m \<in> ran (map_of (docs s)). \<not> (msg_Queue m = q \<and> msg_ID m \<in> set ids)}"
    using map by (auto simp: ran_def split: option.splits if_splits)
  then show "ms_stored s' = ms_stored s - {q} \<times> set ids"
    by (auto simp: ms_stored_def message_key_def)
qed

lemma ack_doc_key [simp]:
  "getKey (ack_doc d m) = getKey d" "message_key (ack_doc d m) = message_key d"
  "getKey (nack_doc d m) = getKey d" "message_key (nack_doc d m) = message_key d"
  "msg_InternalId (ack_doc d m) = msg_InternalId d" "msg_InternalId (nack_doc d m) = msg_InternalId d"
  by (simp_all add: ack_doc_def nack_doc_def setDiagnosticsStruct_def getKey_def message_key_def Let_def
      split: option.splits)

lemma doc_ok_same:
  "doc_ok k d \<Longrightarrow> message_key d' = message_key d \<Longrightarrow> msg_InternalId d' = msg_InternalId d \<Longrightarrow> doc_ok k d'"
  by (simp add: doc_ok_def message_key_def getKey_def)

lemma replace_doc:
  assumes "ms_inv s" "map_of (docs s) k = Some d" "message_key d' = message_key d"
    "msg_InternalId d' = msg_InternalId d"
  shows "ms_inv (s\<lparr>docs := AList.update k d' (docs s)\<rparr>)"
    "ms_stored (s\<lparr>docs := AList.update k d' (docs s)\<rparr>) = ms_stored s"
proof -
  have ok: "doc_ok k d" using ms_invD [OF assms(1,2)] .
  have k: "k = getKey d'" using doc_ok_same [OF ok assms(3,4)] by (simp add: doc_ok_def)
  have "insert (message_key d') (ms_stored s) = ms_stored s"
    using assms(2,3) by (auto simp: ms_stored_def ran_def)
  then show "ms_inv (s\<lparr>docs := AList.update k d' (docs s)\<rparr>)"
    "ms_stored (s\<lparr>docs := AList.update k d' (docs s)\<rparr>) = ms_stored s"
    using put_doc [OF assms(1), of d'] doc_ok_same [OF ok assms(3,4)] assms(2,3) k by simp_all
qed

lemma ms_ack_stored: "ms_inv s \<Longrightarrow> MemoryStorage_Ack s m = (s', r) \<Longrightarrow> ms_stored s' = ms_stored s \<and> ms_inv s'"
  by (auto simp: MemoryStorage_Ack_def replace_doc split: option.splits)

lemma ms_nack_stored: "ms_inv s \<Longrightarrow> MemoryStorage_Nack s m = (s', r) \<Longrightarrow> ms_stored s' = ms_stored s \<and> ms_inv s'"
  by (auto simp: MemoryStorage_Nack_def replace_doc split: option.splits)

section \<open>The interpretation\<close>

lemma ms_edit_stored:
  "ms_inv s \<Longrightarrow> MemoryStorage_EditQueueConfiguration s cfg = (s', e) \<Longrightarrow> ms_stored s' = ms_stored s \<and> ms_inv s'"
  by (auto simp: MemoryStorage_EditQueueConfiguration_def Let_def ms_stored_def ms_inv_def split: if_splits)

lemma ms_flush_stored:
  "MemoryStorage_Flush s = (s', r) \<Longrightarrow> ms_stored s' = {} \<and> ms_inv s' \<and> (\<exists>n. r = Inr n)"
  by (auto simp: MemoryStorage_Flush_def Let_def ms_stored_def ms_inv_def)

locale doc_order =
  fixes ord :: "string list \<Rightarrow> string list"
  assumes order: "any_order ord"

sublocale doc_order \<subseteq> ms: storage_contract "memory_storage ord" ms_stored ms_expired plain_id ms_inv
proof (unfold_locales, unfold memory_storage_def Storage.select_convs, goal_cases)
  case (1 s ms now s' n)
  then show ?case using insert_loop_stored [of now ms 0 0 s s' "Inr n"] by (simp add: MemoryStorage_Insert_def)
next
  case (2 s ms now s' e)
  then show ?case using insert_loop_stored [of now ms 0 0 s s' "Inl e"] by (simp add: MemoryStorage_Insert_def)
next
  case 3
  then show ?case using ms_find_stored(1) [OF order] by blast
next
  case 4
  then show ?case by (rule ms_find_ids [OF order])
next
  case 5
  then show ?case using ms_remove_stored by blast
next
  case 6
  then show ?case using ms_remove_stored(3) by blast
next
  case 7
  then show ?case by (rule ms_ack_stored)
next
  case 8
  then show ?case by (rule ms_nack_stored)
next
  case 9
  then show ?case by (rule ms_edit_stored)
next
  case 10
  then show ?case using ms_flush_stored by blast
next
  case 11
  then show ?case using ms_flush_stored by blast
next
  case 12
  then show ?case by (auto simp: ms_inv_def ms_stored_def doc_ok_def message_key_def ran_def)
qed

interpretation insertion_docs: doc_order "\<lambda>ks. ks"
  by unfold_locales simp

end
