(* ===== verification/Memory_Queue.thy ===== *)
theory Memory_Queue
  imports Queue_Laws Memory_Cache_Contract Memory_Storage_Contract
begin

text \<open>
  The queue over the memory cache and the memory storage: the laws of \<open>queue_env\<close> hold for it, whatever
  order the maps of the cache and of the storage are walked in.
\<close>

type_synonym MemoryQueue = "(MemoryCache, MemoryStorage) Queue"

abbreviation mq_ok :: "MemoryQueue \<Rightarrow> bool" where
  "mq_ok \<equiv> queue_ok mc_ids mc_inv ms_stored ms_inv"

locale memory_queue = map_order cord glob + docs: doc_order dord
  for cord :: "string list \<Rightarrow> string list" and glob :: "string \<Rightarrow> string \<Rightarrow> bool"
    and dord :: "string list \<Rightarrow> string list"

sublocale memory_queue \<subseteq> mq: queue_env "memory_cache cord glob" mc_ids mc_inv "\<lambda>n. True"
  "memory_storage dord" ms_stored ms_expired plain_id ms_inv True
proof
  show "known_ids (mc_ids c) q \<inter> set ids = {}" if "c_Remove (memory_cache cord glob) c q ids = (c', n, Some e)"
    for c q ids c' n e
    using that by (auto simp: memory_cache_def dest: Remove_view(3))
  show "mc_ids (c_Flush (memory_cache cord glob) c) = (\<lambda>p q. {}) \<and> mc_inv (c_Flush (memory_cache cord glob) c)" for c
    using mc_flush_ids by (simp add: memory_cache_def)
qed

interpretation insertion_queue: memory_queue "\<lambda>qs. qs" glob "\<lambda>ks. ks" for glob
  by unfold_locales

lemma memory_queue_orders: "any_order cord \<Longrightarrow> any_order dord \<Longrightarrow> memory_queue cord dord"
  by (simp add: memory_queue_def map_order_def doc_order_def)

lemma mc_ids_new: "mc_ids NewMemoryCache = (\<lambda>p q. {})"
  by (auto simp: fun_eq_iff mc_ids_def NewMemoryCache_def cview_def pool_map_def split: PoolType.split)

lemma mq_ok_new: "mq_ok (NewQueue a NewMemoryStorage NewMemoryCache)"
  by (simp add: queue_ok_def NewQueue_def cached_in_def mc_ids_new known_ids_def)

end
