(* ===== verification/Memory_Storage_Props.thy ===== *)
theory Memory_Storage_Props
  imports Memory_Storage_Contract
begin

text \<open>The properties of \<^verbatim>\<open>internal/queue/storage/memory_storage.go\<close>.\<close>

definition sample_doc :: "string \<Rightarrow> string \<Rightarrow> rat \<Rightarrow> Message" where
  "sample_doc q i s =
     zero_Message\<lparr>msg_ID := i, msg_Queue := q, msg_Score := Fin s, msg_Timeless := True\<rparr>"

definition sample_stored :: "string \<Rightarrow> string \<Rightarrow> rat \<Rightarrow> int64 \<Rightarrow> Message" where
  "sample_stored q i s n = (sample_doc q i s)\<lparr>msg_InternalId := IdInt n, msg_LastUsage := Some 0\<rparr>"

definition sample_storage :: MemoryStorage where
  "sample_storage =
     \<lparr>docs = [(''q:a'', sample_stored ''q'' ''a'' 5 1), (''q:b'', sample_stored ''q'' ''b'' 3 2)],
      configurations = [], internalCounter = 2\<rparr>"

lemma sample_storage_insert:
  "MemoryStorage_Insert 0 NewMemoryStorage [sample_doc ''q'' ''a'' 5, sample_doc ''q'' ''b'' 3] =
     (sample_storage, Inr (2, 0))"
  by (simp add: MemoryStorage_Insert_def NewMemoryStorage_def sample_doc_def getKey_def sample_storage_def
      sample_stored_def wrap64_def Let_def zero_Message_def)

lemma sample_storage_inv: "ms_inv sample_storage"
proof -
  have "insert_loop 0 [sample_doc ''q'' ''a'' 5, sample_doc ''q'' ''b'' 3] 0 0 NewMemoryStorage =
      (sample_storage, Inr (2, 0))"
    using sample_storage_insert by (simp only: MemoryStorage_Insert_def)
  from insert_loop_stored [OF this ms_inv_new] show ?thesis by (simp add: sample_doc_def plain_id_def)
qed

section \<open>Find\<close>

definition matching :: "time \<Rightarrow> FindOptions \<Rightarrow> MemoryStorage \<Rightarrow> Message set" where
  "matching now fo s = {m \<in> ran (map_of (docs s)). find_match now (Some fo) m}"

lemma sort_less_score: "sort_less [(''score'', 1)] = (\<lambda>a b. msg_Score a < msg_Score b)"
  by (simp add: fun_eq_iff)

lemma Find_score_eq:
  assumes "fo_Sort fo = Some [(''score'', 1)]" "MemoryStorage_Find ord now s (Some fo) = Inr r"
  defines "l \<equiv> stable_sort (\<lambda>a b. msg_Score a < msg_Score b)
                (filter (find_match now (Some fo)) (range_values ord (docs s)))"
  shows "r = (if fo_Limit fo > 0 then take (nat (fo_Limit fo)) l else l)"
proof -
  obtain ms where f: "find_loop now (Some fo) (range_values ord (docs s)) [] = Inr ms"
    using assms(2) by (auto simp: MemoryStorage_Find_def split: sum.splits)
  then have "ms = filter (find_match now (Some fo)) (range_values ord (docs s))"
    using find_loop_eq by fastforce
  then show ?thesis
    using assms(1,2) f sort_less_score by (auto simp: MemoryStorage_Find_def Let_def l_def)
qed

text \<open>
  C23: if no stored score is NaN, a find sorted by ascending score returns matching documents only, in the order of their scores.
  It returns all of them or, with a limit, that many of them, and then no document left out has a
  smaller score than a returned one.
\<close>

theorem memory_storage_find_sorted:
  assumes "any_order ord" "ms_inv s" "fo_Sort fo = Some [(''score'', 1)]"
    and "\<forall>m\<in>ran (map_of (docs s)). msg_Score m \<noteq> NaN"
    and "MemoryStorage_Find ord now s (Some fo) = Inr r"
  shows "sorted_wrt (\<lambda>a b. msg_Score a \<le> msg_Score b) r \<and> set r \<subseteq> matching now fo s \<and>
    length r = (if fo_Limit fo > 0 then min (nat (fo_Limit fo)) (card (matching now fo s))
                else card (matching now fo s)) \<and>
    (\<forall>x\<in>matching now fo s - set r. \<forall>y\<in>set r. msg_Score y \<le> msg_Score x)"
proof -
  let ?lt = "\<lambda>a b. msg_Score a < msg_Score b"
  let ?ms = "filter (find_match now (Some fo)) (range_values ord (docs s))"
  define l where "l = stable_sort ?lt ?ms"
  have r: "r = (if fo_Limit fo > 0 then take (nat (fo_Limit fo)) l else l)"
    using Find_score_eq [OF assms(3,5)] by (simp add: l_def)
  have wf: "gomap_wf (docs s)" using assms(2) by (simp add: ms_inv_def)
  have sl: "set l = matching now fo s"
    using set_range_values [OF assms(1) wf] by (auto simp: l_def matching_def)
  have "distinct ?ms"
    using distinct_docs [OF assms(1,2)] by (intro distinct_filter) (simp add: distinct_map)
  moreover have "mset l = mset ?ms" by (simp add: l_def)
  ultimately have "distinct l" using mset_eq_imp_distinct_iff by blast
  then have len: "length l = card (matching now fo s)" using sl by (metis distinct_card)
  have nan: "\<forall>m\<in>set l. msg_Score m \<noteq> NaN" using assms(4) sl by (auto simp: matching_def)
  have "weak_order ?lt (set ?ms)"
    using nan by (intro weak_order_float) (simp add: l_def)
  then have "sorted_wrt (\<lambda>a b. \<not> ?lt b a) l" unfolding l_def by (rule stable_sort_sorted)
  then have sorted: "sorted_wrt (\<lambda>a b. msg_Score a \<le> msg_Score b) l"
    by (rule sorted_wrt_mono_rel [rotated]) (use nan in \<open>simp add: float_not_less\<close>)
  define k where "k = (if fo_Limit fo > 0 then nat (fo_Limit fo) else length l)"
  have rk: "r = take k l" using r by (simp add: k_def)
  have "sorted_wrt (\<lambda>a b. msg_Score a \<le> msg_Score b) (take k l @ drop k l)" using sorted by simp
  then have parts: "\<forall>y\<in>set (take k l). \<forall>x\<in>set (drop k l). msg_Score y \<le> msg_Score x"
    and st: "sorted_wrt (\<lambda>a b. msg_Score a \<le> msg_Score b) (take k l)"
    unfolding sorted_wrt_append by simp_all
  have un: "matching now fo s = set (take k l) \<union> set (drop k l)"
    unfolding sl [symmetric] set_append [symmetric] by simp
  have "length (take k l) = (if fo_Limit fo > 0 then min (nat (fo_Limit fo)) (card (matching now fo s))
      else card (matching now fo s))"
    by (simp add: k_def len min.commute)
  then show ?thesis using parts st unfolding rk un by (intro conjI) auto
qed

theorem memory_storage_find_sorted_witness:
  "let fo = zero_FindOptions\<lparr>fo_Sort := Some [(''score'', 1)], fo_Limit := 1\<rparr>;
       r = [sample_stored ''q'' ''b'' 3 2]
   in MemoryStorage_Find (\<lambda>ks. ks) 0 sample_storage (Some fo) = Inr r \<and>
      sorted_wrt (\<lambda>a b. msg_Score a \<le> msg_Score b) r \<and>
      (\<forall>x\<in>matching 0 fo sample_storage - set r. \<forall>y\<in>set r. msg_Score y \<le> msg_Score x)"
proof -
  let ?fo = "zero_FindOptions\<lparr>fo_Sort := Some [(''score'', 1)], fo_Limit := 1\<rparr>"
  have n: "\<forall>m\<in>ran (map_of (docs sample_storage)). msg_Score m \<noteq> NaN"
    by (auto simp: sample_storage_def sample_stored_def sample_doc_def ran_def split: if_splits)
  have f: "MemoryStorage_Find (\<lambda>ks. ks) 0 sample_storage (Some ?fo) = Inr [sample_stored ''q'' ''b'' 3 2]"
    by (simp add: MemoryStorage_Find_def sample_storage_def range_values_def isExpired_def sample_stored_def
        sample_doc_def zero_FindOptions_def messageMatchesFilter_def matchesInternalFilter_def
        stable_sort_def Let_def)
  show ?thesis
    using memory_storage_find_sorted [OF any_order_id(1) sample_storage_inv _ n f] f by (simp add: Let_def)
qed

section \<open>Insertion\<close>

text \<open>
  An insertion writes the content of a message; the rest of a stored document, among it its score, is its identity and
  history. A batch may name a key several times: \<open>hits\<close> are the messages of the batch with the key.
\<close>

definition content_of where
  "content_of m = (msg_Description m, msg_ExpiryDate m, msg_Metadata m, msg_Payload m, msg_StringPayload m)"

definition identity_of where
  "identity_of m =
     (msg_ID m, msg_Queue m, msg_Timeless m, msg_LockMs m, msg_InternalId m, msg_Score m, msg_LastUsage m, msg_Breakpoint m,
      msg_LastScoreSubtract m, msg_TotalScoreSubtract m, msg_UsageCount m, msg_QueuePrefix m, msg_QueueSuffix m,
      msg_Diagnostics m)"

definition upserted :: "time \<Rightarrow> Message option \<Rightarrow> Message list \<Rightarrow> Message option \<Rightarrow> bool" where
  "upserted now old hits new \<longleftrightarrow>
     (case hits of
        [] \<Rightarrow> new = old
      | m # _ \<Rightarrow> (\<exists>d. new = Some d \<and> content_of d = content_of (last hits) \<and>
          (case old of
             Some d0 \<Rightarrow> identity_of d = identity_of d0
           | None \<Rightarrow> (\<exists>n. identity_of d = identity_of (m\<lparr>msg_InternalId := IdInt n, msg_LastUsage := Some now\<rparr>)))))"

lemma content_update [simp]: "content_of (update_doc d m) = content_of m" "identity_of (update_doc d m) = identity_of d"
  "content_of (m\<lparr>msg_InternalId := i, msg_LastUsage := u\<rparr>) = content_of m"
  by (simp_all add: content_of_def identity_of_def update_doc_def)

lemma upserted_Some:
  "upserted now (Some (update_doc d m)) hits new \<Longrightarrow> upserted now (Some d) (m # hits) new"
  by (cases hits) (auto simp: upserted_def)

lemma upserted_None:
  "upserted now (Some (m\<lparr>msg_InternalId := IdInt n, msg_LastUsage := Some now\<rparr>)) hits new \<Longrightarrow> upserted now None (m # hits) new"
  by (cases hits) (auto simp: upserted_def)

lemma insert_loop_upserted:
  assumes "insert_loop now ms ins upd s = (s', Inr r)"
  shows "upserted now (map_of (docs s) k) (filter (\<lambda>m. getKey m = k) ms) (map_of (docs s') k)"
  using assms
proof (induction now ms ins upd s rule: insert_loop.induct)
  case (2 now m ms ins upd s)
  have v: "msg_Queue m \<noteq> []" "msg_ID m \<noteq> []" using "2.prems" by (auto split: if_splits)
  show ?case
  proof (cases "map_of (docs s) (getKey m)")
    case None
    let ?m = "m\<lparr>msg_InternalId := IdInt (wrap64 (internalCounter s + 1)), msg_LastUsage := Some now\<rparr>"
    have "upserted now (map_of (AList.update (getKey m) ?m (docs s)) k) (filter (\<lambda>m. getKey m = k) ms) (map_of (docs s') k)"
      using 2(1) [OF v refl None refl refl] "2.prems" v None by (simp add: Let_def)
    then show ?thesis using None upserted_None by (cases "getKey m = k") (auto simp: update_conv')
  next
    case (Some d)
    have "upserted now (map_of (AList.update (getKey m) (update_doc d m) (docs s)) k) (filter (\<lambda>m. getKey m = k) ms) (map_of (docs s') k)"
      using 2(2) [OF v refl Some] "2.prems" v Some by (simp add: Let_def)
    then show ?thesis using Some upserted_Some by (cases "getKey m = k") (auto simp: update_conv')
  qed
qed (simp add: upserted_def)

lemma dom_update_if [simp]: "dom (\<lambda>a. if a = k then Some v else f a) = insert k (dom f)"
  by (auto split: if_splits)

lemma insert_loop_counts:
  assumes "insert_loop now ms ins upd s = (s', Inr (i, u))"
  shows "i + u = ins + upd + int (length ms)" "i = ins + int (card (getKey ` set ms - dom (map_of (docs s))))"
proof -
  have "i + u = ins + upd + int (length ms) \<and> i = ins + int (card (getKey ` set ms - dom (map_of (docs s))))"
    using assms
  proof (induction now ms ins upd s rule: insert_loop.induct)
    case (2 now m ms ins upd s)
    have v: "msg_Queue m \<noteq> []" "msg_ID m \<noteq> []" using "2.prems" by (auto split: if_splits)
    show ?case
    proof (cases "map_of (docs s) (getKey m)")
      case None
      let ?A = "getKey ` set ms - insert (getKey m) (dom (map_of (docs s)))"
      have "getKey ` set (m # ms) - dom (map_of (docs s)) = insert (getKey m) ?A" using None by auto
      then have "card (getKey ` set (m # ms) - dom (map_of (docs s))) = Suc (card ?A)" by simp
      then show ?thesis
        using 2(1) [OF v refl None refl refl] "2.prems" v None by (simp add: Let_def)
    next
      case (Some d)
      then have "getKey ` set (m # ms) - dom (map_of (docs s)) = getKey ` set ms - dom (map_of (docs s))"
        "insert (getKey m) (dom (map_of (docs s))) = dom (map_of (docs s))" by auto
      then show ?thesis using 2(2) [OF v refl Some] "2.prems" v Some by (simp add: Let_def)
    qed
  qed simp
  then show "i + u = ins + upd + int (length ms)" "i = ins + int (card (getKey ` set ms - dom (map_of (docs s))))" by blast+
qed

text \<open>
  C24: a successful insertion of any batch of messages, which may repeat keys, leaves under every key what its messages
  say: keys that the batch does not name keep their document; a document that was there keeps its identity and history
  (score, lock, counters, last use, internal id) and takes the content of the last message of the batch with its key; a
  new document has the identity of the first such message, with an internal id and a last use, and the
  content of the last one. The counts are the number of new keys and the number of the other messages.
\<close>

theorem memory_storage_upsert:
  assumes "MemoryStorage_Insert now s ms = (s', Inr (inserted, modified))"
  shows "(\<forall>k. upserted now (map_of (docs s) k) (filter (\<lambda>m. getKey m = k) ms) (map_of (docs s') k)) \<and>
    inserted = int (card (getKey ` set ms - dom (map_of (docs s)))) \<and> inserted + modified = int (length ms)"
  using insert_loop_upserted [OF assms [unfolded MemoryStorage_Insert_def]]
    insert_loop_counts [OF assms [unfolded MemoryStorage_Insert_def]] by simp

theorem memory_storage_upsert_witness:
  "let m = (sample_doc ''q'' ''a'' 9)\<lparr>msg_StringPayload := ''new''\<rparr>;
       (s', r) = MemoryStorage_Insert 0 sample_storage [m, sample_doc ''q'' ''c'' 1, m\<lparr>msg_StringPayload := ''last''\<rparr>]
   in r = Inr (1, 2) \<and> map_option msg_StringPayload (map_of (docs s') ''q:a'') = Some ''last'' \<and>
      map_option msg_Score (map_of (docs s') ''q:a'') = Some (Fin 5)"
proof -
  let ?m = "(sample_doc ''q'' ''a'' 9)\<lparr>msg_StringPayload := ''new''\<rparr>"
  let ?ms = "[?m, sample_doc ''q'' ''c'' 1, ?m\<lparr>msg_StringPayload := ''last''\<rparr>]"
  obtain s' r where i: "MemoryStorage_Insert 0 sample_storage ?ms = (s', r)" by (meson surj_pair)
  have r: "r = Inr (1, 2)"
    using i by (simp add: MemoryStorage_Insert_def sample_storage_def sample_doc_def getKey_def Let_def split: prod.splits)
  have k: "filter (\<lambda>m. getKey m = ''q:a'') ?ms = [?m, ?m\<lparr>msg_StringPayload := ''last''\<rparr>]"
    by (simp add: getKey_def sample_doc_def)
  have d: "map_of (docs sample_storage) ''q:a'' = Some (sample_stored ''q'' ''a'' 5 1)" by (simp add: sample_storage_def)
  have "upserted 0 (Some (sample_stored ''q'' ''a'' 5 1)) [?m, ?m\<lparr>msg_StringPayload := ''last''\<rparr>] (map_of (docs s') ''q:a'')"
    using memory_storage_upsert [OF i [unfolded r]] unfolding k [symmetric] d [symmetric] by blast
  then show ?thesis
    using i r by (auto simp: upserted_def content_of_def identity_of_def sample_stored_def sample_doc_def)
qed

text \<open>
  Every document stands under its own key. The internal ids of the documents are positive, at most the counter, and
  pairwise different.
\<close>

definition ids_inv :: "MemoryStorage \<Rightarrow> bool" where
  "ids_inv s \<longleftrightarrow> gomap_wf (docs s) \<and>
     (\<forall>k m. map_of (docs s) k = Some m \<longrightarrow>
        getKey m = k \<and> (\<exists>n. msg_InternalId m = IdInt n \<and> 0 < n \<and> n \<le> internalCounter s)) \<and>
     (\<forall>k k' m m'. map_of (docs s) k = Some m \<longrightarrow> map_of (docs s) k' = Some m' \<longrightarrow>
        msg_InternalId m = msg_InternalId m' \<longrightarrow> k = k') \<and> 0 \<le> internalCounter s"

text \<open>
  What a later state has: a document is one of the earlier documents, with its internal id, or its id is greater
  than the counter of the earlier state.
\<close>

definition ids_later :: "MemoryStorage \<Rightarrow> MemoryStorage \<Rightarrow> bool" where
  "ids_later s s' \<longleftrightarrow> internalCounter s \<le> internalCounter s' \<and>
     (\<forall>k m'. map_of (docs s') k = Some m' \<longrightarrow>
        (\<exists>m. map_of (docs s) k = Some m \<and> msg_InternalId m = msg_InternalId m') \<or>
        (\<exists>n. msg_InternalId m' = IdInt n \<and> internalCounter s < n))"

lemma ids_later_refl [simp]: "ids_later s s"
  by (simp add: ids_later_def)

lemma ids_later_trans: "ids_later s s1 \<Longrightarrow> ids_later s1 s2 \<Longrightarrow> ids_later s s2"
  by (fastforce simp: ids_later_def)

lemma ids_inv_new: "ids_inv NewMemoryStorage"
  by (simp add: ids_inv_def NewMemoryStorage_def gomap_wf_def)

lemma ids_update:
  assumes "ids_inv s" "map_of (docs s) k = Some d" "msg_InternalId d' = msg_InternalId d" "getKey d' = getKey d"
  shows "ids_inv (s\<lparr>docs := AList.update k d' (docs s)\<rparr>)" "ids_later s (s\<lparr>docs := AList.update k d' (docs s)\<rparr>)"
  using assms by (auto simp: ids_inv_def ids_later_def gomap_wf_def distinct_update)

lemma ids_add:
  fixes s :: MemoryStorage and m t
  defines "s' \<equiv> s\<lparr>internalCounter := internalCounter s + 1,
    docs := AList.update (getKey m) (m\<lparr>msg_InternalId := IdInt (internalCounter s + 1), msg_LastUsage := t\<rparr>) (docs s)\<rparr>"
  assumes "ids_inv s" "map_of (docs s) (getKey m) = None"
  shows "ids_inv s'" "ids_later s s'"
proof -
  show "ids_later s s'" by (simp add: ids_later_def s'_def)
  show "ids_inv s'"
    using assms(2,3) unfolding ids_inv_def s'_def
    by (auto simp: gomap_wf_def distinct_update getKey_def simp del: One_nat_def) force+
qed

lemma insert_loop_ids:
  assumes "insert_loop now ms ins upd s = (s', r)" "ids_inv s" "internalCounter s + int (length ms) < 2 ^ 63"
  shows "ids_inv s' \<and> ids_later s s' \<and> internalCounter s' \<le> internalCounter s + int (length ms)"
  using assms
proof (induction now ms ins upd s rule: insert_loop.induct)
  case (2 now m ms ins upd s)
  show ?case
  proof (cases "msg_Queue m = [] \<or> msg_ID m = []")
    case True
    then show ?thesis using 2 by (auto split: if_splits)
  next
    case False
    have r: "int64_range (internalCounter s + 1)" using "2.prems"(2,3) by (simp add: ids_inv_def int64_range_def)
    show ?thesis
    proof (cases "map_of (docs s) (getKey m)")
      case None
      let ?s = "s\<lparr>internalCounter := internalCounter s + 1,
        docs := AList.update (getKey m) (m\<lparr>msg_InternalId := IdInt (internalCounter s + 1), msg_LastUsage := Some now\<rparr>) (docs s)\<rparr>"
      note add = ids_add [OF "2.prems"(2) None, of "Some now"]
      have "ids_inv s' \<and> ids_later ?s s' \<and> internalCounter s' \<le> internalCounter s + 1 + int (length ms)"
        using 2(1) [OF _ _ refl None refl refl] "2.prems" False None add(1) by (simp add: Let_def wrap64_id [OF r])
      then show ?thesis using ids_later_trans [OF add(2), of s'] by simp
    next
      case (Some d)
      let ?s = "s\<lparr>docs := AList.update (getKey m) (update_doc d m) (docs s)\<rparr>"
      have upd: "ids_inv ?s" "ids_later s ?s" using ids_update [OF "2.prems"(2) Some, of "update_doc d m"] by simp_all
      have "ids_inv s' \<and> ids_later ?s s' \<and> internalCounter s' \<le> internalCounter s + int (length ms)"
        using 2(2) [OF _ _ refl Some] "2.prems" False Some upd(1) by (simp add: Let_def)
      then show ?thesis using ids_later_trans [OF upd(2), of s'] by simp
    qed
  qed
qed simp

text \<open>The writes of the storage, one after the other, and the number of messages they insert.\<close>

definition memory_storage_run :: "storage_op list \<Rightarrow> MemoryStorage \<Rightarrow> MemoryStorage" where
  "memory_storage_run = fold (storage_exec (memory_storage (\<lambda>ks. ks)))"

fun op_size :: "storage_op \<Rightarrow> nat" where
  "op_size (OpStore now ms) = length ms"
| "op_size _ = 0"

lemma ids_remove: "ids_inv s \<Longrightarrow> ids_inv (fst (MemoryStorage_Remove s q ids)) \<and> ids_later s (fst (MemoryStorage_Remove s q ids))"
proof -
  assume i: "ids_inv s"
  obtain P where s': "fst (MemoryStorage_Remove s q ids) = s\<lparr>docs := filter P (docs s)\<rparr>"
    by (simp add: MemoryStorage_Remove_def Let_def)
  have wf: "gomap_wf (docs s)" using i by (simp add: ids_inv_def)
  have m: "map_of (filter P (docs s)) k = Some m \<Longrightarrow> map_of (docs s) k = Some m" for k m
    using wf by (metis filter_is_subset gomap_wf_def map_of_SomeD map_of_eq_Some_iff subsetD)
  have "gomap_wf (filter P (docs s))" using wf by (simp add: gomap_wf_def distinct_map_filter)
  then show ?thesis using i m unfolding s' ids_inv_def ids_later_def by simp blast
qed

lemma ids_exec:
  assumes "ids_inv s" "internalCounter s + int (op_size op) < 2 ^ 63"
  shows "ids_inv (storage_exec (memory_storage ord) op s) \<and> ids_later s (storage_exec (memory_storage ord) op s) \<and>
    internalCounter (storage_exec (memory_storage ord) op s) \<le> internalCounter s + int (op_size op)"
proof (cases op)
  case (OpStore now ms)
  obtain s' r where "insert_loop now ms 0 0 s = (s', r)" by (meson surj_pair)
  with insert_loop_ids [OF this assms(1)] show ?thesis
    using assms(2) by (simp add: OpStore memory_storage_def MemoryStorage_Insert_def)
next
  case (OpDelete q ids)
  then show ?thesis using ids_remove [OF assms(1)] by (simp add: memory_storage_def MemoryStorage_Remove_def Let_def)
next
  case (OpAcked m)
  then show ?thesis
    using assms(1) ids_update [OF assms(1)] by (simp add: memory_storage_def MemoryStorage_Ack_def split: option.split)
next
  case (OpNacked m)
  then show ?thesis
    using assms(1) ids_update [OF assms(1)] by (simp add: memory_storage_def MemoryStorage_Nack_def split: option.split)
next
  case (OpConfigure cfg)
  then show ?thesis
    using assms(1) by (auto simp: memory_storage_def MemoryStorage_EditQueueConfiguration_def Let_def ids_inv_def ids_later_def)
next
  case OpDeleteAll
  then show ?thesis
    using assms(1) by (simp add: memory_storage_def MemoryStorage_Flush_def Let_def ids_inv_def ids_later_def gomap_wf_def)
qed

lemma ids_run:
  "ids_inv s \<Longrightarrow> internalCounter s + int (sum_list (map op_size ops)) < 2 ^ 63 \<Longrightarrow>
   ids_inv (memory_storage_run ops s) \<and> ids_later s (memory_storage_run ops s) \<and>
   internalCounter (memory_storage_run ops s) \<le> internalCounter s + int (sum_list (map op_size ops))"
proof (induction ops arbitrary: s)
  case (Cons op ops)
  let ?s = "storage_exec (memory_storage (\<lambda>ks. ks)) op s"
  have e: "ids_inv ?s \<and> ids_later s ?s \<and> internalCounter ?s \<le> internalCounter s + int (op_size op)"
    using ids_exec [OF Cons.prems(1), of op "\<lambda>ks. ks"] Cons.prems(2) by simp
  then have "internalCounter ?s + int (sum_list (map op_size ops)) < 2 ^ 63" using Cons.prems(2) by simp
  with Cons.IH [of ?s] e ids_later_trans [of s ?s] show ?case by (auto simp: memory_storage_run_def)
qed (simp add: memory_storage_run_def)

lemma ids_run_new:
  "int (sum_list (map op_size ops)) < 2 ^ 63 \<Longrightarrow> ids_inv (memory_storage_run ops NewMemoryStorage)"
  using ids_run [OF ids_inv_new] by (simp add: NewMemoryStorage_def)



text \<open>
  C29: two messages of different queues overwrite each other when their texts \<^verbatim>\<open>queue:id\<close> agree. In every storage
  reached by writes, where that key is free, the second of two such messages is counted as an update: the one document under the key has the
  queue, the id and the score of the first message and the content of the second, and no document has the
  second message's queue and id.
\<close>

theorem memory_storage_key_collision:
  fixes ops :: "storage_op list"
  assumes "int (sum_list (map op_size ops)) + 2 < 2 ^ 63" "s = memory_storage_run ops NewMemoryStorage"
    "getKey m1 = getKey m2" "message_key m1 \<noteq> message_key m2"
    "msg_Queue m1 \<noteq> []" "msg_ID m1 \<noteq> []" "msg_Queue m2 \<noteq> []" "msg_ID m2 \<noteq> []" "map_of (docs s) (getKey m1) = None"
  shows "\<exists>s' d. MemoryStorage_Insert now s [m1, m2] = (s', Inr (1, 1)) \<and> map_of (docs s') (getKey m2) = Some d \<and>
    message_key d = message_key m1 \<and> msg_Score d = msg_Score m1 \<and> content_of d = content_of m2 \<and>
    message_key m2 \<notin> ms_stored s'"
proof -
  obtain s' where i: "MemoryStorage_Insert now s [m1, m2] = (s', Inr (1, 1))"
    using assms(3-9) by (auto simp: MemoryStorage_Insert_def Let_def)
  have inv: "ids_inv s" "internalCounter s + 2 < 2 ^ 63"
    using ids_run [OF ids_inv_new, of ops] assms(1,2) by (simp_all add: NewMemoryStorage_def)
  have inv': "ids_inv s'"
    using insert_loop_ids [OF i [unfolded MemoryStorage_Insert_def] inv(1)] inv(2) by simp
  have "upserted now None [m1, m2] (map_of (docs s') (getKey m2))"
    using insert_loop_upserted [OF i [unfolded MemoryStorage_Insert_def], of "getKey m2"] assms(3,9) by simp
  then obtain d where d: "map_of (docs s') (getKey m2) = Some d" "message_key d = message_key m1" "msg_Score d = msg_Score m1"
      "content_of d = content_of m2"
    by (auto simp: upserted_def identity_of_def message_key_def)
  have "message_key m2 \<notin> ms_stored s'"
  proof
    assume "message_key m2 \<in> ms_stored s'"
    then obtain k m where m: "map_of (docs s') k = Some m" "message_key m = message_key m2"
      by (auto simp: ms_stored_def ran_def)
    have "getKey m = k" using inv' m(1) by (auto simp: ids_inv_def)
    then have "k = getKey m2" using m(2) by (auto simp: getKey_def message_key_def)
    then show False using m d assms(4) by simp
  qed
  then show ?thesis using i d by blast
qed

theorem memory_storage_key_collision_witness:
  "\<exists>s' d. MemoryStorage_Insert 0 NewMemoryStorage [sample_doc ''a'' ''b:c'' 1, sample_doc ''a:b'' ''c'' 2] = (s', Inr (1, 1)) \<and>
     map_of (docs s') ''a:b:c'' = Some d \<and> message_key d = (''a'', ''b:c'') \<and> (''a:b'', ''c'') \<notin> ms_stored s'"
  using memory_storage_key_collision [of "[]" NewMemoryStorage "sample_doc ''a'' ''b:c'' 1" "sample_doc ''a:b'' ''c'' 2" 0]
  by (auto simp: memory_storage_run_def sample_doc_def getKey_def message_key_def NewMemoryStorage_def)

section \<open>Removal and statistics\<close>

lemma hits_distinct:
  "distinct ids \<Longrightarrow> remove_hits q ids m = (if msg_Queue m = q \<and> msg_ID m \<in> set ids then 1 else 0)"
proof (induction ids)
  case (Cons i ids)
  then show ?case by (auto simp: remove_hits_def filter_empty_conv)
qed (simp add: remove_hits_def)

lemma sum_hits:
  assumes "distinct ids"
  shows "(\<Sum>(k, m)\<leftarrow>ds. remove_hits q ids m) +
    length (filter (\<lambda>(k, m). \<not> (msg_Queue m = q \<and> msg_ID m \<in> set ids)) ds) = length ds"
  by (induction ds) (auto simp: hits_distinct [OF assms])

text \<open>
  C27: \<^verbatim>\<open>Remove\<close> deletes exactly the documents of the queue with the given ids. For ids without repetition it
  returns how many documents it deleted.
\<close>

theorem memory_storage_remove:
  assumes "ms_inv s" "MemoryStorage_Remove s q ids = (s', r)"
  shows "ms_stored s' = ms_stored s - {q} \<times> set ids \<and> ms_inv s' \<and>
    (distinct ids \<longrightarrow> r = Inr (int (length (docs s)) - int (length (docs s'))))"
proof -
  have s': "docs s' = filter (\<lambda>(k, m). \<not> (msg_Queue m = q \<and> msg_ID m \<in> set ids)) (docs s)"
    and r: "r = Inr (int (\<Sum>(k, m)\<leftarrow>docs s. remove_hits q ids m))"
    using assms(2) by (auto simp: Remove_eq)
  have "r = Inr (int (length (docs s)) - int (length (docs s')))" if "distinct ids"
    using sum_hits [OF that, of q "docs s"] unfolding s' r by (intro arg_cong [of _ _ Inr]) linarith
  then show ?thesis using ms_remove_stored(1,2) [OF assms] by blast
qed

theorem memory_storage_remove_witness:
  "let (s', r) = MemoryStorage_Remove sample_storage ''q'' [''a'', ''z'']
   in ms_stored s' = {(''q'', ''b'')} \<and> r = Inr 1"
proof -
  obtain s' r where p: "MemoryStorage_Remove sample_storage ''q'' [''a'', ''z''] = (s', r)" by (meson surj_pair)
  have st: "ms_stored sample_storage = {(''q'', ''a''), (''q'', ''b'')}"
    by (simp add: ms_stored_def sample_storage_def sample_stored_def sample_doc_def message_key_def)
  have d: "length (docs sample_storage) = 2" by (simp add: sample_storage_def)
  have d': "length (docs (fst (MemoryStorage_Remove sample_storage ''q'' [''a'', ''z'']))) = 1"
    by (simp add: Remove_eq sample_storage_def sample_stored_def sample_doc_def)
  show ?thesis
    using memory_storage_remove [OF sample_storage_inv p] d d' unfolding p st by (simp add: Let_def)
qed

definition acks_of :: "(MessageDiagnostics \<Rightarrow> int64 option) \<Rightarrow> Message \<Rightarrow> int64" where
  "acks_of f d = (case msg_Diagnostics d of None \<Rightarrow> 0 | Some g \<Rightarrow> (case f g of None \<Rightarrow> 0 | Some n \<Rightarrow> n))"

text \<open>
  C28: an ack or a nack of a stored message updates that document only. It takes score and lock of the
  message given, adds one to its own total and consecutive counters, resets the consecutive counter of
  the other kind to zero, and keeps the other total; counters that were absent count as zero.
\<close>

theorem memory_storage_ack_nack:
  assumes "map_of (docs s) (getKey m) = Some d"
  shows "\<exists>a n. MemoryStorage_Ack s m = (s\<lparr>docs := AList.update (getKey m) a (docs s)\<rparr>, Inr 1) \<and>
    MemoryStorage_Nack s m = (s\<lparr>docs := AList.update (getKey m) n (docs s)\<rparr>, Inr 1) \<and>
    msg_Score a = msg_Score m \<and> msg_LockMs a = msg_LockMs m \<and>
    msg_UsageCount a = wrap64 (msg_UsageCount d + 1) \<and>
    msg_Score n = msg_Score m \<and> msg_LockMs n = msg_LockMs m \<and> msg_UsageCount n = msg_UsageCount d \<and>
    msg_Diagnostics a = Some \<lparr>dg_Acks = Some (wrap64 (acks_of dg_Acks d + 1)), dg_Nacks = Some (acks_of dg_Nacks d),
      dg_ConsecutiveAcks = Some (wrap64 (acks_of dg_ConsecutiveAcks d + 1)), dg_ConsecutiveNacks = Some 0\<rparr> \<and>
    msg_Diagnostics n = Some \<lparr>dg_Acks = Some (acks_of dg_Acks d), dg_Nacks = Some (wrap64 (acks_of dg_Nacks d + 1)),
      dg_ConsecutiveAcks = Some 0, dg_ConsecutiveNacks = Some (wrap64 (acks_of dg_ConsecutiveNacks d + 1))\<rparr>"
  by (rule exI [of _ "ack_doc d m"], rule exI [of _ "nack_doc d m"])
     (simp add: assms MemoryStorage_Ack_def MemoryStorage_Nack_def ack_doc_def nack_doc_def
       setDiagnosticsStruct_def acks_of_def incr_def Let_def split: option.split)

theorem memory_storage_ack_nack_witness:
  "map_of (docs sample_storage) (getKey (sample_doc ''q'' ''a'' 7)) = Some (sample_stored ''q'' ''a'' 5 1) \<and>
   (\<exists>a. MemoryStorage_Ack sample_storage (sample_doc ''q'' ''a'' 7) =
     (sample_storage\<lparr>docs := AList.update ''q:a'' a (docs sample_storage)\<rparr>, Inr 1) \<and> msg_Score a = Fin 7)"
proof -
  have k: "getKey (sample_doc ''q'' ''a'' 7) = ''q:a''" by (simp add: getKey_def sample_doc_def)
  have d: "map_of (docs sample_storage) (getKey (sample_doc ''q'' ''a'' 7)) = Some (sample_stored ''q'' ''a'' 5 1)"
    unfolding k by (simp add: sample_storage_def)
  have "msg_Score (sample_doc ''q'' ''a'' 7) = Fin 7" by (simp add: sample_doc_def)
  then show ?thesis using memory_storage_ack_nack [OF d] d unfolding k by metis
qed

end
