(* ===== verification/Memory_Cache_Order.thy ===== *)
theory Memory_Cache_Order
  imports Memory_Cache_Contract
begin

text \<open>
  Every list of the memory cache is ordered by score as long as no message with the score NaN comes in,
  so that a pull takes the messages of the lowest scores first. The properties of the memory cache.
\<close>

section \<open>Lists ordered by score\<close>

definition view_ordered :: "view \<Rightarrow> bool" where
  "view_ordered v \<longleftrightarrow> (\<forall>p q. score_sorted (v p q))"

abbreviation mc_ordered :: "MemoryCache \<Rightarrow> bool" where
  "mc_ordered c \<equiv> view_ordered (cview c)"

lemma view_orderedD: "view_ordered v \<Longrightarrow> score_sorted (v p q)"
  by (simp add: view_ordered_def)

lemma view_ordered_vput: "view_ordered v \<Longrightarrow> score_sorted l \<Longrightarrow> view_ordered (vput v p q l)"
  by (simp add: view_ordered_def vput_apply)

lemma view_ordered_vmove: "view_ordered v \<Longrightarrow> e_score e \<noteq> NaN \<Longrightarrow> view_ordered (vmove v p p' q e)"
  unfolding vmove_def
  by (intro view_ordered_vput score_sorted_put score_sorted_del_id) (simp_all add: view_ordered_def)

lemma score_sorted_fold_put:
  "score_sorted l \<Longrightarrow> \<forall>e\<in>set es. e_score e \<noteq> NaN \<Longrightarrow> score_sorted (fold put_entry es l)"
  by (induction es arbitrary: l) (simp_all add: score_sorted_put)

lemma score_sorted_fold_del: "score_sorted l \<Longrightarrow> score_sorted (fold del_id is l)"
  by (induction "is" arbitrary: l) (simp_all add: score_sorted_del_id)

lemma score_Min_not_NaN [simp]: "score_Min \<noteq> NaN"
  by (simp add: score_consts)

fun op_messages :: "cache_op \<Rightarrow> Message list" where
  "op_messages (OpInsert q ms) = ms"
| "op_messages (OpMakeAvailable m) = [m]"
| "op_messages (OpLock now m t) = [m]"
| "op_messages _ = []"

definition scored :: "cache_op \<Rightarrow> bool" where
  "scored op \<longleftrightarrow> list_all (\<lambda>m. msg_Score m \<noteq> NaN) (op_messages op)"

lemma Insert_ordered:
  assumes "mc_ordered c" "\<forall>m\<in>set ms. msg_Score m \<noteq> NaN" "MemoryCache_Insert c q ms = (c', r)"
  shows "mc_ordered c'"
proof (cases r)
  case (Inl e)
  then show ?thesis using assms mc_errors_change_nothing(1) by blast
next
  case (Inr l)
  have "\<forall>e\<in>set (map createEntry (new_messages (cview c) q ms)). e_score e \<noteq> NaN"
    using assms(2) by (auto simp: new_messages_def createEntry_def)
  then show ?thesis
    using assms(1) unfolding Insert_view(2) [OF assms(3) [unfolded Inr]]
    by (intro view_ordered_vput score_sorted_fold_put) (auto dest: view_orderedD)
qed

lemma Pull_ordered:
  assumes "mc_ordered c" "MemoryCache_PullMessages now c q n lo hi ack = (c', r)"
  shows "mc_ordered c'"
proof (cases "0 \<le> n")
  case True
  let ?l = "cview c PRIMARY_POOL q"
  have l: "score_sorted ?l" "score_sorted (cview c PROCESSING_POOL q)" using assms(1) by (auto dest: view_orderedD)
  have "score_sorted (pull_rest lo hi n ?l)"
    unfolding pull_rest_def using l(1)
    by (intro score_sorted_fold_put score_sorted_drop) (auto simp: score_sorted_def dest: in_set_takeD)
  moreover have "score_sorted (fold put_entry (map (processing_entry d) (pull_taken lo hi n ?l))
      (cview c PROCESSING_POOL q))" for d
    using l(2) by (intro score_sorted_fold_put) (auto simp: processing_entry_def float_of_int_not_NaN)
  ultimately show ?thesis
    unfolding PullMessages_view(2) [OF assms(2) True] using assms(1) by (intro view_ordered_vput)
next
  case False
  then have "c' = c"
    using assms(2) by (auto simp: MemoryCache_PullMessages_def MinInt64_def Let_def split: option.splits if_splits)
  then show ?thesis using assms(1) by simp
qed

lemma unlock_queue_ordered:
  assumes "mc_inv c" "mc_ordered c" "ds \<noteq> NaN" "unlock_queue (NowMs now) ds t q (c, u) = (c', u')"
  shows "mc_ordered c'"
proof (cases "List.extract (unlock_ready now) (cview c (lock_pool t) q)")
  case None
  then show ?thesis using unlock_queue_view(1) [OF assms(4,1)] assms(2) by simp
next
  case (Some x)
  obtain a e b where x: "x = (a, e, b)" by (cases x)
  have "e \<in> set (cview c (lock_pool t) q)" using Some x by (auto simp: extract_Some_iff)
  then have "e_score (unlocked_entry ds e) \<noteq> NaN"
    using assms(2,3) by (auto simp: unlocked_entry_def view_ordered_def score_sorted_def)
  moreover have "cview c' = vmove (cview c) (lock_pool t) PRIMARY_POOL q (unlocked_entry ds e)"
    using unlock_queue_view(1) [OF assms(4,1)] Some x by simp
  ultimately show ?thesis using assms(2) view_ordered_vmove by simp
qed

lemma unlock_fold_ordered:
  assumes "mc_inv c" "mc_ordered c" "ds \<noteq> NaN"
    "fold (unlock_queue (NowMs now) ds t) qs (c, u) = (c', u')"
  shows "mc_ordered c'"
  using assms
proof (induction qs arbitrary: c u)
  case (Cons q qs)
  obtain c1 u1 where 1: "unlock_queue (NowMs now) ds t q (c, u) = (c1, u1)" by (meson surj_pair)
  show ?case
    using Cons.IH [of c1 u1] unlock_queue_ids(2) [OF 1 Cons.prems(1)]
      unlock_queue_ordered [OF Cons.prems(1-3) 1] Cons.prems(3,4) 1 by simp
qed simp

lemma default_score_not_NaN: "GetScoreByDefaultAlgorithm now \<noteq> NaN"
  by (simp add: GetScoreByDefaultAlgorithm_def float_of_int_not_NaN)

lemma Timeout_ordered:
  assumes "mc_inv c" "mc_ordered c" "MemoryCache_TimeoutMessages now c q = (c', r)"
  shows "mc_ordered c'"
  using TimeoutMessages_view(1) [OF assms(3,1)] assms(2)
  by (auto simp: view_ordered_vmove split: option.splits)

lemma exec_ordered:
  assumes "mc_inv c" "mc_ordered c" "scored op"
  shows "mc_ordered (cache_exec (memory_cache ord glob) op c)"
proof (cases op)
  case (OpInsert q ms)
  then show ?thesis
    using Insert_ordered [OF assms(2) _ prod.collapse [symmetric]] assms(3)
    by (simp add: memory_cache_def scored_def list_all_iff)
next
  case (OpPull now q n lo hi ack)
  then show ?thesis
    using Pull_ordered [OF assms(2) prod.collapse [symmetric]] by (simp add: memory_cache_def)
next
  case (OpMakeAvailable m)
  then show ?thesis
    using MakeAvailable_view(2) [OF prod.collapse [symmetric], of m c] assms(2,3) view_ordered_vmove
    by (cases "msg_Queue m = []")
       (simp_all add: memory_cache_def MemoryCache_MakeAvailable_def scored_def createEntry_def)
next
  case (OpLock now m t)
  then show ?thesis
    using LockMessage_view(2) [OF prod.collapse [symmetric], of m now c t] assms(2,3) view_ordered_vmove
    by (cases "msg_Queue m = [] \<or> msg_LockMs m \<le> 0")
       (auto simp: memory_cache_def MemoryCache_LockMessage_def scored_def createEntry_def locked_entry_def)
next
  case (OpUnlock now q t)
  let ?ds = "if t = LOCK_ACK then GetScoreByDefaultAlgorithm now else score_Min"
  have "?ds \<noteq> NaN" by (simp add: default_score_not_NaN)
  then show ?thesis
    using OpUnlock unlock_fold_ordered [OF assms(1,2), of ?ds now t "ord (map fst (lock_map c t))" "[]"]
    by (auto simp: memory_cache_def MemoryCache_UnlockMessages_def Let_def split: prod.splits)
next
  case (OpTimeout now q)
  then show ?thesis
    using Timeout_ordered [OF assms(1,2) prod.collapse [symmetric]] by (simp add: memory_cache_def)
next
  case (OpSet k v)
  then show ?thesis
    using assms(2) by (simp add: memory_cache_def MemoryCache_Set_def view_ordered_def cview_def)
next
  case (OpRemove q ids)
  obtain c' n e where "MemoryCache_Remove c q ids = (c', n, e)" by (metis surj_pair)
  then show ?thesis
    using OpRemove Remove_view(1) [of c q ids c' n e] assms(2)
    by (simp add: memory_cache_def view_ordered_def score_sorted_fold_del)
next
  case OpFlush
  then show ?thesis
    by (simp add: memory_cache_def view_ordered_def MemoryCache_Flush_def cview_def pool_map_def
        split: PoolType.split)
qed

end
