(* ===== verification/Memory_Cache_Props.thy ===== *)
theory Memory_Cache_Props
  imports Memory_Cache_Order
begin

text \<open>
  The properties of \<^verbatim>\<open>internal/queue/cache/memory_cache.go\<close>. A sequence of calls is a list of
  operations that starts from \<^verbatim>\<open>NewMemoryCache\<close>; the iteration order of maps and the pattern matcher
  are arbitrary.
\<close>

definition mem_run ::
    "(string list \<Rightarrow> string list) \<Rightarrow> (string \<Rightarrow> string \<Rightarrow> bool) \<Rightarrow> cache_op list \<Rightarrow> MemoryCache" where
  "mem_run ord glob ops = fold (cache_exec (memory_cache ord glob)) ops NewMemoryCache"

definition sample_message :: "string \<Rightarrow> rat \<Rightarrow> int64 \<Rightarrow> Message" where
  "sample_message i s lock =
     zero_Message\<lparr>msg_ID := i, msg_Queue := ''q'', msg_Score := Fin s, msg_LockMs := lock\<rparr>"

abbreviation sample_run :: "cache_op list \<Rightarrow> MemoryCache" where
  "sample_run \<equiv> mem_run (\<lambda>qs. qs) (\<lambda>p q. False)"

context map_order
begin

lemma run_inv: "mc_inv (mem_run ord glob ops)"
  unfolding mem_run_def by (rule mc.any_run_inv [OF _ mc_inv_new]) (simp add: list_all_iff)

lemma run_step: "mem_run ord glob (ops @ [op]) = cache_exec (memory_cache ord glob) op (mem_run ord glob ops)"
  by (simp add: mem_run_def)

lemma run_lifecycle:
  "lifecycle_opt (location (mc_ids (mem_run ord glob ops)) q i)
     (location (mc_ids (mem_run ord glob (ops @ [op]))) q i)"
  unfolding run_step by (rule mc.any_exec_effect(2) [OF _ run_inv]) simp

lemma run_keeps:
  assumes "list_all (\<lambda>op. \<not> is_removal op) ops'"
  shows "known_ids (mc_ids (mem_run ord glob ops)) q \<subseteq> known_ids (mc_ids (mem_run ord glob (ops @ ops'))) q"
  using mc.steps_keep [OF cache_exec_steps [OF assms, of "\<lambda>n. True" "memory_cache ord glob" "mem_run ord glob ops"] run_inv]
  by (simp add: mem_run_def list_all_iff)

lemma run_ordered: "list_all scored ops \<Longrightarrow> mc_ordered (mem_run ord glob ops)"
proof (induction ops rule: rev_induct)
  case Nil
  then show ?case
    by (simp add: mem_run_def view_ordered_def NewMemoryCache_def cview_def pool_map_def split: PoolType.split)
next
  case (snoc op ops)
  then show ?case using exec_ordered [OF run_inv, of ops op] by (simp add: run_step)
qed

end

section \<open>Where messages are\<close>

text \<open>
  C15: after any sequence of calls on a new cache, no queue holds an id twice: neither twice in one pool
  nor in two of the pools available, processing, locked after an ack and locked after a nack.
\<close>

theorem memory_cache_unique:
  assumes "any_order ord"
  shows "distinct (entry_ids (queue_entries (cview (mem_run ord glob ops)) q))"
  using map_order.run_inv [OF map_order.intro [OF assms], of glob ops]
  by (simp add: mc_inv_def view_inv_def)

theorem memory_cache_unique_witness:
  "any_order (\<lambda>qs :: string list. qs) \<and>
   (let ops = [OpInsert ''q'' [sample_message ''a'' 5 0, sample_message ''b'' 3 0],
               OpPull 0 ''q'' 1 None None 0, OpInsert ''q'' [sample_message ''b'' 1 0]]
    in entry_ids (queue_entries (cview (sample_run ops)) ''q'') = [''a'', ''b''] \<and>
       distinct (entry_ids (queue_entries (cview (sample_run ops)) ''q'')))"
  unfolding Let_def
proof (intro conjI)
  show "any_order (\<lambda>qs :: string list. qs)" by simp
  then show "distinct (entry_ids (queue_entries (cview (sample_run
      [OpInsert ''q'' [sample_message ''a'' 5 0, sample_message ''b'' 3 0],
       OpPull 0 ''q'' 1 None None 0, OpInsert ''q'' [sample_message ''b'' 1 0]])) ''q''))"
    by (rule memory_cache_unique)
qed code_simp

text \<open>
  C16: after any sequence of calls, one more call leaves a message where it is or moves it along one edge
  of the lifecycle: a new message becomes available, an available one goes to processing, one in
  processing becomes available or locked, a locked one becomes available, any of them is removed.
\<close>

theorem memory_cache_lifecycle:
  assumes "any_order ord"
  shows "location (mc_ids (mem_run ord glob ops)) q i = location (mc_ids (mem_run ord glob (ops @ [op]))) q i \<or>
    lifecycle (location (mc_ids (mem_run ord glob ops)) q i)
      (location (mc_ids (mem_run ord glob (ops @ [op]))) q i)"
  using map_order.run_lifecycle [OF map_order.intro [OF assms]] .

theorem memory_cache_lifecycle_witness:
  "any_order (\<lambda>qs :: string list. qs) \<and>
   lifecycle (location (mc_ids (sample_run [OpInsert ''q'' [sample_message ''a'' 5 0]])) ''q'' ''a'')
     (location (mc_ids (sample_run
        ([OpInsert ''q'' [sample_message ''a'' 5 0]] @ [OpPull 0 ''q'' 1 None None 0]))) ''q'' ''a'')"
proof
  show o: "any_order (\<lambda>qs :: string list. qs)" by simp
  have "location (mc_ids (sample_run [OpInsert ''q'' [sample_message ''a'' 5 0]])) ''q'' ''a'' \<noteq>
    location (mc_ids (sample_run
      ([OpInsert ''q'' [sample_message ''a'' 5 0]] @ [OpPull 0 ''q'' 1 None None 0]))) ''q'' ''a''"
    unfolding mc_ids_def location_def by code_simp
  then show "lifecycle (location (mc_ids (sample_run [OpInsert ''q'' [sample_message ''a'' 5 0]])) ''q'' ''a'')
     (location (mc_ids (sample_run
        ([OpInsert ''q'' [sample_message ''a'' 5 0]] @ [OpPull 0 ''q'' 1 None None 0]))) ''q'' ''a'')"
    using memory_cache_lifecycle [OF o] by blast
qed

text \<open>
  C17: calls other than \<^verbatim>\<open>Remove\<close> and \<^verbatim>\<open>Flush\<close>, in any number and any order, never lose a message: each
  id that some pool of a queue holds is held by some pool of the queue afterwards.
\<close>

theorem memory_cache_no_loss:
  assumes "any_order ord" "list_all (\<lambda>op. \<not> is_removal op) ops'"
  shows "known_ids (mc_ids (mem_run ord glob ops)) q \<subseteq> known_ids (mc_ids (mem_run ord glob (ops @ ops'))) q"
  using map_order.run_keeps [OF map_order.intro [OF assms(1)] assms(2)] .

theorem memory_cache_no_loss_witness:
  "any_order (\<lambda>qs :: string list. qs) \<and> list_all (\<lambda>op. \<not> is_removal op) [OpPull 0 ''q'' 1 None None 0] \<and>
   ''a'' \<in> known_ids (mc_ids (sample_run
     ([OpInsert ''q'' [sample_message ''a'' 5 0]] @ [OpPull 0 ''q'' 1 None None 0]))) ''q''"
proof (intro conjI)
  show o: "any_order (\<lambda>qs :: string list. qs)" by simp
  show l: "list_all (\<lambda>op. \<not> is_removal op) [OpPull 0 ''q'' 1 None None 0]" by simp
  have "''a'' \<in> known_ids (mc_ids (sample_run [OpInsert ''q'' [sample_message ''a'' 5 0]])) ''q''"
    unfolding mc_known_ids by code_simp
  then show "''a'' \<in> known_ids (mc_ids (sample_run
     ([OpInsert ''q'' [sample_message ''a'' 5 0]] @ [OpPull 0 ''q'' 1 None None 0]))) ''q''"
    using memory_cache_no_loss [OF o l] by blast
qed

section \<open>In which order messages are pulled\<close>

text \<open>
  C18: after any sequence of calls whose messages have scores other than NaN, a pull without score
  limits delivers the first \<open>n\<close> available messages, and no message that stays available has a lower
  score than a delivered one.
\<close>

theorem memory_cache_priority:
  assumes "any_order ord" "list_all scored ops" "0 \<le> n"
    and "MemoryCache_PullMessages now (mem_run ord glob ops) q n None None ack = (c', r)"
  shows "r = Inr (entry_ids (take (nat n) (cview (mem_run ord glob ops) PRIMARY_POOL q))) \<and>
    cview c' PRIMARY_POOL q = drop (nat n) (cview (mem_run ord glob ops) PRIMARY_POOL q) \<and>
    (\<forall>a\<in>set (take (nat n) (cview (mem_run ord glob ops) PRIMARY_POOL q)).
     \<forall>b\<in>set (cview c' PRIMARY_POOL q). e_score a \<le> e_score b)"
proof -
  let ?l = "cview (mem_run ord glob ops) PRIMARY_POOL q"
  have f: "in_filter None None = (\<lambda>e. True)" by (simp add: in_filter_def fun_eq_iff)
  note v = PullMessages_view(1,2) [OF assms(4,3)]
  have d: "cview c' PRIMARY_POOL q = drop (nat n) ?l"
    by (simp add: v(2) vput_apply pull_rest_def f)
  have "sorted_wrt (\<lambda>a b. e_score a \<le> e_score b) (take (nat n) ?l @ drop (nat n) ?l)"
    using map_order.run_ordered [OF map_order.intro [OF assms(1)] assms(2), of glob]
    by (simp add: view_ordered_def score_sorted_def)
  then show ?thesis
    unfolding d sorted_wrt_append using v(1) by (auto simp: pull_taken_def f)
qed

theorem memory_cache_priority_witness:
  "let ops = [OpInsert ''q'' [sample_message ''a'' 5 0, sample_message ''b'' 3 0]];
       c = sample_run ops; (c', r) = MemoryCache_PullMessages 0 c ''q'' 1 None None 0
   in any_order (\<lambda>qs :: string list. qs) \<and> list_all scored ops \<and> r = Inr [''b''] \<and>
      r = Inr (entry_ids (take 1 (cview c PRIMARY_POOL ''q''))) \<and>
      cview c' PRIMARY_POOL ''q'' = drop 1 (cview c PRIMARY_POOL ''q'')"
proof -
  let ?ops = "[OpInsert ''q'' [sample_message ''a'' 5 0, sample_message ''b'' 3 0]]"
  let ?c = "sample_run ?ops"
  obtain c' r where p: "MemoryCache_PullMessages 0 ?c ''q'' 1 None None 0 = (c', r)" by (meson surj_pair)
  have s: "list_all scored ?ops" by (simp add: scored_def sample_message_def)
  have "snd (MemoryCache_PullMessages 0 ?c ''q'' 1 None None 0) = Inr [''b'']" by code_simp
  then show ?thesis
    using memory_cache_priority [OF any_order_id(1) s _ p] s p by (simp add: Let_def)
qed

text \<open>
  C19: \<^verbatim>\<open>TimeoutMessages\<close> on a queue in whose processing pool no deadline is over changes nothing and reports
  nothing; otherwise it returns to the available pool exactly one message, the first one of the
  processing pool, whose deadline is the earliest, and makes its score the smallest one.
\<close>

theorem timeout_earliest:
  assumes "any_order ord" "list_all scored ops"
    and "MemoryCache_TimeoutMessages now (mem_run ord glob ops) q = (c', r)"
  shows "case cview (mem_run ord glob ops) PROCESSING_POOL q of
      [] \<Rightarrow> c' = mem_run ord glob ops \<and> r = Inr []
    | e # rest \<Rightarrow>
        (\<forall>e'\<in>set rest. e_score e \<le> e_score e') \<and>
        (if e_score e \<le> float_of_int (Unix now)
        then r = Inr [e_id e] \<and> cview c' PROCESSING_POOL q = rest \<and>
             cview c' PRIMARY_POOL q =
               put_entry (e\<lparr>e_score := score_Min\<rparr>) (cview (mem_run ord glob ops) PRIMARY_POOL q)
        else c' = mem_run ord glob ops \<and> r = Inr [])"
proof -
  let ?c = "mem_run ord glob ops"
  let ?t = "float_of_int (Unix now)"
  have mo: "map_order ord" using assms(1) by (rule map_order.intro)
  have s: "score_sorted (cview ?c PROCESSING_POOL q)"
    using map_order.run_ordered [OF mo assms(2), of glob] by (simp add: view_ordered_def)
  note v = TimeoutMessages_view(1) [OF assms(3) map_order.run_inv [OF mo]]
  show ?thesis
  proof (cases "cview ?c PROCESSING_POOL q")
    case Nil
    then show ?thesis using v by (simp add: extract_Nil_code)
  next
    case (Cons e rest)
    then have later: "\<forall>e'\<in>set rest. e_score e \<le> e_score e'"
      using s by (simp add: score_sorted_def)
    have "List.extract (\<lambda>e. e_score e \<le> ?t) (e # rest) = None" if "\<not> e_score e \<le> ?t"
      using that later unfolding extract_None_iff by (auto dest: float_le_trans)
    moreover have "List.extract (\<lambda>e. e_score e \<le> ?t) (e # rest) = Some ([], e, rest)" if "e_score e \<le> ?t"
      using that by (simp add: extract_Cons_code)
    ultimately show ?thesis
      using v Cons later by (cases "e_score e \<le> ?t") (simp_all add: vmove_def vput_apply)
  qed
qed

theorem timeout_earliest_witness:
  "let ops = [OpInsert ''q'' [sample_message ''a'' 5 0, sample_message ''b'' 3 0],
              OpPull 0 ''q'' 2 None None 10];
       c = sample_run ops; (c', r) = MemoryCache_TimeoutMessages 20000000000 c ''q''
   in any_order (\<lambda>qs :: string list. qs) \<and> list_all scored ops \<and> r = Inr [''a''] \<and>
      (case cview c PROCESSING_POOL ''q'' of [] \<Rightarrow> False | e # rest \<Rightarrow> cview c' PROCESSING_POOL ''q'' = rest)"
proof -
  let ?ops = "[OpInsert ''q'' [sample_message ''a'' 5 0, sample_message ''b'' 3 0],
              OpPull 0 ''q'' 2 None None 10]"
  let ?c = "sample_run ?ops"
  obtain c' r where p: "MemoryCache_TimeoutMessages 20000000000 ?c ''q'' = (c', r)" by (meson surj_pair)
  have s: "list_all scored ?ops" by (simp add: scored_def sample_message_def)
  have "snd (MemoryCache_TimeoutMessages 20000000000 ?c ''q'') = Inr [''a'']" by code_simp
  then show ?thesis
    using timeout_earliest [OF any_order_id(1) s p] s p
    by (auto simp: Let_def split: list.splits if_splits)
qed

text \<open>
  C20: \<^verbatim>\<open>Remove\<close> deletes the given ids from all four pools of the queue and touches nothing else, and it
  returns the number of messages the queue held before minus the number it holds afterwards.
\<close>

theorem memory_cache_remove:
  assumes "any_order ord" "MemoryCache_Remove (mem_run ord glob ops) q ids = (c', n, err)"
  shows "err = None \<and>
    (\<forall>p q'. cview c' p q' = (if q' = q
        then filter (\<lambda>e. e_id e \<notin> set ids) (cview (mem_run ord glob ops) p q')
        else cview (mem_run ord glob ops) p q')) \<and>
    n = int (card (known_ids (mc_ids (mem_run ord glob ops)) q \<inter> set ids))"
proof -
  let ?v = "cview (mem_run ord glob ops)"
  have vi: "view_inv ?v"
    using map_order.run_inv [OF map_order.intro [OF assms(1)]] by (simp add: mc_inv_def)
  note r = Remove_view [OF assms(2)]
  have v: "cview c' p q' = (if q' = q then filter (\<lambda>e. e_id e \<notin> set ids) (?v p q') else ?v p q')" for p q'
    by (simp add: r(1) fold_del_id_filter view_inv_distinct [OF vi])
  let ?l = "queue_entries ?v q"
  have d: "distinct (entry_ids ?l)" using vi by (simp add: view_inv_def)
  have "length (filter (\<lambda>e. e_id e \<in> set ids) ?l) + length (filter (\<lambda>e. e_id e \<notin> set ids) ?l) = length ?l"
    by (rule sum_length_filter_compl)
  moreover have "queue_entries (cview c') q = filter (\<lambda>e. e_id e \<notin> set ids) ?l"
    by (simp add: queue_entries_def v)
  moreover have "length (filter (\<lambda>e. e_id e \<in> set ids) ?l) = card (e_id ` set ?l \<inter> set ids)"
  proof -
    have "distinct (entry_ids (filter (\<lambda>e. e_id e \<in> set ids) ?l))" using d by (simp add: distinct_map_filter)
    then have "length (filter (\<lambda>e. e_id e \<in> set ids) ?l) =
        card (set (entry_ids (filter (\<lambda>e. e_id e \<in> set ids) ?l)))"
      by (metis distinct_card length_map)
    also have "set (entry_ids (filter (\<lambda>e. e_id e \<in> set ids) ?l)) = e_id ` set ?l \<inter> set ids" by auto
    finally show ?thesis .
  qed
  ultimately show ?thesis using v r(2,3) by (simp add: mc_known_ids)
qed

theorem memory_cache_remove_witness:
  "let ops = [OpInsert ''q'' [sample_message ''a'' 5 0, sample_message ''b'' 3 0],
              OpPull 0 ''q'' 1 None None 10];
       c = sample_run ops; (c', n, err) = MemoryCache_Remove c ''q'' [''b'', ''b'', ''z'']
   in any_order (\<lambda>qs :: string list. qs) \<and> n = 1 \<and> err = None \<and> cview c' PROCESSING_POOL ''q'' = []"
proof -
  let ?c = "sample_run [OpInsert ''q'' [sample_message ''a'' 5 0, sample_message ''b'' 3 0],
              OpPull 0 ''q'' 1 None None 10]"
  obtain c' n err where p: "MemoryCache_Remove ?c ''q'' [''b'', ''b'', ''z''] = (c', n, err)"
    by (metis surj_pair)
  have "fst (snd (MemoryCache_Remove ?c ''q'' [''b'', ''b'', ''z''])) = 1" by code_simp
  moreover have "filter (\<lambda>e. e_id e \<notin> set [''b'', ''b'', ''z'']) (cview ?c PROCESSING_POOL ''q'') = []"
    by code_simp
  ultimately show ?thesis
    using memory_cache_remove [OF any_order_id(1) p] p by (simp add: Let_def)
qed

section \<open>Score limits, deadlines and locks\<close>

text \<open>
  C21: a pull of at most \<open>n\<close> messages with score limits looks at the first \<open>n\<close> available messages only. It
  delivers those of them within the limits, and the deadline of each is the clock in seconds plus the
  ack deadline in milliseconds. A message within the limits behind the first \<open>n\<close> is not delivered, even
  when nothing is.
\<close>

theorem memory_cache_pull_limits:
  assumes "any_order ord" "0 \<le> n"
    and "MemoryCache_PullMessages now (mem_run ord glob ops) q n lo hi ack = (c', r)"
  shows "r = Inr (entry_ids (filter (in_filter lo hi)
      (take (nat n) (cview (mem_run ord glob ops) PRIMARY_POOL q)))) \<and>
    (\<forall>e\<in>set (filter (in_filter lo hi) (take (nat n) (cview (mem_run ord glob ops) PRIMARY_POOL q))).
       \<lparr>e_score = float_of_int (wrap64 (Unix now + (if ack = 0 then DefaultTimeoutMs else ack))),
        e_id = e_id e, e_lockUntil = Fin 0\<rparr> \<in> set (cview c' PROCESSING_POOL q))"
proof -
  let ?v = "cview (mem_run ord glob ops)"
  let ?t = "map (processing_entry (ack_deadline now ack)) (pull_taken lo hi n (?v PRIMARY_POOL q))"
  have vi: "view_inv ?v"
    using map_order.run_inv [OF map_order.intro [OF assms(1)]] by (simp add: mc_inv_def)
  note v = PullMessages_view(1,2) [OF assms(3,2)]
  have "entry_ids ?t = entry_ids (pull_taken lo hi n (?v PRIMARY_POOL q))" by simp
  then have "distinct (entry_ids ?t)"
    using distinct_pull_taken [OF view_inv_distinct [OF vi]] by metis
  moreover have "e_id ` set ?t \<inter> e_id ` set (?v PROCESSING_POOL q) = {}"
    using pull_taken_ids [of lo hi n "?v PRIMARY_POOL q"]
      view_inv_disjoint [OF vi, of PRIMARY_POOL PROCESSING_POOL q]
    by (auto simp: image_image)
  ultimately have "mset (fold put_entry ?t (?v PROCESSING_POOL q)) = mset ?t + mset (?v PROCESSING_POOL q)"
    by (rule fold_put_new)
  then have "set ?t \<subseteq> set (cview c' PROCESSING_POOL q)"
    by (metis UnCI set_mset_mset set_mset_union subsetI v(2) vput_at)
  then show ?thesis
    using v(1) by (auto simp: pull_taken_def processing_entry_def ack_deadline_def)
qed

theorem memory_cache_pull_limits_witness:
  "let ops = [OpInsert ''q'' [sample_message ''a'' 5 0, sample_message ''b'' 3 0]];
       c = sample_run ops;
       (c', r) = MemoryCache_PullMessages 0 c ''q'' 1 (Some (Fin 4)) None 0
   in any_order (\<lambda>qs :: string list. qs) \<and> r = Inr [] \<and> map e_score (cview c PRIMARY_POOL ''q'') = [Fin 3, Fin 5]"
proof -
  let ?c = "sample_run [OpInsert ''q'' [sample_message ''a'' 5 0, sample_message ''b'' 3 0]]"
  obtain c' r where p: "MemoryCache_PullMessages 0 ?c ''q'' 1 (Some (Fin 4)) None 0 = (c', r)"
    by (meson surj_pair)
  have "entry_ids (filter (in_filter (Some (Fin 4)) None) (take (nat 1) (cview ?c PRIMARY_POOL ''q''))) = []"
    by code_simp
  moreover have "map e_score (cview ?c PRIMARY_POOL ''q'') = [Fin 3, Fin 5]" by code_simp
  ultimately show ?thesis
    using memory_cache_pull_limits [OF any_order_id(1) _ p] p by (simp add: Let_def)
qed

text \<open>
  C33: the score limits of a pull request select what they say. A pull with the limits that \<^verbatim>\<open>GetPullMinScore\<close> and
  \<^verbatim>\<open>GetPullMaxScore\<close> make of the values of a request delivers, of the first \<open>n\<close> available messages, exactly those whose score
  is at least the requested minimum and at most the requested maximum. A maximum of 0 is no limit, a
  negative one allows the smallest score only, and a minimum above the largest score allows that one only. The
  available messages have accepted scores, and the requested values are not NaN.
\<close>

theorem pull_filters:
  assumes "any_order ord" "0 \<le> n" "lo \<noteq> NaN" "hi \<noteq> NaN"
    and "\<forall>e\<in>set (cview (mem_run ord glob ops) PRIMARY_POOL q). in_score_range (e_score e)"
    and "MemoryCache_PullMessages now (mem_run ord glob ops) q n (GetPullMinScore lo) (GetPullMaxScore hi) ack = (c', r)"
  shows "r = Inr (entry_ids (filter (\<lambda>e. request_allows lo hi (e_score e))
    (take (nat n) (cview (mem_run ord glob ops) PRIMARY_POOL q))))"
proof -
  let ?l = "take (nat n) (cview (mem_run ord glob ops) PRIMARY_POOL q)"
  have "in_filter (GetPullMinScore lo) (GetPullMaxScore hi) e = request_allows lo hi (e_score e)" if "e \<in> set ?l" for e
  proof -
    have "in_score_range (e_score e)" using assms(5) in_set_takeD [OF that] by blast
    from pull_limits_allow [OF this assms(3,4)] show ?thesis by (simp add: in_filter_def)
  qed
  then have "filter (in_filter (GetPullMinScore lo) (GetPullMaxScore hi)) ?l = filter (\<lambda>e. request_allows lo hi (e_score e)) ?l"
    by (rule filter_cong [OF refl])
  then show ?thesis using PullMessages_view(1) [OF assms(6,2)] by (simp add: pull_taken_def)
qed

theorem pull_filters_witness:
  "let ops = [OpInsert ''q'' [sample_message ''a'' 5 0, sample_message ''b'' 3 0, sample_message ''c'' 0 0]];
       (c', r) = MemoryCache_PullMessages 0 (sample_run ops) ''q'' 3 (GetPullMinScore (Fin 2)) (GetPullMaxScore (Fin 4)) 0
   in r = Inr [''b'']"
proof -
  let ?ops = "[OpInsert ''q'' [sample_message ''a'' 5 0, sample_message ''b'' 3 0, sample_message ''c'' 0 0]]"
  obtain c' r where p: "MemoryCache_PullMessages 0 (sample_run ?ops) ''q'' 3 (GetPullMinScore (Fin 2))
      (GetPullMaxScore (Fin 4)) 0 = (c', r)" by (meson surj_pair)
  have "list_all (\<lambda>e. in_score_range (e_score e)) (cview (sample_run ?ops) PRIMARY_POOL ''q'')" by code_simp
  then have s: "\<forall>e\<in>set (cview (sample_run ?ops) PRIMARY_POOL ''q''). in_score_range (e_score e)" by (simp add: list_all_iff)
  have v: "entry_ids (filter (\<lambda>e. request_allows (Fin 2) (Fin 4) (e_score e)) (take (nat 3) (cview (sample_run ?ops) PRIMARY_POOL ''q''))) =
      [''b'']" by code_simp
  show ?thesis using pull_filters [OF any_order_id(1) _ _ _ s p] v p by simp
qed

text \<open>
  C22: \<^verbatim>\<open>UnlockMessages\<close> makes available, in every queue that has a lock list of the given type and whatever
  the queue it was asked for, the first message of the list whose lock is over, and no other one.
\<close>

theorem memory_cache_unlock:
  assumes "any_order ord" "mc_inv c" "MemoryCache_UnlockMessages ord now c q0 t = (c', r)"
  shows "view_ids (cview c') (lock_pool t) q =
      view_ids (cview c) (lock_pool t) q - set (unlocked_ids now (cview c (lock_pool t) q)) \<and>
    view_ids (cview c') PRIMARY_POOL q =
      view_ids (cview c) PRIMARY_POOL q \<union> set (unlocked_ids now (cview c (lock_pool t) q)) \<and>
    r = Inr (concat (map (\<lambda>q. unlocked_ids now (cview c (lock_pool t) q)) (ord (map fst (lock_map c t))))) \<and>
    mc_inv c'"
proof -
  note u = UnlockMessages_ids [OF assms(3,2,1)]
  show ?thesis by (simp add: u(1,2,4))
qed

abbreviation sample_locked :: MemoryCache where
  "sample_locked \<equiv> \<lparr>queues = [], processingQueues = [], lockAckQueues = [],
     lockNackQueues = [(''q'', Some [\<lparr>e_score = Fin 3, e_id = ''b'', e_lockUntil = Fin 7\<rparr>,
                                    \<lparr>e_score = Fin 5, e_id = ''a'', e_lockUntil = Fin 7\<rparr>])], keys = []\<rparr>"

theorem memory_cache_unlock_witness:
  "let (c', r) = MemoryCache_UnlockMessages (\<lambda>qs. qs) 9000000 sample_locked ''other'' LOCK_NACK
   in mc_inv sample_locked \<and> r = Inr [''b''] \<and>
      view_ids (cview c') LOCK_NACK_POOL ''q'' = {''a''} \<and> view_ids (cview c') PRIMARY_POOL ''q'' = {''b''}"
proof -
  let ?l = "[\<lparr>e_score = Fin 3, e_id = ''b'', e_lockUntil = Fin 7\<rparr>,
             \<lparr>e_score = Fin 5, e_id = ''a'', e_lockUntil = Fin 7\<rparr>]"
  have v: "cview sample_locked p q = (if p = LOCK_NACK_POOL \<and> q = ''q'' then ?l else [])" for p q
    by (cases p) (simp_all add: cview_def plist_def lget_def)
  have i: "mc_inv sample_locked"
    by (simp add: mc_inv_def view_inv_def queue_entries_def v pools_wf_def gomap_wf_def)
  obtain c' r where p: "MemoryCache_UnlockMessages (\<lambda>qs. qs) 9000000 sample_locked ''other'' LOCK_NACK = (c', r)"
    by (meson surj_pair)
  have u: "unlocked_ids 9000000 ?l = [''b'']" by code_simp
  have n: "lock_pool LOCK_NACK = LOCK_NACK_POOL" by (simp add: lock_pool_def)
  show ?thesis
    using memory_cache_unlock [OF any_order_id(1) i p, of "''q''"] p i u
    by (simp add: n v lock_map_def)
qed

end
