(* ===== verification/Deckard_Run.thy ===== *)
theory Deckard_Run
  imports Deckard_Laws Memory_Queue Memory_Storage_Props Memory_Cache_Props
begin

text \<open>
  Runs of a Deckard instance: sequences of requests to the service and of tasks of the housekeeper, as
  \<^verbatim>\<open>startHouseKeeperJobs\<close> of \<^verbatim>\<open>main.go\<close> schedules them. Each request and each task is one step; the steps of
  different clients and tasks come in any order.
\<close>

section \<open>Steps\<close>

datatype deckard_op =
    ReqAdd "nat \<Rightarrow> clock" clock "AddMessage list"
  | ReqPull time clock PullRequest
  | ReqAck time time clock AckRequest
  | ReqNack time clock AckRequest
  | ReqRemove time "string list" string
  | ReqFlush
  | ReqEditQueue time string "int64 option"
  | ReqGetQueue clock string
  | TaskUnlock "nat \<Rightarrow> bool" "nat \<Rightarrow> clock"
  | TaskTimeout "nat \<Rightarrow> bool" "nat \<Rightarrow> bool" "nat \<Rightarrow> clock"
  | TaskRecovery clock
  | TaskMaxElements "nat \<Rightarrow> bool" "nat \<Rightarrow> clock"
  | TaskTTL "nat \<Rightarrow> bool" time time "nat \<Rightarrow> clock"

definition on_queue :: "(('c, 's) Queue \<Rightarrow> ('c, 's) Queue) \<Rightarrow> ('c, 's, 'l) Deckard \<Rightarrow> ('c, 's, 'l) Deckard" where
  "on_queue f d = d\<lparr>d_queue := f (d_queue d)\<rparr>"

fun deckard_exec ::
    "'c Cache \<Rightarrow> 's Storage \<Rightarrow> 'l LocalCache \<Rightarrow> (string list \<Rightarrow> string list) \<Rightarrow> (Message list \<Rightarrow> Message list) \<Rightarrow>
     deckard_op \<Rightarrow> ('c, 's, 'l) Deckard \<Rightarrow> ('c, 's, 'l) Deckard" where
  "deckard_exec C S LC ord sord (ReqAdd clks clk request) d = fst (Deckard_Add C S ord clks clk d request)"
| "deckard_exec C S LC ord sord (ReqPull now clk request) d = fst (Deckard_Pull C S sord now clk d request)"
| "deckard_exec C S LC ord sord (ReqAck t now clk request) d = fst (Deckard_Ack C S t now clk d request)"
| "deckard_exec C S LC ord sord (ReqNack now clk request) d = fst (Deckard_Nack C S now clk d request)"
| "deckard_exec C S LC ord sord (ReqRemove now ids queue) d = fst (Deckard_Remove C S now d ids queue)"
| "deckard_exec C S LC ord sord ReqFlush d = fst (Deckard_Flush C S d)"
| "deckard_exec C S LC ord sord (ReqEditQueue now queue cfg) d = fst (Deckard_EditQueue S LC now d queue cfg)"
| "deckard_exec C S LC ord sord (ReqGetQueue clk queue) d = fst (Deckard_GetQueue S LC clk d queue)"
| "deckard_exec C S LC ord sord (TaskUnlock stop clks) d = on_queue (ProcessLockPool C stop clks) d"
| "deckard_exec C S LC ord sord (TaskTimeout stop cancelled clks) d =
     on_queue (\<lambda>q. fst (ProcessTimeoutMessages C stop cancelled clks q)) d"
| "deckard_exec C S LC ord sord (TaskRecovery clk) d = on_queue (\<lambda>q. fst (RecoveryMessagesPool C S ord clk q)) d"
| "deckard_exec C S LC ord sord (TaskMaxElements stop clks) d =
     on_queue (\<lambda>q. fst (RemoveExceedingMessages C S stop clks q)) d"
| "deckard_exec C S LC ord sord (TaskTTL stop date now clks) d =
     on_queue (\<lambda>q. fst (RemoveTTLMessages C S ord stop now clks (Some date) q)) d"

definition deckard_run ::
    "'c Cache \<Rightarrow> 's Storage \<Rightarrow> 'l LocalCache \<Rightarrow> (string list \<Rightarrow> string list) \<Rightarrow> (Message list \<Rightarrow> Message list) \<Rightarrow>
     deckard_op list \<Rightarrow> ('c, 's, 'l) Deckard \<Rightarrow> ('c, 's, 'l) Deckard" where
  "deckard_run C S LC ord sord ops d = fold (deckard_exec C S LC ord sord) ops d"

text \<open>
  The messages a step may take out of processing, those it may delete, and the ids it may add.
\<close>

fun releases :: "deckard_op \<Rightarrow> stored_ids" where
  "releases (ReqAck t now clk request) = {ack_key request}"
| "releases (ReqNack now clk request) = {ack_key request}"
| "releases (ReqRemove now ids queue) = {queue} \<times> set ids"
| "releases ReqFlush = UNIV"
| "releases (TaskTimeout stop cancelled clks) = UNIV"
| "releases (TaskMaxElements stop clks) = UNIV"
| "releases (TaskTTL stop date now clks) = UNIV"
| "releases _ = {}"

fun deletes :: "deckard_op \<Rightarrow> stored_ids" where
  "deletes (ReqAck t now clk request) = (if ak_RemoveMessage request then {ack_key request} else {})"
| "deletes (ReqNack now clk request) = (if ak_RemoveMessage request then {ack_key request} else {})"
| "deletes (ReqRemove now ids queue) = {queue} \<times> set ids"
| "deletes ReqFlush = UNIV"
| "deletes (TaskMaxElements stop clks) = UNIV"
| "deletes (TaskTTL stop date now clks) = UNIV"
| "deletes _ = {}"

fun adds_only :: "(string \<Rightarrow> bool) \<Rightarrow> deckard_op \<Rightarrow> bool" where
  "adds_only valid (ReqAdd clks clk request) = list_all (\<lambda>m. valid (am_Id m)) request"
| "adds_only valid _ = True"

section \<open>Runs keep the queue consistent\<close>

lemma exec_memoryInstance [simp]: "d_memoryInstance (deckard_exec C S LC ord sord op d) = d_memoryInstance d"
  by (cases op)
    (auto simp: on_queue_def Deckard_Add_def Deckard_Pull_def Deckard_Ack_def Deckard_Nack_def Deckard_Remove_def
      Deckard_Flush_def Deckard_EditQueue_def Deckard_GetQueue_def removeMessageFromAckNack_def Let_def
      split: prod.splits sum.splits option.splits if_splits)

context queue_env
begin

lemma exec_step:
  assumes "any_order ord" "any_order sord" "adds_only valid_id op" "d_memoryInstance d \<longrightarrow> flushable"
  shows "step (releases op) (deletes op) (d_queue d) (d_queue (deckard_exec C S LC ord sord op d))"
proof (cases op)
  case (ReqAdd clks clk request)
  then show ?thesis using step_Add [OF assms(1)] assms(3) by (simp add: list_all_iff)
qed (simp_all add: on_queue_def step_Service_Pull [OF assms(2)] step_Service_Ack step_Service_Nack
      step_Service_Remove step_Service_Flush [OF assms(4)] step_Service_EditQueue step_Service_GetQueue
      step_ProcessLockPool step_ProcessTimeoutMessages step_RecoveryMessagesPool [OF assms(1)]
      step_RemoveExceedingMessages step_RemoveTTLMessages)

definition good_run :: "(string list \<Rightarrow> string list) \<Rightarrow> (Message list \<Rightarrow> Message list) \<Rightarrow> deckard_op list \<Rightarrow>
    ('c, 's, 'l) Deckard \<Rightarrow> bool" where
  "good_run ord sord ops d \<longleftrightarrow> any_order ord \<and> any_order sord \<and> list_all (adds_only valid_id) ops \<and>
     (d_memoryInstance d \<longrightarrow> flushable)"

lemma service_run_step:
  assumes "good_run ord sord ops d"
  shows "step (\<Union>op\<in>set ops. releases op) (\<Union>op\<in>set ops. deletes op)
    (d_queue d) (d_queue (deckard_run C S LC ord sord ops d))"
  using assms
proof (induction ops arbitrary: d)
  case (Cons op ops)
  have g: "any_order ord" "any_order sord" "adds_only valid_id op" "d_memoryInstance d \<longrightarrow> flushable"
    and g': "good_run ord sord ops (deckard_exec C S LC ord sord op d)"
    using Cons.prems by (simp_all add: good_run_def exec_memoryInstance)
  from queue_step_trans [OF exec_step [OF g] Cons.IH [OF g']] show ?case by (simp add: deckard_run_def)
qed (simp add: deckard_run_def)

lemma service_run_ok:
  assumes "good_run ord sord ops d" "ok (d_queue d)"
  shows "ok (d_queue (deckard_run C S LC ord sord ops d))"
  using service_run_step [OF assms(1), of LC] assms(2) by (simp add: step_def)

lemma service_run_processing:
  assumes "good_run ord sord ops d" "ok (d_queue d)"
    and "i \<in> cids (q_cache (d_queue d)) PROCESSING_POOL q" "\<forall>op\<in>set ops. (q, i) \<notin> releases op"
  shows "i \<in> cids (q_cache (d_queue (deckard_run C S LC ord sord ops d))) PROCESSING_POOL q"
  using service_run_step [OF assms(1), of LC] assms(2-4) by (auto simp: step_def processing_def)

lemma service_run_stored:
  assumes "good_run ord sord ops d" "ok (d_queue d)"
    and "(q, i) \<in> stored (q_storage (d_queue d))" "\<forall>op\<in>set ops. (q, i) \<notin> deletes op"
  shows "(q, i) \<in> stored (q_storage (d_queue (deckard_run C S LC ord sord ops d)))"
  using service_run_step [OF assms(1), of LC] assms(2-4) by (auto simp: step_def)

section \<open>Requests on messages\<close>

lemma Service_Pull_ok:
  assumes "ok (d_queue d)" "any_order sord" "Deckard_Pull C S sord now clk d req = (d', Inr ms)"
  shows "\<exists>I found. pulled (cids (q_cache (d_queue d))) (pr_Queue req) I found (cids (q_cache (d_queue d'))) \<and>
      ms = map pulled_message found \<and> int (card I) \<le> pull_amount (pr_Amount req) \<and>
      (\<forall>i\<in>I - msg_ID ` set found. (pr_Queue req, i) \<notin>
         stored (q_storage (d_queue d)) - expired (clk 2) (q_storage (d_queue d)))"
proof -
  obtain p' r where q: "Queue_Pull C S sord clk (d_queue d) (pr_Queue req) (pull_amount (pr_Amount req))
    (GetPullMinScore (pr_MinScore req)) (GetPullMaxScore (pull_max now req)) (pr_AckDeadlineMs req) = (p', r)"
    by (meson surj_pair)
  obtain mo where mo: "r = Inr mo" and d': "d_queue d' = p'"
    and ms: "ms = (case mo of None \<Rightarrow> [] | Some l \<Rightarrow> map pulled_message l)"
    using assms(3) q by (auto simp: Deckard_Pull_def Let_def split: sum.splits option.splits)
  define found where f: "found = (case mo of None \<Rightarrow> [] | Some l \<Rightarrow> l)"
  have am: "0 < pull_amount (pr_Amount req)" by (simp add: pull_amount_def Let_def)
  show ?thesis
  proof (cases "pr_Queue req = []")
    case True
    note u = Queue_Pull_unnamed [OF assms(1) q [unfolded True] pull_amount_ok]
    have "found = []" "ms = []" using u(4) [OF mo] f ms by simp_all
    then show ?thesis
      using u(3) pulled_none [of "cids (q_cache (d_queue d))" "pr_Queue req"] am d'
      by (auto simp: pull_amount_def Let_def intro!: exI [of _ "{}"] exI [of _ "[]"])
  next
    case False
    note c = Queue_Pull_cases [OF assms(1) False assms(2) q pull_amount_ok]
    have "ms = map pulled_message found" using f ms by (simp split: option.splits)
    then show ?thesis using c mo d' f am by (auto intro!: exI [of _ found])
  qed
qed

lemma Service_Pull_delivers:
  assumes "ok (d_queue d)" "any_order sord" "Deckard_Pull C S sord now clk d req = (d', Inr ms)"
  shows "distinct (map pm_Id ms)" "int (length ms) \<le> pull_amount (pr_Amount req)"
    "m \<in> set ms \<Longrightarrow> pm_Queue m = pr_Queue req \<and>
       pm_Id m \<in> cids (q_cache (d_queue d)) PRIMARY_POOL (pr_Queue req) \<and>
       pm_Id m \<in> cids (q_cache (d_queue d')) PROCESSING_POOL (pr_Queue req)"
proof -
  obtain I found where p: "pulled (cids (q_cache (d_queue d))) (pr_Queue req) I found (cids (q_cache (d_queue d')))"
    and ms: "ms = map pulled_message found" and card: "int (card I) \<le> pull_amount (pr_Amount req)"
    using Service_Pull_ok [OF assms] by blast
  have i: "pm_Id (pulled_message x) = msg_ID x" "pm_Queue (pulled_message x) = msg_Queue x" for x
    by (simp_all add: pulled_message_def Let_def)
  have d: "distinct (map msg_ID found)" and sub: "msg_ID ` set found \<subseteq> I" using p by (auto simp: pulled_def)
  show "distinct (map pm_Id ms)" using d by (simp add: ms i comp_def)
  have "length ms = card (msg_ID ` set found)" using distinct_card [OF d] by (simp add: ms)
  also have "\<dots> \<le> card I" using p sub by (intro card_mono) (auto simp: pulled_def)
  finally show "int (length ms) \<le> pull_amount (pr_Amount req)" using card by simp
  show "pm_Queue m = pr_Queue req \<and>
       pm_Id m \<in> cids (q_cache (d_queue d)) PRIMARY_POOL (pr_Queue req) \<and>
       pm_Id m \<in> cids (q_cache (d_queue d')) PROCESSING_POOL (pr_Queue req)" if "m \<in> set ms"
    using that p by (auto simp: ms i pulled_def pool_remove_def pool_move_def)
qed

lemma Service_Ack_ok:
  assumes "ok (d_queue d)" "Deckard_Ack C S t now clk d req = (d', Inr resp)" "\<not> ak_RemoveMessage req"
  shows "stored (q_storage (d_queue d')) = stored (q_storage (d_queue d))"
    "akr_Success resp = (ak_Id req \<in> cids (q_cache (d_queue d)) PROCESSING_POOL (ak_Queue req))"
    "cids (q_cache (d_queue d')) =
       pool_move (cids (q_cache (d_queue d))) PROCESSING_POOL (if ak_LockMs req > 0 then LOCK_ACK_POOL else PRIMARY_POOL)
         (ak_Queue req) (if akr_Success resp then {ak_Id req} else {})"
proof -
  let ?m = "zero_Message\<lparr>msg_ID := ak_Id req, msg_Queue := ak_Queue req,
             msg_LastScoreSubtract := ak_ScoreSubtract req, msg_LastUsage := Some now,
             msg_Score := ack_score t req, msg_Breakpoint := ak_Breakpoint req, msg_LockMs := ak_LockMs req\<rparr>"
  obtain p' r where a: "Queue_Ack C S clk (d_queue d) (Some ?m) (ak_Reason req) = (p', r)" by (meson surj_pair)
  have d': "d_queue d' = p'" "r = Inr (akr_Success resp)"
    using assms(2,3) a by (auto simp: Deckard_Ack_def Let_def split: sum.splits)
  note law = Queue_Ack_ok(2,3) [OF assms(1) a]
  then show "stored (q_storage (d_queue d')) = stored (q_storage (d_queue d))"
    "akr_Success resp = (ak_Id req \<in> cids (q_cache (d_queue d)) PROCESSING_POOL (ak_Queue req))"
    "cids (q_cache (d_queue d')) =
       pool_move (cids (q_cache (d_queue d))) PROCESSING_POOL (if ak_LockMs req > 0 then LOCK_ACK_POOL else PRIMARY_POOL)
         (ak_Queue req) (if akr_Success resp then {ak_Id req} else {})"
    using d' by (simp_all add: released_def release_pool_def lock_pool_def)
qed

lemma Service_Nack_ok:
  assumes "ok (d_queue d)" "Deckard_Nack C S now clk d req = (d', Inr resp)" "\<not> ak_RemoveMessage req"
  shows "stored (q_storage (d_queue d')) = stored (q_storage (d_queue d))"
    "akr_Success resp = (ak_Id req \<in> cids (q_cache (d_queue d)) PROCESSING_POOL (ak_Queue req))"
    "cids (q_cache (d_queue d')) =
       pool_move (cids (q_cache (d_queue d))) PROCESSING_POOL (if ak_LockMs req > 0 then LOCK_NACK_POOL else PRIMARY_POOL)
         (ak_Queue req) (if akr_Success resp then {ak_Id req} else {})"
proof -
  let ?m = "zero_Message\<lparr>msg_ID := ak_Id req, msg_Queue := ak_Queue req,
             msg_LastScoreSubtract := ak_ScoreSubtract req, msg_Breakpoint := ak_Breakpoint req,
             msg_LockMs := ak_LockMs req, msg_Score := nack_score req\<rparr>"
  obtain p' r where a: "Queue_Nack C S clk (d_queue d) (Some ?m) now (ak_Reason req) = (p', r)" by (meson surj_pair)
  have d': "d_queue d' = p'" "r = Inr (akr_Success resp)"
    using assms(2,3) a by (auto simp: Deckard_Nack_def Let_def split: sum.splits)
  note law = Queue_Nack_ok(2,3) [OF assms(1) a]
  then show "stored (q_storage (d_queue d')) = stored (q_storage (d_queue d))"
    "akr_Success resp = (ak_Id req \<in> cids (q_cache (d_queue d)) PROCESSING_POOL (ak_Queue req))"
    "cids (q_cache (d_queue d')) =
       pool_move (cids (q_cache (d_queue d))) PROCESSING_POOL (if ak_LockMs req > 0 then LOCK_NACK_POOL else PRIMARY_POOL)
         (ak_Queue req) (if akr_Success resp then {ak_Id req} else {})"
    using d' by (simp_all add: released_def release_pool_def lock_pool_def)
qed

lemma Service_Remove_ok:
  assumes "ok (d_queue d)" "Deckard_Remove C S now d ids q = (d', Inr resp)"
  shows "stored (q_storage (d_queue d')) = stored (q_storage (d_queue d)) - {q} \<times> set ids"
    "cids (q_cache (d_queue d')) = pool_remove (cids (q_cache (d_queue d))) q (set ids)"
proof -
  obtain p' cn sn err where r: "Queue_Remove C S now (d_queue d) q ''REQUEST'' ids = (p', cn, sn, err)"
    by (rule prod_cases4)
  have "stored (q_storage (d_queue d')) = stored (q_storage (d_queue d)) - {q} \<times> set ids \<and>
    cids (q_cache (d_queue d')) = pool_remove (cids (q_cache (d_queue d))) q (set ids)"
  proof (cases "ids = []")
    case True
    then show ?thesis using assms(2) by (simp add: Deckard_Remove_def)
  next
    case False
    then have "err = None" "d_queue d' = p'"
      using assms(2) r by (auto simp: Deckard_Remove_def Let_def split: option.splits)
    then show ?thesis using Queue_Remove_ok(2) [OF assms(1) r] by simp
  qed
  then show "stored (q_storage (d_queue d')) = stored (q_storage (d_queue d)) - {q} \<times> set ids"
    "cids (q_cache (d_queue d')) = pool_remove (cids (q_cache (d_queue d))) q (set ids)" by blast+
qed

text \<open>An ack or a nack with the option to remove the message deletes it, wherever it was.\<close>

lemma pool_remove_move: "I \<subseteq> J \<Longrightarrow> pool_remove (pool_move v p p' q I) q J = pool_remove v q J"
  by (auto simp: fun_eq_iff pool_remove_def pool_move_def)

lemma remove_released:
  assumes "ok p1" "released (cids (q_cache (d_queue d))) (cids (q_cache p1)) pt m (Inr b)"
    and "stored (q_storage p1) = stored (q_storage (d_queue d))" "msg_ID m = ak_Id req" "msg_Queue m = ak_Queue req"
    and "removeMessageFromAckNack C S now (d\<lparr>d_queue := p1\<rparr>) req = (d', Inr resp)"
  shows "akr_Success resp" "stored (q_storage (d_queue d')) = stored (q_storage (d_queue d)) - {(ak_Queue req, ak_Id req)}"
    "cids (q_cache (d_queue d')) = pool_remove (cids (q_cache (d_queue d))) (ak_Queue req) {ak_Id req}"
proof -
  obtain removed where rm: "Deckard_Remove C S now (d\<lparr>d_queue := p1\<rparr>) [ak_Id req] (ak_Queue req) = (d', Inr removed)"
    and ar: "resp = \<lparr>akr_Success = True, akr_RemovalResponse = Some removed\<rparr>"
    using assms(6) by (auto simp: removeMessageFromAckNack_def split: prod.splits sum.splits)
  have ok1: "ok (d_queue (d\<lparr>d_queue := p1\<rparr>))" using assms(1) by simp
  note r = Service_Remove_ok [OF ok1 rm]
  show "akr_Success resp" by (simp add: ar)
  show "stored (q_storage (d_queue d')) = stored (q_storage (d_queue d)) - {(ak_Queue req, ak_Id req)}"
    using r(1) assms(3) by simp
  have "cids (q_cache p1) = pool_move (cids (q_cache (d_queue d))) PROCESSING_POOL pt (ak_Queue req) (if b then {ak_Id req} else {})"
    using assms(2) unfolding released_def assms(4,5) by simp
  then show "cids (q_cache (d_queue d')) = pool_remove (cids (q_cache (d_queue d))) (ak_Queue req) {ak_Id req}"
    using r(2) pool_remove_move [of "if b then {ak_Id req} else {}" "{ak_Id req}"] by simp
qed

lemma Service_Ack_remove:
  assumes "ok (d_queue d)" "Deckard_Ack C S t now clk d req = (d', Inr resp)" "ak_RemoveMessage req"
  shows "akr_Success resp" "stored (q_storage (d_queue d')) = stored (q_storage (d_queue d)) - {(ak_Queue req, ak_Id req)}"
    "cids (q_cache (d_queue d')) = pool_remove (cids (q_cache (d_queue d))) (ak_Queue req) {ak_Id req}"
proof -
  let ?m = "zero_Message\<lparr>msg_ID := ak_Id req, msg_Queue := ak_Queue req,
             msg_LastScoreSubtract := ak_ScoreSubtract req, msg_LastUsage := Some now,
             msg_Score := ack_score t req, msg_Breakpoint := ak_Breakpoint req, msg_LockMs := ak_LockMs req\<rparr>"
  obtain p1 r where a: "Queue_Ack C S clk (d_queue d) (Some ?m) (ak_Reason req) = (p1, r)" by (meson surj_pair)
  obtain b where b: "r = Inr b" and rem: "removeMessageFromAckNack C S (clk 2) (d\<lparr>d_queue := p1\<rparr>) req = (d', Inr resp)"
    using assms(2,3) a by (auto simp: Deckard_Ack_def Let_def split: sum.splits)
  note q = Queue_Ack_ok [OF assms(1) a]
  note rr = remove_released [OF q(1) q(3) [unfolded b] q(2) _ _ rem]
  show "akr_Success resp" "stored (q_storage (d_queue d')) = stored (q_storage (d_queue d)) - {(ak_Queue req, ak_Id req)}"
    "cids (q_cache (d_queue d')) = pool_remove (cids (q_cache (d_queue d))) (ak_Queue req) {ak_Id req}"
    by (rule rr; simp)+
qed

lemma Service_Nack_remove:
  assumes "ok (d_queue d)" "Deckard_Nack C S now clk d req = (d', Inr resp)" "ak_RemoveMessage req"
  shows "akr_Success resp" "stored (q_storage (d_queue d')) = stored (q_storage (d_queue d)) - {(ak_Queue req, ak_Id req)}"
    "cids (q_cache (d_queue d')) = pool_remove (cids (q_cache (d_queue d))) (ak_Queue req) {ak_Id req}"
proof -
  let ?m = "zero_Message\<lparr>msg_ID := ak_Id req, msg_Queue := ak_Queue req,
             msg_LastScoreSubtract := ak_ScoreSubtract req, msg_Breakpoint := ak_Breakpoint req,
             msg_LockMs := ak_LockMs req, msg_Score := nack_score req\<rparr>"
  obtain p1 r where a: "Queue_Nack C S clk (d_queue d) (Some ?m) now (ak_Reason req) = (p1, r)" by (meson surj_pair)
  obtain b where b: "r = Inr b" and rem: "removeMessageFromAckNack C S (clk 2) (d\<lparr>d_queue := p1\<rparr>) req = (d', Inr resp)"
    using assms(2,3) a by (auto simp: Deckard_Nack_def Let_def split: sum.splits)
  note q = Queue_Nack_ok [OF assms(1) a]
  note rr = remove_released [OF q(1) q(3) [unfolded b] q(2) _ _ rem]
  show "akr_Success resp" "stored (q_storage (d_queue d')) = stored (q_storage (d_queue d)) - {(ak_Queue req, ak_Id req)}"
    "cids (q_cache (d_queue d')) = pool_remove (cids (q_cache (d_queue d))) (ak_Queue req) {ak_Id req}"
    by (rule rr; simp)+
qed

lemma pull_keeps:
  assumes "any_order sord" "ok (d_queue d)" "Deckard_Pull C S sord now clk d req = (d', r)"
  shows "ok (d_queue d')"
  using step_Service_Pull [OF assms(1), of d now clk req] assms(2,3) by (simp add: step_def)

lemma remove_keeps:
  assumes "ok (d_queue d)" "Deckard_Remove C S t d ids q = (d', r)"
  shows "ok (d_queue d')"
  using step_Service_Remove [of q ids d t] assms by (simp add: step_def)

text \<open>
  What a pull delivered stays in processing through every run that does not release it, and what is in
  processing is not available to another pull.
\<close>

lemma pull_exclusive:
  assumes "ok (d_queue d)" "Deckard_Pull C S sord now clk d req = (d1, Inr ms)" "m \<in> set ms"
    and "good_run ord sord ops d1" "\<forall>op\<in>set ops. (pm_Queue m, pm_Id m) \<notin> releases op"
    and "Deckard_Pull C S sord now' clk' (deckard_run C S LC ord sord ops d1) req' = (d2, Inr ms')" "m' \<in> set ms'"
  shows "(pm_Queue m', pm_Id m') \<noteq> (pm_Queue m, pm_Id m)"
proof
  let ?d = "deckard_run C S LC ord sord ops d1"
  assume eq: "(pm_Queue m', pm_Id m') = (pm_Queue m, pm_Id m)"
  have so: "any_order sord" using assms(4) by (simp add: good_run_def)
  note o1 = pull_keeps [OF so assms(1,2)]
  have "pm_Id m \<in> cids (q_cache (d_queue d1)) PROCESSING_POOL (pm_Queue m)"
    using Service_Pull_delivers(3) [OF assms(1) so assms(2,3)] by simp
  then have "pm_Id m \<in> cids (q_cache (d_queue ?d)) PROCESSING_POOL (pm_Queue m)"
    by (rule service_run_processing [OF assms(4) o1 _ assms(5)])
  moreover have o2: "ok (d_queue ?d)" by (rule service_run_ok [OF assms(4) o1])
  have "pm_Id m' \<in> cids (q_cache (d_queue ?d)) PRIMARY_POOL (pm_Queue m')"
    using Service_Pull_delivers(3) [OF o2 so assms(6,7)] by simp
  moreover have "pool_disjoint (cids (q_cache (d_queue ?d)))" using cache.disjoint o2 by (simp add: ok_def)
  ultimately show False using eq by (auto simp: pool_disjoint_def)
qed

end

end
