(* ===== verification/Deckard_Props.thy ===== *)
theory Deckard_Props
  imports Deckard_Run
begin

text \<open>
  Properties of runs of Deckard over the memory cache and the memory storage, from the empty instance.
  The orders in which maps are walked and equal scores are sorted are any permutations.
\<close>

section \<open>The memory instance\<close>

definition memory_deckard :: "AuditorImpl \<Rightarrow> 'l LocalCache \<Rightarrow> (MemoryCache, MemoryStorage, 'l) Deckard" where
  "memory_deckard auditor LC =
     NewMemoryDeckardService (NewQueue auditor NewMemoryStorage NewMemoryCache) (NewQueueConfigurationService LC)"

text \<open>The orders of the maps of the cache and of the storage, of the queues of a request and of equal scores.\<close>

record orders =
  o_cache :: "string list \<Rightarrow> string list"
  o_docs :: "string list \<Rightarrow> string list"
  o_queues :: "string list \<Rightarrow> string list"
  o_sort :: "Message list \<Rightarrow> Message list"

definition any_orders :: "orders \<Rightarrow> bool" where
  "any_orders o' \<longleftrightarrow> any_order (o_cache o') \<and> any_order (o_docs o') \<and> any_order (o_queues o') \<and> any_order (o_sort o')"

abbreviation mem_cache :: "orders \<Rightarrow> (string \<Rightarrow> string \<Rightarrow> bool) \<Rightarrow> MemoryCache Cache" where
  "mem_cache o' glob \<equiv> memory_cache (o_cache o') glob"

abbreviation mem_storage :: "orders \<Rightarrow> MemoryStorage Storage" where
  "mem_storage o' \<equiv> memory_storage (o_docs o')"

definition memory_run ::
    "orders \<Rightarrow> (string \<Rightarrow> string \<Rightarrow> bool) \<Rightarrow> 'l LocalCache \<Rightarrow> deckard_op list \<Rightarrow> (MemoryCache, MemoryStorage, 'l) Deckard \<Rightarrow>
     (MemoryCache, MemoryStorage, 'l) Deckard" where
  "memory_run o' glob LC ops d =
     deckard_run (mem_cache o' glob) (mem_storage o') LC (o_queues o') (o_sort o') ops d"

definition memory_pull ::
    "orders \<Rightarrow> (string \<Rightarrow> string \<Rightarrow> bool) \<Rightarrow> time \<Rightarrow> clock \<Rightarrow> (MemoryCache, MemoryStorage, 'l) Deckard \<Rightarrow> PullRequest \<Rightarrow>
     (MemoryCache, MemoryStorage, 'l) Deckard \<times> PbMessage list result" where
  "memory_pull o' glob now clk d req = Deckard_Pull (mem_cache o' glob) (mem_storage o') (o_sort o') now clk d req"

abbreviation pool_of :: "(MemoryCache, MemoryStorage, 'l) Deckard \<Rightarrow> pool_ids" where
  "pool_of d \<equiv> mc_ids (q_cache (d_queue d))"

abbreviation stored_of :: "(MemoryCache, MemoryStorage, 'l) Deckard \<Rightarrow> stored_ids" where
  "stored_of d \<equiv> ms_stored (q_storage (d_queue d))"

abbreviation d_ok :: "(MemoryCache, MemoryStorage, 'l) Deckard \<Rightarrow> bool" where
  "d_ok d \<equiv> mq_ok (d_queue d)"

context memory_queue
begin

lemmas mem_laws = mq.service_run_ok mq.service_run_processing mq.service_run_stored mq.Service_Pull_ok
  mq.Service_Pull_delivers mq.Service_Ack_ok mq.Service_Nack_ok mq.Service_Remove_ok mq.pull_exclusive
  mq.remove_keeps mq.Service_Ack_remove mq.Service_Nack_remove

lemma good_memory_run:
  "any_order ord \<Longrightarrow> any_order sord \<Longrightarrow> list_all (adds_only plain_id) ops \<Longrightarrow> mq.good_run ord sord ops d"
  by (simp add: mq.good_run_def)

end

lemma any_ordersD:
  "any_orders o' \<Longrightarrow> any_order (o_cache o')" "any_orders o' \<Longrightarrow> any_order (o_docs o')"
  "any_orders o' \<Longrightarrow> any_order (o_queues o')" "any_orders o' \<Longrightarrow> any_order (o_sort o')"
  by (simp_all add: any_orders_def)

lemma memory_queue_of: "any_orders o' \<Longrightarrow> memory_queue (o_cache o') (o_docs o')"
  by (simp add: any_orders_def memory_queue_orders)

lemma memory_deckard_ok: "d_ok (memory_deckard a LC)"
  by (simp add: memory_deckard_def NewMemoryDeckardService_def NewDeckardInstance_def mq_ok_new)

lemma memory_run_append: "memory_run o' glob LC (ops @ ops') d = memory_run o' glob LC ops' (memory_run o' glob LC ops d)"
  by (simp add: memory_run_def deckard_run_def)

lemma good_orders:
  fixes d :: "(MemoryCache, MemoryStorage, 'l) Deckard"
  shows "any_orders o' \<Longrightarrow> list_all (adds_only plain_id) ops \<Longrightarrow> queue_env.good_run plain_id True (o_queues o') (o_sort o') ops d"
  by (rule memory_queue.good_memory_run [OF memory_queue_of any_ordersD(3,4)])

lemma memory_run_ok:
  assumes "any_orders o'" "list_all (adds_only plain_id) ops" "d_ok d"
  shows "d_ok (memory_run o' glob LC ops d)"
  unfolding memory_run_def
  by (rule memory_queue.mem_laws(1) [OF memory_queue_of [OF assms(1)] good_orders [OF assms(1,2)] assms(3)])

lemma memory_run_stored:
  assumes "any_orders o'" "list_all (adds_only plain_id) ops" "d_ok d"
    and "(q, i) \<in> stored_of d" "\<forall>op\<in>set ops. (q, i) \<notin> deletes op"
  shows "(q, i) \<in> stored_of (memory_run o' glob LC ops d)"
  unfolding memory_run_def
  by (rule memory_queue.mem_laws(3) [OF memory_queue_of [OF assms(1)] good_orders [OF assms(1,2)] assms(3-5)])

lemma pools_apart: "d_ok d \<Longrightarrow> pool_disjoint (pool_of d)"
  using mc_ids_disjoint by (simp add: queue_ok_def)

section \<open>Sample runs\<close>

text \<open>Identity orders, no patterns, a clock that stands at one second, and a local cache without expiration.\<close>

definition sample_orders :: orders where
  "sample_orders = \<lparr>o_cache = (\<lambda>x. x), o_docs = (\<lambda>x. x), o_queues = (\<lambda>x. x), o_sort = (\<lambda>x. x)\<rparr>"

definition sample_glob :: "string \<Rightarrow> string \<Rightarrow> bool" where
  "sample_glob pattern s \<longleftrightarrow> pattern = ''*''"

definition sample_clock :: clock where
  "sample_clock n = 1000000000"

definition sample_auditor :: AuditorImpl where
  "sample_auditor = \<lparr>au_enabled = False, au_entries = []\<rparr>"

definition sample_cache :: "(string, QueueConfiguration) gomap LocalCache" where
  "sample_cache =
     \<lparr>lc_New = (\<lambda>expiration cleanup. []), lc_Get = (\<lambda>now l k. map_of l k),
      lc_Set = (\<lambda>now l k v. AList.update k v l), lc_Delete = (\<lambda>l k. AList.delete k l)\<rparr>"

definition sample_add :: "string \<Rightarrow> int64 \<Rightarrow> AddMessage" where
  "sample_add i ttl =
     \<lparr>am_Id = i, am_Payload = None, am_StringPayload = [], am_Metadata = None, am_Queue = ''q'',
      am_Timeless = False, am_TtlMinutes = ttl, am_Description = [], am_Score = Fin 5\<rparr>"

definition sample_pull :: "int64 \<Rightarrow> PullRequest" where
  "sample_pull n =
     \<lparr>pr_Queue = ''q'', pr_Amount = n, pr_ScoreFilter = 0, pr_MaxScore = Fin 0, pr_MinScore = Fin 0,
      pr_AckDeadlineMs = 0\<rparr>"

definition sample_ack :: "string \<Rightarrow> int64 \<Rightarrow> AckRequest" where
  "sample_ack i lock =
     \<lparr>ak_Id = i, ak_Queue = ''q'', ak_Reason = [], ak_ScoreSubtract = Fin 0, ak_Breakpoint = [],
      ak_LockMs = lock, ak_RemoveMessage = False, ak_Score = Fin 0\<rparr>"

abbreviation sample_deckard :: "(MemoryCache, MemoryStorage, (string, QueueConfiguration) gomap) Deckard" where
  "sample_deckard \<equiv> memory_deckard sample_auditor sample_cache"

abbreviation sample_service_run ::
    "deckard_op list \<Rightarrow> (MemoryCache, MemoryStorage, (string, QueueConfiguration) gomap) Deckard" where
  "sample_service_run ops \<equiv> memory_run sample_orders sample_glob sample_cache ops sample_deckard"

definition sample_adding :: deckard_op where
  "sample_adding = ReqAdd (\<lambda>n. sample_clock) sample_clock [sample_add ''a'' 5, sample_add ''b'' 5]"

lemma any_orders_sample [simp]: "any_orders sample_orders"
  by (simp add: any_orders_def sample_orders_def)

lemma adds_only_sample: "list_all (adds_only plain_id) [sample_adding]"
  by (simp add: sample_adding_def sample_add_def plain_id_def)

section \<open>Consistency\<close>

text \<open>
  C2: after any sequence of requests and tasks, every id in the cache belongs to a stored message and is
  in exactly one pool of its queue. Added ids must not contain a colon, since the memory storage joins queue
  and id with one.
\<close>

theorem deckard_consistent:
  assumes "any_orders o'" "list_all (adds_only plain_id) ops"
  shows "let d = memory_run o' glob LC ops (memory_deckard a LC) in
    (\<forall>q i. i \<in> known_ids (pool_of d) q \<longrightarrow> (q, i) \<in> stored_of d) \<and> pool_disjoint (pool_of d)"
proof -
  have "d_ok (memory_run o' glob LC ops (memory_deckard a LC))"
    by (rule memory_run_ok [OF assms memory_deckard_ok])
  then show ?thesis using pools_apart by (simp add: Let_def queue_ok_def cached_in_def)
qed

theorem deckard_consistent_witness:
  "let d = sample_service_run [sample_adding] in
    ''a'' \<in> known_ids (pool_of d) ''q'' \<and> (''q'', ''a'') \<in> stored_of d"
proof -
  have "''a'' \<in> known_ids (pool_of (sample_service_run [sample_adding])) ''q''"
    unfolding mc_known_ids by code_simp
  then show ?thesis
    using deckard_consistent [OF any_orders_sample adds_only_sample, of sample_glob sample_cache sample_auditor]
    by (simp add: Let_def)
qed

section \<open>Exclusive delivery\<close>

text \<open>
  C1: a message that a pull delivered is not delivered again until a request or a task releases it: an ack, a
  nack or a removal of that message, a timeout, a flush or a clean-up. Whatever other requests and tasks come
  in between, also further pulls, no two consumers hold the same message.
\<close>

theorem deckard_exclusive:
  assumes "any_orders o'" "list_all (adds_only plain_id) (ops @ ops')"
    and "memory_pull o' glob now clk (memory_run o' glob LC ops (memory_deckard a LC)) req = (d, Inr ms)"
    and "m \<in> set ms" "\<forall>op\<in>set ops'. (pm_Queue m, pm_Id m) \<notin> releases op"
    and "memory_pull o' glob now' clk' (memory_run o' glob LC ops' d) req' = (d', Inr ms')" "m' \<in> set ms'"
  shows "(pm_Queue m', pm_Id m') \<noteq> (pm_Queue m, pm_Id m)"
proof -
  have v: "list_all (adds_only plain_id) ops" "list_all (adds_only plain_id) ops'" using assms(2) by simp_all
  have "d_ok (memory_run o' glob LC ops (memory_deckard a LC))"
    by (rule memory_run_ok [OF assms(1) v(1) memory_deckard_ok])
  from memory_queue.mem_laws(16) [OF memory_queue_of [OF assms(1)] this assms(3) [unfolded memory_pull_def] assms(4)
      good_orders [OF assms(1) v(2)] assms(5) assms(6) [unfolded memory_pull_def memory_run_def] assms(7)]
  show ?thesis .
qed

theorem deckard_exclusive_witness:
  "let d = sample_service_run [sample_adding];
       (d1, r) = memory_pull sample_orders sample_glob 0 sample_clock d (sample_pull 1);
       (d2, r') = memory_pull sample_orders sample_glob 0 sample_clock
         (memory_run sample_orders sample_glob sample_cache [sample_adding] d1) (sample_pull 2)
   in map pm_Id (projr r) = [''b''] \<and> map pm_Id (projr r') = [''a''] \<and>
      (\<forall>m\<in>set (projr r). \<forall>m'\<in>set (projr r'). (pm_Queue m', pm_Id m') \<noteq> (pm_Queue m, pm_Id m))"
proof -
  let ?d = "sample_service_run [sample_adding]"
  obtain d1 r where p: "memory_pull sample_orders sample_glob 0 sample_clock ?d (sample_pull 1) = (d1, r)"
    by (meson surj_pair)
  obtain d2 r' where p': "memory_pull sample_orders sample_glob 0 sample_clock
     (memory_run sample_orders sample_glob sample_cache [sample_adding] d1) (sample_pull 2) = (d2, r')"
    by (meson surj_pair)
  have i: "map_sum (\<lambda>e. ()) (map pm_Id) (snd (memory_pull sample_orders sample_glob 0 sample_clock ?d (sample_pull 1))) = Inr [''b'']"
    by code_simp
  have i': "map_sum (\<lambda>e. ()) (map pm_Id) (snd (memory_pull sample_orders sample_glob 0 sample_clock
     (memory_run sample_orders sample_glob sample_cache [sample_adding]
        (fst (memory_pull sample_orders sample_glob 0 sample_clock ?d (sample_pull 1)))) (sample_pull 2))) = Inr [''a'']"
    by code_simp
  obtain ms where ms: "r = Inr ms" "map pm_Id ms = [''b'']" using i p by (cases r) auto
  obtain ms' where ms': "r' = Inr ms'" "map pm_Id ms' = [''a'']" using i' p p' by (cases r') auto
  have l: "list_all (adds_only plain_id) ([sample_adding] @ [sample_adding])" using adds_only_sample by simp
  have n: "\<forall>op\<in>set [sample_adding]. (pm_Queue m, pm_Id m) \<notin> releases op" for m
    by (simp add: sample_adding_def)
  have "(pm_Queue m', pm_Id m') \<noteq> (pm_Queue m, pm_Id m)" if "m \<in> set ms" "m' \<in> set ms'" for m m'
    using deckard_exclusive [OF any_orders_sample l p [unfolded ms] that(1) n p' [unfolded ms'] that(2)] .
  then show ?thesis using p p' ms ms' by simp
qed

section \<open>Durability\<close>

text \<open>
  C5: a stored message stays stored until a request or a task deletes it: a removal of that message, an ack or
  nack that asks to remove it, a flush or a clean-up. Pulls, acks, nacks, timeouts, unlocks, recoveries and
  additions of other messages never lose it.
\<close>

theorem deckard_durable:
  assumes "any_orders o'" "list_all (adds_only plain_id) (ops @ ops')"
    and "(q, i) \<in> stored_of (memory_run o' glob LC ops (memory_deckard a LC))"
    and "\<forall>op\<in>set ops'. (q, i) \<notin> deletes op"
  shows "(q, i) \<in> stored_of (memory_run o' glob LC (ops @ ops') (memory_deckard a LC))"
proof -
  have v: "list_all (adds_only plain_id) ops" "list_all (adds_only plain_id) ops'" using assms(2) by simp_all
  show ?thesis
    unfolding memory_run_append
    by (rule memory_run_stored [OF assms(1) v(2) memory_run_ok [OF assms(1) v(1) memory_deckard_ok] assms(3,4)])
qed

theorem deckard_durable_witness:
  "(''q'', ''a'') \<in> stored_of (sample_service_run ([sample_adding] @
     [ReqPull 0 sample_clock (sample_pull 1), ReqAck 0 0 sample_clock (sample_ack ''a'' 0),
      ReqRemove 0 [''b''] ''q'']))"
proof -
  let ?ops = "[ReqPull 0 sample_clock (sample_pull 1), ReqAck 0 0 sample_clock (sample_ack ''a'' 0),
      ReqRemove 0 [''b''] ''q'']"
  have "''a'' \<in> known_ids (pool_of (sample_service_run [sample_adding])) ''q''"
    unfolding mc_known_ids by code_simp
  moreover have "d_ok (sample_service_run [sample_adding])"
    by (rule memory_run_ok [OF any_orders_sample adds_only_sample memory_deckard_ok])
  ultimately have s: "(''q'', ''a'') \<in> stored_of (sample_service_run [sample_adding])"
    by (simp add: queue_ok_def cached_in_def)
  have l: "list_all (adds_only plain_id) ([sample_adding] @ ?ops)" using adds_only_sample by simp
  show ?thesis
    by (rule deckard_durable [OF any_orders_sample l s]) (simp add: sample_ack_def)
qed

section \<open>Requests\<close>

text \<open>
  C6: what a pull does. It asks the cache for between 1 and 1000 messages, whatever amount the request
  names, and the cache gives up the available messages \<open>I\<close> of the queue. Those the storage finds are the
  response, without duplicates, and are in processing afterwards. The others are not stored or have expired,
  and they are gone from the cache. Nothing else changes.
\<close>

theorem deckard_pull:
  assumes "any_orders o'" "list_all (adds_only plain_id) ops"
    and "memory_pull o' glob now clk (memory_run o' glob LC ops (memory_deckard a LC)) req = (d', Inr ms)"
  shows "let d = memory_run o' glob LC ops (memory_deckard a LC); q = pr_Queue req; ids = pm_Id ` set ms in
    \<exists>I\<subseteq>pool_of d PRIMARY_POOL q. ids \<subseteq> I \<and> card I \<le> 1000 \<and> (pr_Amount req \<ge> 1 \<longrightarrow> int (card I) \<le> pr_Amount req) \<and>
      distinct (map pm_Id ms) \<and> (\<forall>m\<in>set ms. pm_Queue m = q) \<and>
      (\<forall>i\<in>I - ids. (q, i) \<notin> stored_of d - ms_expired (clk 2) (q_storage (d_queue d))) \<and>
      pool_of d' = pool_remove (pool_move (pool_of d) PRIMARY_POOL PROCESSING_POOL q I) q (I - ids)"
proof -
  let ?d = "memory_run o' glob LC ops (memory_deckard a LC)"
  have o1: "d_ok ?d" by (rule memory_run_ok [OF assms(1,2) memory_deckard_ok])
  obtain I found where p: "pulled (pool_of ?d) (pr_Queue req) I found (pool_of d')"
    and ms: "ms = map pulled_message found" and c: "int (card I) \<le> pull_amount (pr_Amount req)"
    and nf: "\<forall>i\<in>I - msg_ID ` set found. (pr_Queue req, i) \<notin> stored_of ?d - ms_expired (clk 2) (q_storage (d_queue ?d))"
    using memory_queue.mem_laws(4) [OF memory_queue_of [OF assms(1)] o1 any_ordersD(4) [OF assms(1)]
      assms(3) [unfolded memory_pull_def]] by blast
  have i: "pm_Id (pulled_message x) = msg_ID x" "pm_Queue (pulled_message x) = msg_Queue x" for x
    by (simp_all add: pulled_message_def Let_def)
  have ids: "pm_Id ` set ms = msg_ID ` set found" "map pm_Id ms = map msg_ID found"
    by (simp_all add: ms i image_image comp_def)
  have "card I \<le> 1000" "pr_Amount req \<ge> 1 \<longrightarrow> int (card I) \<le> pr_Amount req"
    using c by (auto simp: pull_amount_def Let_def split: if_splits)
  then show ?thesis
    using p nf unfolding Let_def ids
    by (intro exI [of _ I]) (auto simp: pulled_def ms i)
qed

theorem deckard_pull_witness:
  "let d = sample_service_run [sample_adding];
       (d', r) = memory_pull sample_orders sample_glob 0 sample_clock d (sample_pull 0)
   in map pm_Id (projr r) = [''b''] \<and> card (pm_Id ` set (projr r)) \<le> 1000"
proof -
  let ?d = "sample_service_run [sample_adding]"
  obtain d' r where p: "memory_pull sample_orders sample_glob 0 sample_clock ?d (sample_pull 0) = (d', r)"
    by (meson surj_pair)
  have i: "map_sum (\<lambda>e. ()) (map pm_Id) (snd (memory_pull sample_orders sample_glob 0 sample_clock ?d (sample_pull 0)))
    = Inr [''b'']" by code_simp
  obtain ms where ms: "r = Inr ms" "map pm_Id ms = [''b'']" using i p by (cases r) auto
  obtain I where "pm_Id ` set ms \<subseteq> I" "I \<subseteq> pool_of ?d PRIMARY_POOL ''q''" "card I \<le> 1000"
    using deckard_pull [OF any_orders_sample adds_only_sample p [unfolded ms]] by (auto simp: Let_def sample_pull_def)
  moreover have "finite I" using calculation(2) finite_subset by (auto simp: mc_ids_def)
  ultimately have "card (pm_Id ` set ms) \<le> 1000" using card_mono le_trans by metis
  then show ?thesis using p ms by simp
qed





text \<open>
  C9: a removal deletes exactly the given ids of the queue, from the storage and from every pool of the
  cache, and a message that was removed is not pulled before it is added again.
\<close>

theorem deckard_remove:
  assumes "any_orders o'" "list_all (adds_only plain_id) ops"
    and "Deckard_Remove (mem_cache o' glob) (mem_storage o') t
      (memory_run o' glob LC ops (memory_deckard a LC)) ids q = (d', Inr resp)"
  shows "let d = memory_run o' glob LC ops (memory_deckard a LC) in
    stored_of d' = stored_of d - {q} \<times> set ids \<and> pool_of d' = pool_remove (pool_of d) q (set ids) \<and>
    (memory_pull o' glob now clk d' req = (d'', Inr ms) \<longrightarrow> pr_Queue req = q \<longrightarrow> pm_Id ` set ms \<inter> set ids = {})"
proof -
  let ?d = "memory_run o' glob LC ops (memory_deckard a LC)"
  note mq = memory_queue_of [OF assms(1)]
  have o1: "d_ok ?d" by (rule memory_run_ok [OF assms(1,2) memory_deckard_ok])
  note r = memory_queue.mem_laws(14,15) [OF mq o1 assms(3)]
  have o2: "d_ok d'" by (rule memory_queue.mem_laws(17) [OF mq o1 assms(3)])
  have "pm_Id ` set ms \<inter> set ids = {}" if p: "memory_pull o' glob now clk d' req = (d'', Inr ms)" "pr_Queue req = q"
  proof -
    have "pm_Id m \<in> pool_of d' PRIMARY_POOL q" if "m \<in> set ms" for m
      using memory_queue.mem_laws(7) [OF mq o2 any_ordersD(4) [OF assms(1)] p(1) [unfolded memory_pull_def] that] p(2)
      by simp
    then show ?thesis unfolding r(2) pool_remove_def by auto
  qed
  then show ?thesis using r by (simp add: Let_def)
qed

theorem deckard_remove_witness:
  "let d = sample_service_run [sample_adding];
       (d', r) = Deckard_Remove (mem_cache sample_orders sample_glob) (mem_storage sample_orders) 0 d [''b''] ''q'';
       (d'', r') = memory_pull sample_orders sample_glob 0 sample_clock d' (sample_pull 2)
   in r = Inr \<lparr>rr_CacheRemoved = 1, rr_StorageRemoved = 1\<rparr> \<and> (''q'', ''b'') \<notin> stored_of d' \<and>
      ''b'' \<notin> pm_Id ` set (projr r')"
proof -
  let ?rem = "\<lambda>d. Deckard_Remove (mem_cache sample_orders sample_glob) (mem_storage sample_orders) 0 d [''b''] ''q''"
  let ?pull = "\<lambda>d. memory_pull sample_orders sample_glob 0 sample_clock d (sample_pull 2)"
  obtain d' r where p: "?rem (sample_service_run [sample_adding]) = (d', r)" by (meson surj_pair)
  obtain d'' r' where p': "?pull d' = (d'', r')" by (meson surj_pair)
  have "snd (?rem (sample_service_run [sample_adding])) = Inr \<lparr>rr_CacheRemoved = 1, rr_StorageRemoved = 1\<rparr>"
    by code_simp
  then have r: "r = Inr \<lparr>rr_CacheRemoved = 1, rr_StorageRemoved = 1\<rparr>" using p by simp
  have "map_sum (\<lambda>e. ()) (\<lambda>x. ()) (snd (?pull (fst (?rem (sample_service_run [sample_adding]))))) = Inr ()"
    by code_simp
  then obtain ms where ms: "r' = Inr ms" using p p' by (cases r') auto
  show ?thesis
    using deckard_remove [OF any_orders_sample adds_only_sample p [unfolded r], of 0 sample_clock "sample_pull 2" d'' ms]
      p p' r ms
    by (auto simp: Let_def sample_pull_def)
qed

end
