(* ===== verification/Configuration_Props.thy ===== *)
theory Configuration_Props
  imports Deckard_Props
begin

text \<open>
  Properties of the configuration service over the memory storage, for any local cache that keeps the
  promises of \<open>go_cache\<close>.
\<close>

section \<open>The local cache agrees with the storage\<close>

datatype config_op = EditConfiguration time QueueConfiguration | GetConfiguration clock string

fun config_exec ::
    "orders \<Rightarrow> 'l LocalCache \<Rightarrow> config_op \<Rightarrow> MemoryStorage \<times> 'l \<Rightarrow> MemoryStorage \<times> 'l" where
  "config_exec o' LC (EditConfiguration t cfg) (st, lc) =
     (let (st', lc', err) = QueueConfiguration_Edit (mem_storage o') LC t st lc (Some cfg) in (st', lc'))"
| "config_exec o' LC (GetConfiguration clk q) (st, lc) =
     (st, fst (QueueConfiguration_Get (mem_storage o') LC clk st lc q))"

definition config_run ::
    "orders \<Rightarrow> 'l LocalCache \<Rightarrow> config_op list \<Rightarrow> MemoryStorage \<times> 'l" where
  "config_run o' LC ops = fold (config_exec o' LC) ops (NewMemoryStorage, NewQueueConfigurationService LC)"

definition configured :: "MemoryStorage \<Rightarrow> string \<Rightarrow> QueueConfiguration" where
  "configured st q = (case map_of (configurations st) q of None \<Rightarrow> \<lparr>cfg_Queue = q, cfg_MaxElements = 0\<rparr> | Some c \<Rightarrow> c)"

text \<open>From the instant \<open>now\<close> on, what the local cache holds is what the storage holds.\<close>

definition config_inv :: "'l LocalCache \<Rightarrow> time \<Rightarrow> MemoryStorage \<times> 'l \<Rightarrow> bool" where
  "config_inv LC now s \<longleftrightarrow>
     (\<forall>t\<ge>now. \<forall>q c. lc_Get LC t (snd s) q = Some c \<longrightarrow> c = configured (fst s) q) \<and>
     (\<forall>q. cfg_MaxElements (configured (fst s) q) \<ge> 0 \<and> cfg_Queue (configured (fst s) q) = q)"

fun op_times :: "config_op \<Rightarrow> time list" where
  "op_times (EditConfiguration t cfg) = [t]"
| "op_times (GetConfiguration clk q) = [clk 0, clk 1]"

lemma go_cacheD:
  assumes "go_cache e c LC"
  shows "lc_Get LC t (lc_New LC e c) k = None"
    "lc_Get LC t' (lc_Set LC t l k v) k = Some w \<Longrightarrow> w = v"
    "t \<le> t' \<Longrightarrow> t' < t + e \<Longrightarrow> lc_Get LC t' (lc_Set LC t l k v) k = Some v"
    "k' \<noteq> k \<Longrightarrow> lc_Get LC t' (lc_Set LC t l k v) k' = lc_Get LC t' l k'"
    "lc_Get LC t (lc_Delete LC l k) k = None"
    "k' \<noteq> k \<Longrightarrow> lc_Get LC t (lc_Delete LC l k) k' = lc_Get LC t l k'"
    "lc_Get LC t l k = None \<Longrightarrow> t \<le> t' \<Longrightarrow> lc_Get LC t' l k = None"
proof -
  note c = assms [unfolded go_cache_def]
  have c1: "\<forall>t k. lc_Get LC t (lc_New LC e c) k = None" using c by (elim conjE)
  then show "lc_Get LC t (lc_New LC e c) k = None" by (elim allE)
  have c2: "\<forall>t t' l k v. lc_Get LC t' (lc_Set LC t l k v) k \<in> {None, Some v}" using c by (elim conjE)
  then have "lc_Get LC t' (lc_Set LC t l k v) k \<in> {None, Some v}" by (elim allE)
  then show "w = v" if "lc_Get LC t' (lc_Set LC t l k v) k = Some w" using that by simp
  have c3: "\<forall>t t' l k v. t \<le> t' \<and> t' < t + e \<longrightarrow> lc_Get LC t' (lc_Set LC t l k v) k = Some v" using c by (elim conjE)
  show "lc_Get LC t' (lc_Set LC t l k v) k = Some v" if "t \<le> t'" "t' < t + e"
    by (rule c3 [rule_format]) (use that in simp)
  have c4: "\<forall>t t' l k k' v. k' \<noteq> k \<longrightarrow> lc_Get LC t' (lc_Set LC t l k v) k' = lc_Get LC t' l k'" using c by (elim conjE)
  show "lc_Get LC t' (lc_Set LC t l k v) k' = lc_Get LC t' l k'" if "k' \<noteq> k"
    by (rule c4 [rule_format, OF that])
  have c5: "\<forall>t l k. lc_Get LC t (lc_Delete LC l k) k = None" using c by (elim conjE)
  then show "lc_Get LC t (lc_Delete LC l k) k = None" by (elim allE)
  have c6: "\<forall>t l k k'. k' \<noteq> k \<longrightarrow> lc_Get LC t (lc_Delete LC l k) k' = lc_Get LC t l k'" using c by (elim conjE)
  show "lc_Get LC t (lc_Delete LC l k) k' = lc_Get LC t l k'" if "k' \<noteq> k"
    by (rule c6 [rule_format, OF that])
  have c7: "\<forall>t t' l k v. t \<le> t' \<and> lc_Get LC t' l k = Some v \<longrightarrow> lc_Get LC t l k = Some v" using c by (elim conjE)
  show "lc_Get LC t' l k = None" if n: "lc_Get LC t l k = None" "t \<le> t'"
  proof (cases "lc_Get LC t' l k")
    case (Some v)
    have "lc_Get LC t l k = Some v" by (rule c7 [rule_format]) (use n(2) Some in simp)
    then show ?thesis using n(1) by simp
  qed
qed

lemma storage_edit:
  "n \<noteq> 0 \<Longrightarrow> s_EditQueueConfiguration (memory_storage ord) st \<lparr>cfg_Queue = q, cfg_MaxElements = n\<rparr> = (st', err) \<Longrightarrow>
   err = None \<and> configured st' q' = (if q' = q then \<lparr>cfg_Queue = q, cfg_MaxElements = max n 0\<rparr> else configured st q')"
  by (auto simp: memory_storage_def MemoryStorage_EditQueueConfiguration_def configured_def Let_def update_conv'
      split: if_splits)

lemma config_invD:
  assumes "config_inv LC now (st, lc)"
  shows "now \<le> t \<Longrightarrow> lc_Get LC t lc q = Some c \<Longrightarrow> c = configured st q"
    "cfg_MaxElements (configured st q) \<ge> 0" "cfg_Queue (configured st q) = q"
  using assms by (simp_all add: config_inv_def)

lemma config_invI:
  "(\<And>t q c. now \<le> t \<Longrightarrow> lc_Get LC t lc q = Some c \<Longrightarrow> c = configured st q) \<Longrightarrow>
   (\<And>q. cfg_MaxElements (configured st q) \<ge> 0) \<Longrightarrow> (\<And>q. cfg_Queue (configured st q) = q) \<Longrightarrow> config_inv LC now (st, lc)"
  by (simp add: config_inv_def)

lemma config_inv_later: "config_inv LC now (st, lc) \<Longrightarrow> now \<le> t \<Longrightarrow> config_inv LC t (st, lc)"
  unfolding config_inv_def using order_trans by blast

lemma Edit_inv:
  assumes "go_cache cache_expiration cache_cleanup LC" "config_inv LC now (st, lc)" "now \<le> t"
    and "QueueConfiguration_Edit (memory_storage ord) LC t st lc (Some \<lparr>cfg_Queue = q, cfg_MaxElements = n\<rparr>) = (st', lc', err)"
  shows "config_inv LC t (st', lc')" "n \<noteq> 0 \<Longrightarrow> configured st' q = \<lparr>cfg_Queue = q, cfg_MaxElements = max n 0\<rparr>"
    "err = None"
proof -
  let ?cfg = "\<lparr>cfg_Queue = q, cfg_MaxElements = n\<rparr>"
  let ?goal = "config_inv LC t (st', lc') \<and>
    (n \<noteq> 0 \<longrightarrow> configured st' q = \<lparr>cfg_Queue = q, cfg_MaxElements = max n 0\<rparr>) \<and> err = None"
  have keep: "config_inv LC t (st, lc)" using assms(2,3) by (rule config_inv_later)
  have ?goal
  proof (cases "n = 0")
    case True
    then show ?thesis using keep assms(4) by (simp add: QueueConfiguration_Edit_def)
  next
    case False
    obtain st1 e1 where ed: "s_EditQueueConfiguration (memory_storage ord) st ?cfg = (st1, e1)" by (meson surj_pair)
    have cf: "e1 = None \<and> configured st1 k = (if k = q then \<lparr>cfg_Queue = q, cfg_MaxElements = max n 0\<rparr> else configured st k)" for k
      by (rule storage_edit [OF False ed])
    have edited: "config_inv LC t (st1, l)" if "\<And>u. t \<le> u \<Longrightarrow> lc_Get LC u l q = None"
      "\<And>u k. k \<noteq> q \<Longrightarrow> lc_Get LC u l k = lc_Get LC u lc k" for l
    proof (rule config_invI)
      fix u k c assume "t \<le> u" "lc_Get LC u l k = Some c"
      then show "c = configured st1 k"
        using that(1) [OF \<open>t \<le> u\<close>] that(2) [of k u] cf [of k] config_invD(1) [OF keep \<open>t \<le> u\<close>, of k c]
        by (cases "k = q") simp_all
    qed (use cf config_invD(2,3) [OF keep] in simp_all)
    show ?thesis
    proof (cases "lc_Get LC t lc q")
      case None
      then have "st' = st1" "lc' = lc" "err = e1" using assms(4) False ed by (auto simp: QueueConfiguration_Edit_def)
      then show ?thesis using edited [of lc] go_cacheD(7) [OF assms(1) None] cf by simp
    next
      case (Some c)
      have c: "c = configured st q" by (rule config_invD(1) [OF keep order_refl Some])
      show ?thesis
      proof (cases "cfg_MaxElements c = n")
        case True
        then have "st' = st" "lc' = lc" "err = None" using assms(4) False Some by (auto simp: QueueConfiguration_Edit_def)
        then show ?thesis using keep True c config_invD(2,3) [OF keep, of q] by (simp add: QueueConfiguration.equality)
      next
        case ne: False
        then have "st' = st1" "lc' = lc_Delete LC lc q" "err = e1"
          using assms(4) False ed Some by (auto simp: QueueConfiguration_Edit_def)
        then show ?thesis
          using edited [of "lc_Delete LC lc q"] go_cacheD(5,6) [OF assms(1)] cf by simp
      qed
    qed
  qed
  then show "config_inv LC t (st', lc')" "n \<noteq> 0 \<Longrightarrow> configured st' q = \<lparr>cfg_Queue = q, cfg_MaxElements = max n 0\<rparr>"
    "err = None" by blast+
qed

lemma Get_inv:
  assumes "go_cache cache_expiration cache_cleanup LC" "config_inv LC now (st, lc)" "now \<le> clk 0" "clk 0 \<le> clk 1"
    and "QueueConfiguration_Get (memory_storage ord) LC clk st lc q = (lc', r)"
  shows "config_inv LC (clk 1) (st, lc')" "r = Inr (configured st q)"
proof -
  have keep: "config_inv LC (clk 1) (st, lc)" using assms(3,4) by (intro config_inv_later [OF assms(2)]) simp
  have "config_inv LC (clk 1) (st, lc') \<and> r = Inr (configured st q)"
  proof (cases "lc_Get LC (clk 0) lc q")
    case None
    have "r = Inr (configured st q)" "lc' = lc_Set LC (clk 1) lc q (configured st q)"
      using assms(5) None
      by (auto simp: QueueConfiguration_Get_def memory_storage_def MemoryStorage_GetQueueConfiguration_def configured_def Let_def)
    moreover have "config_inv LC (clk 1) (st, lc_Set LC (clk 1) lc q (configured st q))"
    proof (rule config_invI)
      fix t k c assume "clk 1 \<le> t" "lc_Get LC t (lc_Set LC (clk 1) lc q (configured st q)) k = Some c"
      then show "c = configured st k"
      proof (cases "k = q")
        case True
        then show ?thesis using go_cacheD(2) [OF assms(1)] \<open>lc_Get LC t _ k = Some c\<close> by blast
      next
        case False
        then show ?thesis
          using config_invD(1) [OF keep \<open>clk 1 \<le> t\<close>] go_cacheD(4) [OF assms(1) False] \<open>lc_Get LC t _ k = Some c\<close>
          by metis
      qed
    qed (use config_invD(2,3) [OF keep] in simp_all)
    ultimately show ?thesis by simp
  next
    case (Some c)
    have "c = configured st q" by (rule config_invD(1) [OF assms(2,3) Some])
    then show ?thesis using assms(5) Some keep by (simp add: QueueConfiguration_Get_def)
  qed
  then show "config_inv LC (clk 1) (st, lc')" "r = Inr (configured st q)" by blast+
qed

lemma config_start: "go_cache cache_expiration cache_cleanup LC \<Longrightarrow>
  config_inv LC now (NewMemoryStorage, NewQueueConfigurationService LC)"
  by (rule config_invI)
    (simp_all add: NewQueueConfigurationService_def go_cacheD(1) configured_def NewMemoryStorage_def)

lemma config_run_inv:
  assumes "go_cache cache_expiration cache_cleanup LC" "config_inv LC now s"
    and "sorted (now # concat (map op_times ops))"
  shows "\<exists>t. config_inv LC t (fold (config_exec o' LC) ops s) \<and> t \<in> insert now (set (concat (map op_times ops)))"
  using assms(2,3)
proof (induction ops arbitrary: now s)
  case (Cons op ops)
  obtain st lc where s: "s = (st, lc)" by (meson surj_pair)
  have "\<exists>t. config_inv LC t (config_exec o' LC op s) \<and> t \<in> set (op_times op) \<and>
    sorted (t # concat (map op_times ops))"
  proof (cases op)
    case (EditConfiguration t cfg)
    obtain st' lc' e where r: "QueueConfiguration_Edit (mem_storage o') LC t st lc (Some cfg) = (st', lc', e)"
      by (rule prod_cases3)
    obtain x n where c: "cfg = \<lparr>cfg_Queue = x, cfg_MaxElements = n\<rparr>" by (cases cfg)
    have "config_inv LC t (st', lc')"
      by (rule Edit_inv(1) [OF assms(1) Cons.prems(1) [unfolded s] _ r [unfolded c]])
        (use Cons.prems(2) EditConfiguration in simp)
    then show ?thesis using Cons.prems(2) EditConfiguration r s by simp
  next
    case (GetConfiguration clk q)
    obtain lc' r where g: "QueueConfiguration_Get (mem_storage o') LC clk st lc q = (lc', r)" by (meson surj_pair)
    have "config_inv LC (clk 1) (st, lc')"
      by (rule Get_inv(1) [OF assms(1) Cons.prems(1) [unfolded s] _ _ g])
        (use Cons.prems(2) GetConfiguration in simp_all)
    then show ?thesis using Cons.prems(2) GetConfiguration g s by (intro exI [of _ "clk 1"]) simp
  qed
  then obtain t where t: "config_inv LC t (config_exec o' LC op s)" "t \<in> set (op_times op)"
    "sorted (t # concat (map op_times ops))" by blast
  from Cons.IH [OF t(1,3)] t(2) show ?case by auto
qed auto

lemma sorted_from_hd:
  "sorted (ts @ t # us) \<Longrightarrow> sorted (hd (ts @ [t]) # ts) \<and> (\<forall>u\<in>insert (hd (ts @ [t])) (set ts). u \<le> t)"
  by (cases ts) (auto simp: sorted_append)

section \<open>Reading what was written\<close>

text \<open>
  C10: after any sequence of edits and reads of configurations, a read of a queue that follows an edit of it
  returns the edited maximum, whether the local cache holds the queue or not; a negative maximum is read as 0,
  which means no limit.
\<close>

theorem configuration_read_write:
  assumes "go_cache cache_expiration cache_cleanup LC"
    and "sorted (concat (map op_times ops) @ [t, clk 0, clk 1])" "n \<noteq> 0"
    and "config_run o' LC ops = (st, lc)"
    and "QueueConfiguration_Edit (mem_storage o') LC t st lc (Some \<lparr>cfg_Queue = q, cfg_MaxElements = n\<rparr>) = (st', lc', err)"
    and "QueueConfiguration_Get (mem_storage o') LC clk st' lc' q = (lc'', r)"
  shows "err = None \<and> r = Inr \<lparr>cfg_Queue = q, cfg_MaxElements = max n 0\<rparr>"
proof -
  let ?now = "hd (concat (map op_times ops) @ [t])"
  have st: "sorted (?now # concat (map op_times ops))" "\<forall>u \<in> insert ?now (set (concat (map op_times ops))). u \<le> t"
    using sorted_from_hd [OF assms(2)] by blast+
  obtain u where u: "config_inv LC u (st, lc)" "u \<in> insert ?now (set (concat (map op_times ops)))"
    using config_run_inv [OF assms(1) config_start [OF assms(1)] st(1), of o',
        unfolded config_run_def [symmetric] assms(4)] by blast
  have "u \<le> t" using st(2) u(2) by blast
  note e = Edit_inv [OF assms(1) u(1) this assms(5)]
  have "r = Inr (configured st' q)"
    by (rule Get_inv(2) [OF assms(1) e(1) _ _ assms(6)]) (use assms(2) in \<open>simp_all add: sorted_append\<close>)
  then show ?thesis using e(2,3) assms(3) by simp
qed

lemma go_cache_sample: "go_cache e c sample_cache"
  by (auto simp: go_cache_def sample_cache_def update_conv' delete_conv')

theorem configuration_read_write_witness:
  "let ops = [EditConfiguration 0 \<lparr>cfg_Queue = ''q'', cfg_MaxElements = 7\<rparr>, GetConfiguration (\<lambda>n. 1) ''q''];
       (st, lc) = config_run sample_orders sample_cache ops;
       (st', lc', err) = QueueConfiguration_Edit (mem_storage sample_orders) sample_cache 2 st lc
          (Some \<lparr>cfg_Queue = ''q'', cfg_MaxElements = -1\<rparr>)
   in snd (QueueConfiguration_Get (mem_storage sample_orders) sample_cache (\<lambda>n. 3) st' lc' ''q'') =
      Inr \<lparr>cfg_Queue = ''q'', cfg_MaxElements = 0\<rparr>"
proof -
  let ?ops = "[EditConfiguration 0 \<lparr>cfg_Queue = ''q'', cfg_MaxElements = 7\<rparr>, GetConfiguration (\<lambda>n. 1) ''q'']"
  obtain st lc where r: "config_run sample_orders sample_cache ?ops = (st, lc)" by (meson surj_pair)
  obtain st' lc' err where e: "QueueConfiguration_Edit (mem_storage sample_orders) sample_cache 2 st lc
      (Some \<lparr>cfg_Queue = ''q'', cfg_MaxElements = -1\<rparr>) = (st', lc', err)" by (rule prod_cases3)
  obtain lc'' g where g: "QueueConfiguration_Get (mem_storage sample_orders) sample_cache (\<lambda>n. 3) st' lc' ''q'' = (lc'', g)"
    by (meson surj_pair)
  have "sorted (concat (map op_times ?ops) @ [2, (\<lambda>n. 3) (0 :: nat), (\<lambda>n. 3) (1 :: nat)])" by simp
  from configuration_read_write [OF go_cache_sample this _ r e g] show ?thesis using r e g by simp
qed

section \<open>Flush and the local cache\<close>

text \<open>
  C11: a flush of the memory instance empties the storage, but not the local cache of configurations. A queue
  that was configured and read before the flush still reads its old maximum within nine minutes, and an edit
  that sets this maximum again is answered with success and stores nothing.
\<close>

theorem flush_keeps_configuration:
  assumes "go_cache cache_expiration cache_cleanup LC" "n > 0"
    and "clk 1 \<le> clk' 0" "clk' 0 \<le> u" "u < clk 1 + cache_expiration"
    and "d0 = memory_deckard a LC"
    and "d1 = fst (Deckard_EditQueue (mem_storage o') LC t d0 q (Some n))"
    and "d2 = fst (Deckard_GetQueue (mem_storage o') LC clk d1 q)"
    and "d3 = fst (Deckard_Flush (mem_cache o' glob) (mem_storage o') d2)"
  shows "snd (Deckard_GetQueue (mem_storage o') LC clk' d3 q) = Inr \<lparr>cfg_Queue = q, cfg_MaxElements = n\<rparr> \<and>
    (let (d4, r) = Deckard_EditQueue (mem_storage o') LC u d3 q (Some n) in
      r = Inr (q, True) \<and> configurations (q_storage (d_queue d4)) = [])"
proof -
  let ?cfg = "\<lparr>cfg_Queue = q, cfg_MaxElements = n\<rparr>" and ?S = "mem_storage o'"
  let ?l = "NewQueueConfigurationService LC"
  have none: "lc_Get LC v ?l k = None" for v k
    by (simp add: NewQueueConfigurationService_def go_cacheD(1) [OF assms(1)])
  have d1: "d_localCache d1 = ?l" "configurations (q_storage (d_queue d1)) = [(q, ?cfg)]"
      "d_memoryInstance d1"
    using assms(2) by (simp_all add: assms(6,7) memory_deckard_def NewMemoryDeckardService_def NewDeckardInstance_def
        NewQueue_def NewMemoryStorage_def Deckard_EditQueue_def QueueConfiguration_Edit_def none memory_storage_def
        MemoryStorage_EditQueueConfiguration_def)
  have d2: "d_localCache d2 = lc_Set LC (clk 1) ?l q ?cfg" "d_memoryInstance d2"
    using d1 by (simp_all add: assms(8) Deckard_GetQueue_def QueueConfiguration_Get_def none memory_storage_def
        MemoryStorage_GetQueueConfiguration_def Let_def)
  have d3: "d_localCache d3 = lc_Set LC (clk 1) ?l q ?cfg" "configurations (q_storage (d_queue d3)) = []"
    using d2 by (simp_all add: assms(9) Deckard_Flush_def Queue_Flush_def memory_storage_def MemoryStorage_Flush_def
        Let_def)
  have g: "lc_Get LC v (d_localCache d3) q = Some ?cfg" if "clk' 0 \<le> v" "v \<le> u" for v
    unfolding d3(1) by (rule go_cacheD(3) [OF assms(1)]) (use assms(3-5) that in simp_all)
  show ?thesis
    using d3(2) g [of "clk' 0"] g [of u] assms(2,4)
    by (simp add: Deckard_GetQueue_def QueueConfiguration_Get_def Deckard_EditQueue_def QueueConfiguration_Edit_def)
qed

theorem flush_keeps_configuration_witness:
  "let d0 = sample_deckard;
       d1 = fst (Deckard_EditQueue (mem_storage sample_orders) sample_cache 0 d0 ''q'' (Some 7));
       d2 = fst (Deckard_GetQueue (mem_storage sample_orders) sample_cache (\<lambda>n. 1) d1 ''q'');
       d3 = fst (Deckard_Flush (mem_cache sample_orders sample_glob) (mem_storage sample_orders) d2)
   in snd (Deckard_GetQueue (mem_storage sample_orders) sample_cache (\<lambda>n. 2) d3 ''q'') =
      Inr \<lparr>cfg_Queue = ''q'', cfg_MaxElements = 7\<rparr>"
  using flush_keeps_configuration [OF go_cache_sample, of 7 "\<lambda>n. 1" "\<lambda>n. 2" 3 sample_deckard sample_auditor _
      sample_orders 0 "''q''" _ _ sample_glob]
  by (simp add: Let_def cache_expiration_def)

end
