(* ===== verification/Redis_Scripts.thy ===== *)
theory Redis_Scripts
  imports Redis_Client
begin

text \<open>
  \<^verbatim>\<open>internal/queue/cache/redis_cache_scripts.go\<close>: the Lua scripts of the Redis cache. A script is a function on
  the state of the server that answers with a reply or an error. Its commands take effect one after the
  other and stay in effect when a later one fails, as Redis does not roll a script back. The keys and
  arguments of a script are the arguments of its function, under the names its comment gives them.
\<close>

datatype redis_reply = RInt int64 | RStr string | RArr "string list"

section \<open>Lua\<close>

text \<open>\<^verbatim>\<open>unpack\<close> of more values than the Lua stack has room for is an error.\<close>

definition lua_unpack :: "('r, 'n) Redis \<Rightarrow> nat \<Rightarrow> unit result" where
  "lua_unpack R n = (if n \<le> rd_unpack R then Inr () else Inl (Err ''too many results to unpack''))"

text \<open>
  \<^verbatim>\<open>tostring(tonumber(ARGV[1]) - 1)\<close>: Lua prints a number with 14 significant digits, so a larger one has an
  exponent and is not an index to Redis.
\<close>

definition lua_pred :: "int64 \<Rightarrow> int64 result" where
  "lua_pred n = (if \<bar>n - 1\<bar> < 10 ^ 14 then Inr (n - 1)
                 else Inl (Err ''ERR value is not an integer or out of range''))"

section \<open>The scripts\<close>

fun remove_from_pools ::
    "('r, 'n) Redis \<Rightarrow> string list \<Rightarrow> string list \<Rightarrow> int64 \<Rightarrow> 'r \<Rightarrow> 'r \<times> int64 result" where
  "remove_from_pools R [] elements removed r = (r, Inr removed)"
| "remove_from_pools R (pool # pools) elements removed r =
     and_then (r, lua_unpack R (length elements)) (\<lambda>_ r.
     and_then (rd_ZREM R r pool elements) (\<lambda>n r.
     remove_from_pools R pools elements (removed + n) r))"

definition removeElementScript ::
    "('r, 'n) Redis \<Rightarrow> string list \<Rightarrow> string list \<Rightarrow> 'r \<Rightarrow> 'r \<times> redis_reply result" where
  "removeElementScript R pools elements r =
     and_then (remove_from_pools R pools elements 0 r) (\<lambda>removed r. (r, Inr (RInt removed)))"

definition moveElementScript ::
    "('r, 'n) Redis \<Rightarrow> string \<Rightarrow> string \<Rightarrow> float64 \<Rightarrow> string \<Rightarrow> 'r \<Rightarrow> 'r \<times> redis_reply result" where
  "moveElementScript R destination source score element r =
     and_then (rd_ZREM R r source [element]) (\<lambda>removed r.
       if removed > 0
       then and_then (rd_ZADD R r destination [(score, element)]) (\<lambda>n r. (r, Inr (RInt n)))
       else (r, Inr (RInt 0)))"

definition lockElementScript ::
    "('r, 'n) Redis \<Rightarrow> string \<Rightarrow> string \<Rightarrow> string \<Rightarrow> float64 \<Rightarrow> string \<Rightarrow> float64 \<Rightarrow> 'r \<Rightarrow>
     'r \<times> redis_reply result" where
  "lockElementScript R active lock lock_score score element result_score r =
     and_then (rd_ZREM R r active [element]) (\<lambda>removed r.
       if removed > 0
       then
         and_then (rd_ZADD R r lock [(score, element)]) (\<lambda>result r.
           if feq result_score (Fin (- 1)) then (r, Inr (RInt result))
           else and_then (rd_ZADD R r lock_score [(result_score, element)]) (\<lambda>n r. (r, Inr (RInt n))))
       else (r, Inr (RInt 0)))"

fun exists_in :: "('r, 'n) Redis \<Rightarrow> 'r \<Rightarrow> string list \<Rightarrow> string \<Rightarrow> bool result" where
  "exists_in R r [] element = Inr False"
| "exists_in R r (pool # pools) element =
     (case rd_ZSCORE R r pool element of
        Inl e \<Rightarrow> Inl e
      | Inr None \<Rightarrow> exists_in R r pools element
      | Inr (Some score) \<Rightarrow> Inr True)"

fun to_insert ::
    "('r, 'n) Redis \<Rightarrow> 'r \<Rightarrow> string list \<Rightarrow> (float64 \<times> string) list \<Rightarrow> (float64 \<times> string) list result" where
  "to_insert R r pools [] = Inr []"
| "to_insert R r pools ((score, element) # elements) =
     (case exists_in R r pools element of
        Inl e \<Rightarrow> Inl e
      | Inr exists \<Rightarrow>
          (case to_insert R r pools elements of
             Inl e \<Rightarrow> Inl e
           | Inr rest \<Rightarrow> Inr (if exists then rest else (score, element) # rest)))"

definition addElementsScript ::
    "('r, 'n) Redis \<Rightarrow> string \<Rightarrow> string list \<Rightarrow> (float64 \<times> string) list \<Rightarrow> 'r \<Rightarrow> 'r \<times> redis_reply result" where
  "addElementsScript R destination pools elements r =
     and_then (r, to_insert R r (destination # pools) elements) (\<lambda>toInsert r.
       let inserted = map snd toInsert
       in if length toInsert = 0 then (r, Inr (RArr inserted))
          else
            and_then (r, lua_unpack R (2 * length toInsert)) (\<lambda>_ r.
            and_then (rd_ZADD R r destination toInsert) (\<lambda>_ r.
            (r, Inr (RArr inserted)))))"

definition containsElementScript ::
    "('r, 'n) Redis \<Rightarrow> string list \<Rightarrow> string \<Rightarrow> 'r \<Rightarrow> 'r \<times> redis_reply result" where
  "containsElementScript R pools element r =
     and_then (r, exists_in R r pools element) (\<lambda>found r. (r, Inr (RInt (if found then 1 else 0))))"

fun add_each :: "('r, 'n) Redis \<Rightarrow> string \<Rightarrow> float64 \<Rightarrow> string list \<Rightarrow> 'r \<Rightarrow> 'r \<times> unit result" where
  "add_each R destination score [] r = (r, Inr ())"
| "add_each R destination score (key # keys) r =
     and_then (rd_ZADD R r destination [(score, key)]) (\<lambda>_ r. add_each R destination score keys r)"

text \<open>The common end of the scripts that move a list of elements with one score.\<close>

definition move_each ::
    "('r, 'n) Redis \<Rightarrow> string \<Rightarrow> string \<Rightarrow> float64 \<Rightarrow> string list \<Rightarrow> 'r \<Rightarrow> 'r \<times> redis_reply result" where
  "move_each R destination source score elements r =
     (if elements = [] then (r, Inr (RStr []))
      else
        and_then (add_each R destination score elements r) (\<lambda>_ r.
        and_then (r, lua_unpack R (length elements)) (\<lambda>_ r.
        and_then (rd_ZREM R r source elements) (\<lambda>_ r.
        (r, Inr (RArr elements))))))"

definition moveFilteredElementsScript ::
    "('r, 'n) Redis \<Rightarrow> string \<Rightarrow> string \<Rightarrow> float64 \<Rightarrow> float64 \<Rightarrow> int64 \<Rightarrow> 'r \<Rightarrow> 'r \<times> redis_reply result" where
  "moveFilteredElementsScript R destination source filter_score score n r =
     and_then (r, rd_ZREVRANGEBYSCORE R r source filter_score (Fin 0) n) (\<lambda>elements r.
     move_each R destination source score elements r)"

fun lock_scores ::
    "('r, 'n) Redis \<Rightarrow> 'r \<Rightarrow> string \<Rightarrow> float64 \<Rightarrow> string list \<Rightarrow> (float64 \<times> string) list result" where
  "lock_scores R r lock_score default_score [] = Inr []"
| "lock_scores R r lock_score default_score (key # keys) =
     (case rd_ZSCORE R r lock_score key of
        Inl e \<Rightarrow> Inl e
      | Inr lockScore \<Rightarrow>
          (case lock_scores R r lock_score default_score keys of
             Inl e \<Rightarrow> Inl e
           | Inr bulkData \<Rightarrow> Inr ((case lockScore of None \<Rightarrow> default_score | Some s \<Rightarrow> s, key) # bulkData)))"

definition unlockElementsScript ::
    "('r, 'n) Redis \<Rightarrow> string \<Rightarrow> string \<Rightarrow> string \<Rightarrow> int64 \<Rightarrow> float64 \<Rightarrow> float64 \<Rightarrow> 'r \<Rightarrow>
     'r \<times> redis_reply result" where
  "unlockElementsScript R lock destination lock_score n timestamp default_score r =
     and_then (r, rd_ZREVRANGEBYSCORE R r lock timestamp (Fin 0) n) (\<lambda>elements r.
       if elements = [] then (r, Inr (RStr []))
       else
         and_then (r, lock_scores R r lock_score default_score elements) (\<lambda>bulkData r.
         and_then (r, lua_unpack R (2 * length bulkData)) (\<lambda>_ r.
         and_then (rd_ZADD R r destination bulkData) (\<lambda>_ r.
         and_then (r, lua_unpack R (length elements)) (\<lambda>_ r.
         and_then (rd_ZREM R r lock elements) (\<lambda>_ r.
         and_then (rd_ZREM R r lock_score elements) (\<lambda>_ r.
         (r, Inr (RArr elements)))))))))"

text \<open>
  The filters of a pull are the strings \<^verbatim>\<open>-inf\<close> and \<^verbatim>\<open>+inf\<close>, here \<open>None\<close>, where the caller gives no score. An
  infinite score that the caller gives is written \<^verbatim>\<open>-Inf\<close> or \<^verbatim>\<open>+Inf\<close>, so it is a filter like the others.
\<close>

definition pullElementsScript ::
    "('r, 'n) Redis \<Rightarrow> string \<Rightarrow> string \<Rightarrow> int64 \<Rightarrow> float64 \<Rightarrow> float64 option \<Rightarrow> float64 option \<Rightarrow> 'r \<Rightarrow>
     'r \<times> redis_reply result" where
  "pullElementsScript R source destination n score minScore maxScore r =
     and_then (r, if minScore = None \<and> maxScore = None
                  then (case lua_pred n of Inl e \<Rightarrow> Inl e | Inr stop \<Rightarrow> rd_ZRANGE R r source 0 stop)
                  else rd_ZRANGEBYSCORE R r source (case minScore of None \<Rightarrow> NInf | Some s \<Rightarrow> s)
                         (case maxScore of None \<Rightarrow> PInf | Some s \<Rightarrow> s) n)
       (\<lambda>elements r. move_each R destination source score elements r)"

end
