(* ===== verification/Redis_Cache.thy ===== *)
theory Redis_Cache
  imports Redis_Scripts Score
begin

text \<open>
  \<^verbatim>\<open>internal/queue/cache/redis_cache.go\<close>: the cache that keeps the pools of a queue in sorted sets of a Redis
  server. The score of a member is the priority in the available pool, the deadline in the processing pool
  and the end of the lock in the lock pools. The latencies that the methods record are left out. A method
  takes one instant for the readings of the clock it makes.
\<close>

section \<open>State and keys\<close>

record ('r, 'n) RedisCache =
  rc_Client :: 'r
  rc_link :: 'n
  rc_clusterMode :: bool
  rc_keyPrefix :: string

definition POOL_SUFFIX :: string where "POOL_SUFFIX = '':queue:''"
definition PROCESSING_POOL_SUFFIX :: string where "PROCESSING_POOL_SUFFIX = '':tmp''"
definition SCORE_SUFFIX :: string where "SCORE_SUFFIX = '':score''"
definition LOCK_SUFFIX :: "LockType \<Rightarrow> string" where "LOCK_SUFFIX t = '':'' @ lock_type_string t"
definition LOCK_SCORE_SUFFIX :: "LockType \<Rightarrow> string" where "LOCK_SCORE_SUFFIX t = LOCK_SUFFIX t @ SCORE_SUFFIX"

text \<open>The spaces that \<^verbatim>\<open>strings.TrimSpace\<close> removes from an ASCII string.\<close>

definition is_space :: "char \<Rightarrow> bool" where
  "is_space ch \<longleftrightarrow> ch \<in> set [CHR 0x09, CHR 0x0A, CHR 0x0B, CHR 0x0C, CHR 0x0D, CHR '' '']"

definition trim :: "(char \<Rightarrow> bool) \<Rightarrow> string \<Rightarrow> string" where
  "trim p s = rev (dropWhile p (rev (dropWhile p s)))"

definition resolveConfiguredPrefix :: "string \<Rightarrow> string" where
  "resolveConfiguredPrefix configured =
     (let prefix = trim is_space configured
      in if prefix = [] then ''deckard_v1'' else trim (\<lambda>ch. ch = CHR '':'') prefix)"

definition configuredPrefix :: "('r, 'n) RedisCache \<Rightarrow> string" where
  "configuredPrefix cache = (if rc_keyPrefix cache = [] then ''deckard_v1'' else rc_keyPrefix cache)"

definition fullPrefix :: "('r, 'n) RedisCache \<Rightarrow> string" where
  "fullPrefix cache = configuredPrefix cache"

definition poolPrefix :: "('r, 'n) RedisCache \<Rightarrow> string" where
  "poolPrefix cache = configuredPrefix cache @ POOL_SUFFIX"

definition activePool :: "('r, 'n) RedisCache \<Rightarrow> string \<Rightarrow> string" where
  "activePool cache queue = poolPrefix cache @ ''{'' @ queue @ ''}''"

definition processingPool :: "('r, 'n) RedisCache \<Rightarrow> string \<Rightarrow> string" where
  "processingPool cache queue = poolPrefix cache @ ''{'' @ queue @ ''}'' @ PROCESSING_POOL_SUFFIX"

definition lockPool :: "('r, 'n) RedisCache \<Rightarrow> string \<Rightarrow> LockType \<Rightarrow> string" where
  "lockPool cache queue lockType = poolPrefix cache @ ''{'' @ queue @ ''}'' @ '':'' @ lock_type_string lockType"

definition lockPoolScore :: "('r, 'n) RedisCache \<Rightarrow> string \<Rightarrow> LockType \<Rightarrow> string" where
  "lockPoolScore cache queue lockType =
     poolPrefix cache @ ''{'' @ queue @ ''}'' @ '':'' @ lock_type_string lockType @ SCORE_SUFFIX"

definition generalCacheKey :: "('r, 'n) RedisCache \<Rightarrow> string \<Rightarrow> string" where
  "generalCacheKey cache key = fullPrefix cache @ '':{'' @ key @ ''}''"

definition errQueueNameContainsClusterHashTag :: go_error where
  "errQueueNameContainsClusterHashTag = Err (''queue names cannot contain '{' or '}'' @ [CHR 0x27])"

definition validateQueueName :: "string \<Rightarrow> go_error option" where
  "validateQueueName queue =
     (if CHR ''{'' \<in> set queue \<or> CHR ''}'' \<in> set queue then Some errQueueNameContainsClusterHashTag else None)"

section \<open>Calls of the server\<close>

text \<open>
  \<^verbatim>\<open>Script.Run\<close>: the server runs the script once for each answer that the connection loses, and once more for
  the answer the client gets. A command that only reads leaves the state as it was, that of the connection
  included: \<^verbatim>\<open>Get\<close> and \<^verbatim>\<open>IsProcessing\<close> return no state in the interface, so what happens to a read is given by the
  state of the connection and the command, and two equal reads without a write between them end in the same way.
\<close>

definition Script_Run ::
    "('r, 'n) Redis \<Rightarrow> string \<Rightarrow> string list \<Rightarrow> ('r \<Rightarrow> 'r \<times> 'a result) \<Rightarrow> ('r, 'n) RedisCache \<Rightarrow>
     ('r, 'n) RedisCache \<times> 'a result" where
  "Script_Run R name ks script cache =
     (let (net, lost, outcome) = rd_link R (rc_link cache) name ks;
          db = ((\<lambda>r. fst (script r)) ^^ lost) (rc_Client cache)
      in case outcome of
           Some e \<Rightarrow> (cache\<lparr>rc_link := net, rc_Client := db\<rparr>, Inl e)
         | None \<Rightarrow> let (db', reply) = script db in (cache\<lparr>rc_link := net, rc_Client := db'\<rparr>, reply))"

definition Read_Run ::
    "('r, 'n) Redis \<Rightarrow> string \<Rightarrow> string list \<Rightarrow> ('r \<Rightarrow> 'a result) \<Rightarrow> ('r, 'n) RedisCache \<Rightarrow> 'a result" where
  "Read_Run R name ks command cache =
     (case rd_link R (rc_link cache) name ks of
        (net, lost, Some e) \<Rightarrow> Inl e
      | (net, lost, None) \<Rightarrow> command (rc_Client cache))"

definition resultToIds :: "redis_reply \<Rightarrow> string list option" where
  "resultToIds result = (case result of RArr ids \<Rightarrow> Some ids | _ \<Rightarrow> None)"

definition parseResult :: "redis_reply result \<Rightarrow> string list result" where
  "parseResult cmd =
     (case cmd of
        Inl e \<Rightarrow> Inl (Wrap ''error parsing result'' e)
      | Inr result \<Rightarrow>
          if result = RStr [] then Inr []
          else case resultToIds result of
                 Some ids \<Rightarrow> Inr ids
               | None \<Rightarrow> Inl (Err ''invalid redis response''))"

text \<open>\<^verbatim>\<open>cmd.Val().(int64) == 1\<close> panics on a reply of another type.\<close>

definition val_is_one :: "redis_reply \<Rightarrow> bool result" where
  "val_is_one result =
     (case result of RInt n \<Rightarrow> Inr (n = 1) | _ \<Rightarrow> Inl (Panic ''interface conversion''))"

section \<open>Moving messages\<close>

definition RedisCache_MakeAvailable ::
    "('r, 'n) Redis \<Rightarrow> ('r, 'n) RedisCache \<Rightarrow> Message \<Rightarrow> ('r, 'n) RedisCache \<times> bool result" where
  "RedisCache_MakeAvailable R cache message =
     (if msg_Queue message = [] then (cache, Inl (Err ''invalid message queue''))
      else case validateQueueName (msg_Queue message) of
        Some e \<Rightarrow> (cache, Inl e)
      | None \<Rightarrow>
          let ks = [activePool cache (msg_Queue message), processingPool cache (msg_Queue message)];
              (cache', cmd) = Script_Run R ''move'' ks
                (moveElementScript R (ks ! 0) (ks ! 1) (msg_Score message) (msg_ID message)) cache
          in (cache', case cmd of
                        Inl e \<Rightarrow> Inl (Wrap ''error making element available on cache'' e)
                      | Inr reply \<Rightarrow> val_is_one reply))"

definition RedisCache_LockMessage ::
    "('r, 'n) Redis \<Rightarrow> time \<Rightarrow> ('r, 'n) RedisCache \<Rightarrow> Message \<Rightarrow> LockType \<Rightarrow>
     ('r, 'n) RedisCache \<times> bool result" where
  "RedisCache_LockMessage R now cache message lockType =
     (if msg_Queue message = [] then (cache, Inl (Err ''invalid queue to lock''))
      else case validateQueueName (msg_Queue message) of
        Some e \<Rightarrow> (cache, Inl e)
      | None \<Rightarrow>
          if msg_LockMs message \<le> 0 then (cache, Inl (Err ''invalid lock time''))
          else
            let lockScore = wrap64 (NowMs now + msg_LockMs message);
                ks = [processingPool cache (msg_Queue message), lockPool cache (msg_Queue message) lockType,
                      lockPoolScore cache (msg_Queue message) lockType];
                (cache', cmd) = Script_Run R ''lock'' ks
                  (lockElementScript R (ks ! 0) (ks ! 1) (ks ! 2) (float_of_int lockScore) (msg_ID message)
                     (msg_Score message)) cache
            in (cache', case cmd of
                          Inl e \<Rightarrow> Inl (Wrap ''error locking cache element'' e)
                        | Inr reply \<Rightarrow> val_is_one reply))"

definition RedisCache_UnlockMessages ::
    "('r, 'n) Redis \<Rightarrow> time \<Rightarrow> ('r, 'n) RedisCache \<Rightarrow> string \<Rightarrow> LockType \<Rightarrow>
     ('r, 'n) RedisCache \<times> string list result" where
  "RedisCache_UnlockMessages R now cache queue lockType =
     (case validateQueueName queue of
        Some e \<Rightarrow> (cache, Inl e)
      | None \<Rightarrow>
          let defaultScore = (if lockType = LOCK_ACK then GetScoreByDefaultAlgorithm now else score_Min);
              ks = [lockPool cache queue lockType, activePool cache queue, lockPoolScore cache queue lockType];
              (cache', cmd) = Script_Run R ''unlock_elements'' ks
                (unlockElementsScript R (ks ! 0) (ks ! 1) (ks ! 2) 1000 (float_of_int (NowMs now)) defaultScore) cache
          in (cache', parseResult cmd))"

definition RedisCache_PullMessages ::
    "('r, 'n) Redis \<Rightarrow> time \<Rightarrow> ('r, 'n) RedisCache \<Rightarrow> string \<Rightarrow> int64 \<Rightarrow> float64 option \<Rightarrow> float64 option \<Rightarrow>
     int64 \<Rightarrow> ('r, 'n) RedisCache \<times> string list result" where
  "RedisCache_PullMessages R now cache queue n minScore maxScore ackDeadlineMs =
     (case validateQueueName queue of
        Some e \<Rightarrow> (cache, Inl e)
      | None \<Rightarrow>
          let deadlineMs = (if ackDeadlineMs = 0 then DefaultTimeoutMs else ackDeadlineMs);
              newScore = wrap64 (TimeToMs now + deadlineMs);
              ks = [activePool cache queue, processingPool cache queue];
              (cache', cmd) = Script_Run R ''pull'' ks
                (pullElementsScript R (ks ! 0) (ks ! 1) n (float_of_int newScore) minScore maxScore) cache
          in (cache', parseResult cmd))"

definition RedisCache_TimeoutMessages ::
    "('r, 'n) Redis \<Rightarrow> time \<Rightarrow> ('r, 'n) RedisCache \<Rightarrow> string \<Rightarrow> ('r, 'n) RedisCache \<times> string list result" where
  "RedisCache_TimeoutMessages R now cache queue =
     (case validateQueueName queue of
        Some e \<Rightarrow> (cache, Inl e)
      | None \<Rightarrow>
          let timeoutTime = TimeToMs now;
              ks = [activePool cache queue, processingPool cache queue];
              (cache', cmd) = Script_Run R ''move_primary_pool'' ks
                (moveFilteredElementsScript R (ks ! 0) (ks ! 1) (float_of_int timeoutTime) score_Min 1000) cache
          in (cache', parseResult cmd))"

section \<open>Inserting and removing\<close>

fun insert_partitions ::
    "('r, 'n) Redis \<Rightarrow> string list \<Rightarrow> Message list list \<Rightarrow> string list \<Rightarrow> ('r, 'n) RedisCache \<Rightarrow>
     ('r, 'n) RedisCache \<times> string list result" where
  "insert_partitions R ks [] insertions cache = (cache, Inr insertions)"
| "insert_partitions R ks (part # partitions) insertions cache =
     (let args = map (\<lambda>m. (msg_Score m, msg_ID m)) part;
          (cache', cmd) = Script_Run R ''add'' ks (addElementsScript R (hd ks) (tl ks) args) cache
      in case parseResult cmd of
           Inl _ \<Rightarrow> (cache', Inl (case cmd of
                                  Inl e \<Rightarrow> Wrap ''error inserting cache'' e
                                | Inr _ \<Rightarrow> Err ''error inserting cache: %!w(<nil>)''))
         | Inr inserts \<Rightarrow> insert_partitions R ks partitions (insertions @ inserts) cache')"

definition RedisCache_Insert ::
    "('r, 'n) Redis \<Rightarrow> ('r, 'n) RedisCache \<Rightarrow> string \<Rightarrow> Message list \<Rightarrow>
     ('r, 'n) RedisCache \<times> string list result" where
  "RedisCache_Insert R cache queue messages =
     (case validateQueueName queue of
        Some e \<Rightarrow> (cache, Inl e)
      | None \<Rightarrow>
          if list_ex (\<lambda>m. msg_Queue m \<noteq> queue) messages
          then (cache, Inl (Err ''invalid queue to insert data''))
          else insert_partitions R
                 [activePool cache queue, lockPool cache queue LOCK_NACK, lockPool cache queue LOCK_ACK,
                  processingPool cache queue]
                 (map (slice messages) (rd_Partition R (length messages) 2000)) [] cache)"

definition reply_int :: "redis_reply \<Rightarrow> int64 result" where
  "reply_int reply =
     (case reply of RInt n \<Rightarrow> Inr n | _ \<Rightarrow> Inl (Err ''redis: unexpected type for Int64''))"

fun remove_partitions ::
    "('r, 'n) Redis \<Rightarrow> string list \<Rightarrow> string list list \<Rightarrow> int64 \<Rightarrow> ('r, 'n) RedisCache \<Rightarrow>
     ('r, 'n) RedisCache \<times> int64 \<times> go_error option" where
  "remove_partitions R ks [] removed cache = (cache, removed, None)"
| "remove_partitions R ks (part # partitions) removed cache =
     (let (cache', cmd) = Script_Run R ''remove'' ks (removeElementScript R ks part) cache
      in case (case cmd of Inl e \<Rightarrow> Inl e | Inr reply \<Rightarrow> reply_int reply) of
           Inl e \<Rightarrow> (cache', removed, Some (Wrap ''error removing cache elements'' e))
         | Inr result \<Rightarrow> remove_partitions R ks partitions (removed + result) cache')"

definition RedisCache_Remove ::
    "('r, 'n) Redis \<Rightarrow> ('r, 'n) RedisCache \<Rightarrow> string \<Rightarrow> string list \<Rightarrow>
     ('r, 'n) RedisCache \<times> int64 \<times> go_error option" where
  "RedisCache_Remove R cache queue ids =
     (case validateQueueName queue of
        Some e \<Rightarrow> (cache, 0, Some e)
      | None \<Rightarrow>
          remove_partitions R
            [activePool cache queue, processingPool cache queue, lockPool cache queue LOCK_ACK,
             lockPool cache queue LOCK_NACK, lockPoolScore cache queue LOCK_ACK, lockPoolScore cache queue LOCK_NACK]
            (map (slice ids) (rd_Partition R (length ids) 4000)) 0 cache)"

section \<open>Reading\<close>

definition containsElement ::
    "('r, 'n) Redis \<Rightarrow> ('r, 'n) RedisCache \<Rightarrow> string \<Rightarrow> string \<Rightarrow> bool result" where
  "containsElement R cache queuePool i =
     (case Read_Run R ''ZSCORE'' [queuePool, i] (\<lambda>r. rd_ZSCORE R r queuePool i) cache of
        Inl e \<Rightarrow> Inl (Wrap ''error checking processing'' e)
      | Inr None \<Rightarrow> Inr False
      | Inr (Some _) \<Rightarrow> Inr True)"

definition RedisCache_IsProcessing ::
    "('r, 'n) Redis \<Rightarrow> ('r, 'n) RedisCache \<Rightarrow> string \<Rightarrow> string \<Rightarrow> bool result" where
  "RedisCache_IsProcessing R cache queue i =
     (case validateQueueName queue of
        Some e \<Rightarrow> Inl e
      | None \<Rightarrow> containsElement R cache (processingPool cache queue) i)"

definition RedisCache_Get :: "('r, 'n) Redis \<Rightarrow> ('r, 'n) RedisCache \<Rightarrow> string \<Rightarrow> string result" where
  "RedisCache_Get R cache key =
     (case Read_Run R ''GET'' [generalCacheKey cache key] (\<lambda>r. rd_GET R r (generalCacheKey cache key)) cache of
        Inl e \<Rightarrow> Inl (Wrap ''error getting cache element'' e)
      | Inr None \<Rightarrow> Inr []
      | Inr (Some v) \<Rightarrow> Inr v)"

definition RedisCache_Set ::
    "('r, 'n) Redis \<Rightarrow> ('r, 'n) RedisCache \<Rightarrow> string \<Rightarrow> string \<Rightarrow> ('r, 'n) RedisCache \<times> go_error option" where
  "RedisCache_Set R cache key v =
     (let (cache', cmd) = Script_Run R ''SET'' [generalCacheKey cache key]
                            (\<lambda>r. rd_SET R r (generalCacheKey cache key) v) cache
      in (cache', case cmd of Inl e \<Rightarrow> Some (Wrap ''error setting cache element'' e) | Inr _ \<Rightarrow> None))"

section \<open>Listing and flushing\<close>

text \<open>
  The loop over the cursors of \<^verbatim>\<open>SCAN\<close>, which \<^verbatim>\<open>scanKeys\<close> and \<^verbatim>\<open>deleteByPattern\<close> share: nothing in the code bounds
  it, so its value is \<open>None\<close> for a server whose cursors never come back to 0.
\<close>

partial_function (option) scan_loop ::
    "('r, 'n) Redis \<Rightarrow> nat \<Rightarrow> string \<Rightarrow> 'r \<Rightarrow> nat \<Rightarrow> string list \<Rightarrow> 'n \<Rightarrow> ('n \<times> string list result) option" where
  "scan_loop R node pat db cursor found net =
     (case rd_link R net ''SCAN'' [pat] of
        (net', lost, Some e) \<Rightarrow> Some (net', Inl e)
      | (net', lost, None) \<Rightarrow>
          (case rd_SCAN R db node cursor pat 1000 of
             Inl e \<Rightarrow> Some (net', Inl e)
           | Inr (batch, next_cursor) \<Rightarrow>
               if next_cursor = 0 then Some (net', Inr (found @ batch))
               else scan_loop R node pat db next_cursor (found @ batch) net'))"

declare scan_loop.simps [code]

definition scanKeys ::
    "('r, 'n) Redis \<Rightarrow> nat \<Rightarrow> string \<Rightarrow> ('r, 'n) RedisCache \<Rightarrow> ('n \<times> string list result) option" where
  "scanKeys R node pat cache = scan_loop R node pat (rc_Client cache) 0 [] (rc_link cache)"

fun uniq_from :: "string list \<Rightarrow> string list \<Rightarrow> string list" where
  "uniq_from seen [] = []"
| "uniq_from seen (v # vs) = (if v \<in> set seen then uniq_from seen vs else v # uniq_from (v # seen) vs)"

definition uniqStrings :: "string list \<Rightarrow> string list" where
  "uniqStrings vs = uniq_from [] vs"

text \<open>\<^verbatim>\<open>ForEachMaster\<close> scans every master; the first error is the result.\<close>

fun scan_masters ::
    "('r, 'n) Redis \<Rightarrow> nat list \<Rightarrow> string \<Rightarrow> ('r, 'n) RedisCache \<Rightarrow> string list \<Rightarrow> string list result option" where
  "scan_masters R [] pat cache data = Some (Inr data)"
| "scan_masters R (node # nodes) pat cache data =
     (case scanKeys R node pat cache of
        None \<Rightarrow> None
      | Some (net, Inl e) \<Rightarrow> Some (Inl (Wrap ''error listing cache queues across cluster shards'' e))
      | Some (net, Inr ks) \<Rightarrow> scan_masters R nodes pat (cache\<lparr>rc_link := net\<rparr>) (data @ ks))"

text \<open>
  \<^verbatim>\<open>ReplaceAllString\<close> with the pattern \<^verbatim>\<open>(.+)suffix$\<close> and the replacement \<^verbatim>\<open>$1\<close>: it removes the suffix from the
  end if a character other than a newline stands before it.
\<close>

definition strip_suffix :: "string \<Rightarrow> string \<Rightarrow> string" where
  "strip_suffix suff s =
     (let n = length s - length suff
      in if suffix suff s \<and> 0 < n \<and> s ! (n - 1) \<noteq> CHR 0x0A then take n s else s)"

definition unwrapClusterHashTag :: "string \<Rightarrow> string" where
  "unwrapClusterHashTag queue =
     (if length queue < 2 \<or> hd queue \<noteq> CHR ''{'' \<or> last queue \<noteq> CHR ''}'' then queue
      else take (length queue - 2) (tl queue))"

definition TrimPrefix :: "string \<Rightarrow> string \<Rightarrow> string" where
  "TrimPrefix s pre = (if prefix pre s then drop (length pre) s else s)"

definition parseQueueKey :: "('r, 'n) RedisCache \<Rightarrow> string option \<Rightarrow> string \<Rightarrow> string" where
  "parseQueueKey cache suffixRegex key =
     (let queue = TrimPrefix key (poolPrefix cache);
          queue = (case suffixRegex of None \<Rightarrow> queue | Some suff \<Rightarrow> strip_suffix suff queue)
      in unwrapClusterHashTag queue)"

definition filterQueueSuffix :: "string list \<Rightarrow> string list" where
  "filterQueueSuffix data =
     filter (\<lambda>q. \<not> suffix PROCESSING_POOL_SUFFIX q \<and> \<not> suffix (LOCK_SUFFIX LOCK_ACK) q \<and>
                 \<not> suffix (LOCK_SUFFIX LOCK_NACK) q \<and> \<not> suffix (LOCK_SCORE_SUFFIX LOCK_NACK) q \<and>
                 \<not> suffix (LOCK_SCORE_SUFFIX LOCK_ACK) q) data"

definition pool_key :: "('r, 'n) RedisCache \<Rightarrow> PoolType \<Rightarrow> string \<Rightarrow> string" where
  "pool_key cache poolType queue =
     (case poolType of
        PRIMARY_POOL \<Rightarrow> activePool cache queue
      | PROCESSING_POOL \<Rightarrow> processingPool cache queue
      | LOCK_ACK_POOL \<Rightarrow> lockPool cache queue LOCK_ACK
      | LOCK_NACK_POOL \<Rightarrow> lockPool cache queue LOCK_NACK)"

definition pool_regex :: "PoolType \<Rightarrow> string option" where
  "pool_regex poolType =
     (case poolType of
        PRIMARY_POOL \<Rightarrow> None
      | PROCESSING_POOL \<Rightarrow> Some PROCESSING_POOL_SUFFIX
      | LOCK_ACK_POOL \<Rightarrow> Some (LOCK_SUFFIX LOCK_ACK)
      | LOCK_NACK_POOL \<Rightarrow> Some (LOCK_SUFFIX LOCK_NACK))"

text \<open>A listing whose scan does not end gives no answer; it is the error \<open>Panic\<close> here.\<close>

definition RedisCache_ListQueues ::
    "('r, 'n) Redis \<Rightarrow> ('r, 'n) RedisCache \<Rightarrow> string \<Rightarrow> PoolType \<Rightarrow> string list result" where
  "RedisCache_ListQueues R cache pat poolType =
     (let searchPattern = pool_key cache poolType pat;
          scanned = (if rc_clusterMode cache then scan_masters R (rd_masters R (rc_Client cache)) searchPattern cache []
                     else case scanKeys R 0 searchPattern cache of
                            None \<Rightarrow> None
                          | Some (net, Inl e) \<Rightarrow> Some (Inl (Wrap ''error listing cache queues'' e))
                          | Some (net, Inr ks) \<Rightarrow> Some (Inr ks))
      in case scanned of
           None \<Rightarrow> Inl (Panic ''the scan does not end'')
         | Some (Inl e) \<Rightarrow> Inl e
         | Some (Inr data) \<Rightarrow>
             let queues = uniqStrings (map (parseQueueKey cache (pool_regex poolType)) data)
             in Inr (if poolType = PRIMARY_POOL then filterQueueSuffix queues else queues))"

fun error_text :: "go_error \<Rightarrow> string" where
  "error_text (Err s) = s"
| "error_text (Wrap s e) = s @ '': '' @ error_text e"
| "error_text (Status code s) = ''rpc error: code = '' @ code @ '' desc = '' @ s"
| "error_text (Panic s) = s"

fun del_each :: "('r, 'n) Redis \<Rightarrow> nat \<Rightarrow> string list \<Rightarrow> ('r, 'n) RedisCache \<Rightarrow> ('r, 'n) RedisCache \<times> go_error option" where
  "del_each R node [] cache = (cache, None)"
| "del_each R node (key # ks) cache =
     (let (cache', cmd) = Script_Run R ''DEL'' [key] (\<lambda>r. rd_DEL R r node [key]) cache
      in case cmd of Inl e \<Rightarrow> (cache', Some e) | Inr _ \<Rightarrow> del_each R node ks cache')"

fun del_partitions ::
    "('r, 'n) Redis \<Rightarrow> nat \<Rightarrow> string list list \<Rightarrow> ('r, 'n) RedisCache \<Rightarrow> ('r, 'n) RedisCache \<times> go_error option" where
  "del_partitions R node [] cache = (cache, None)"
| "del_partitions R node (part # parts) cache =
     (let (cache', cmd) = Script_Run R ''DEL'' part (\<lambda>r. rd_DEL R r node part) cache
      in case cmd of
           Inr _ \<Rightarrow> del_partitions R node parts cache'
         | Inl e \<Rightarrow>
             if \<not> sublist ''CROSSSLOT'' (error_text e) then (cache', Some e)
             else
               let (cache'', err) = del_each R node part cache'
               in case err of Some e' \<Rightarrow> (cache'', Some e') | None \<Rightarrow> del_partitions R node parts cache'')"

definition deleteByPattern ::
    "('r, 'n) Redis \<Rightarrow> nat \<Rightarrow> string \<Rightarrow> ('r, 'n) RedisCache \<Rightarrow> (('r, 'n) RedisCache \<times> go_error option) option" where
  "deleteByPattern R node pat cache =
     (case scan_loop R node pat (rc_Client cache) 0 [] (rc_link cache) of
        None \<Rightarrow> None
      | Some (net, Inl e) \<Rightarrow> Some (cache\<lparr>rc_link := net\<rparr>, Some e)
      | Some (net, Inr ks) \<Rightarrow>
          let keysToDelete = uniqStrings ks
          in Some (del_partitions R node (map (slice keysToDelete) (rd_Partition R (length keysToDelete) 1000))
                     (cache\<lparr>rc_link := net\<rparr>)))"

text \<open>
  \<^verbatim>\<open>Flush\<close> has no result: it logs its errors. \<^verbatim>\<open>ForEachMaster\<close> visits every master, also after an error of one.
  A call whose scan does not end changes nothing.
\<close>

definition delete_on :: "('r, 'n) Redis \<Rightarrow> string \<Rightarrow> nat \<Rightarrow> ('r, 'n) RedisCache \<Rightarrow> ('r, 'n) RedisCache" where
  "delete_on R pat node cache = (case deleteByPattern R node pat cache of None \<Rightarrow> cache | Some (cache', err) \<Rightarrow> cache')"

definition RedisCache_Flush :: "('r, 'n) Redis \<Rightarrow> ('r, 'n) RedisCache \<Rightarrow> ('r, 'n) RedisCache" where
  "RedisCache_Flush R cache =
     (let pat = fullPrefix cache @ '':*''
      in if rc_clusterMode cache then fold (delete_on R pat) (rd_masters R (rc_Client cache)) cache
         else delete_on R pat 0 cache)"

text \<open>The Redis cache as an implementation of the interface.\<close>

definition redis_cache :: "('r, 'n) Redis \<Rightarrow> ('r, 'n) RedisCache Cache" where
  "redis_cache R =
     \<lparr>c_MakeAvailable = RedisCache_MakeAvailable R,
      c_IsProcessing = RedisCache_IsProcessing R,
      c_PullMessages = RedisCache_PullMessages R,
      c_TimeoutMessages = RedisCache_TimeoutMessages R,
      c_LockMessage = RedisCache_LockMessage R,
      c_UnlockMessages = RedisCache_UnlockMessages R,
      c_ListQueues = RedisCache_ListQueues R,
      c_Insert = RedisCache_Insert R,
      c_Remove = RedisCache_Remove R,
      c_Flush = RedisCache_Flush R,
      c_Get = RedisCache_Get R,
      c_Set = RedisCache_Set R\<rparr>"

end
