(* ===== verification/Redis_Keys.thy ===== *)
theory Redis_Keys
  imports Redis_Cache
begin

text \<open>
  The names of the keys of the Redis cache. Braces around the name of a queue, which a name cannot contain,
  keep the keys of different queues and of different pools apart, and let a listing find the name again.
\<close>

abbreviation valid_queue :: "string \<Rightarrow> bool" where
  "valid_queue q \<equiv> validateQueueName q = None"

lemma valid_queue_iff: "valid_queue q \<longleftrightarrow> CHR ''{'' \<notin> set q \<and> CHR ''}'' \<notin> set q"
  by (simp add: validateQueueName_def)

definition pool_suffix :: "PoolType \<Rightarrow> string" where
  "pool_suffix p = (case pool_regex p of None \<Rightarrow> [] | Some s \<Rightarrow> s)"

definition queue_key :: "('r, 'n) RedisCache \<Rightarrow> string \<Rightarrow> string \<Rightarrow> string" where
  "queue_key c q suff = poolPrefix c @ ''{'' @ q @ ''}'' @ suff"

lemma pool_key_queue: "pool_key c p q = queue_key c q (pool_suffix p)"
  by (cases p) (simp_all add: pool_key_def queue_key_def pool_suffix_def pool_regex_def activePool_def
      processingPool_def lockPool_def LOCK_SUFFIX_def)

lemma lockPoolScore_queue: "lockPoolScore c q t = queue_key c q (LOCK_SCORE_SUFFIX t)"
  by (simp add: lockPoolScore_def queue_key_def LOCK_SCORE_SUFFIX_def LOCK_SUFFIX_def)

lemma tag_inject:
  "CHR ''}'' \<notin> set q \<Longrightarrow> CHR ''}'' \<notin> set q' \<Longrightarrow>
   q @ CHR ''}'' # s = q' @ CHR ''}'' # s' \<longleftrightarrow> q = q' \<and> s = s'"
proof (induction q arbitrary: q')
  case Nil
  then show ?case by (cases q') auto
next
  case (Cons a q)
  then show ?case by (cases q') auto
qed

lemma queue_key_inject:
  "valid_queue q \<Longrightarrow> valid_queue q' \<Longrightarrow> queue_key c q s = queue_key c q' s' \<longleftrightarrow> q = q' \<and> s = s'"
  using tag_inject [of q q' s s'] by (simp add: queue_key_def valid_queue_iff)

lemma pool_suffix_inject: "pool_suffix p = pool_suffix p' \<longleftrightarrow> p = p'"
  by (cases p; cases p')
    (simp_all add: pool_suffix_def pool_regex_def PROCESSING_POOL_SUFFIX_def LOCK_SUFFIX_def lock_type_string_def)

lemma score_suffix_inject: "LOCK_SCORE_SUFFIX t = LOCK_SCORE_SUFFIX t' \<longleftrightarrow> t = t'"
  by (cases t; cases t') (simp_all add: LOCK_SCORE_SUFFIX_def LOCK_SUFFIX_def lock_type_string_def)

lemma pool_not_score: "pool_suffix p \<noteq> LOCK_SCORE_SUFFIX t"
  by (cases p; cases t) (simp_all add: pool_suffix_def pool_regex_def PROCESSING_POOL_SUFFIX_def LOCK_SUFFIX_def
      lock_type_string_def LOCK_SCORE_SUFFIX_def SCORE_SUFFIX_def)

lemma pool_key_inject:
  "valid_queue q \<Longrightarrow> valid_queue q' \<Longrightarrow> pool_key c p q = pool_key c p' q' \<longleftrightarrow> p = p' \<and> q = q'"
  using queue_key_inject pool_suffix_inject unfolding pool_key_queue by blast

lemma score_key_inject:
  "valid_queue q \<Longrightarrow> valid_queue q' \<Longrightarrow> lockPoolScore c q t = lockPoolScore c q' t' \<longleftrightarrow> t = t' \<and> q = q'"
  using queue_key_inject score_suffix_inject unfolding lockPoolScore_queue by blast

lemma pool_key_not_score:
  "valid_queue q \<Longrightarrow> valid_queue q' \<Longrightarrow> pool_key c p q \<noteq> lockPoolScore c q' t"
  "valid_queue q \<Longrightarrow> valid_queue q' \<Longrightarrow> lockPoolScore c q' t \<noteq> pool_key c p q"
  using queue_key_inject pool_not_score unfolding lockPoolScore_queue pool_key_queue by metis+

lemma queue_key_not_general: "queue_key c q s \<noteq> generalCacheKey c k" "generalCacheKey c k \<noteq> queue_key c q s"
  by (simp_all add: queue_key_def generalCacheKey_def poolPrefix_def fullPrefix_def POOL_SUFFIX_def)

lemma key_not_general:
  "pool_key c p q \<noteq> generalCacheKey c k" "generalCacheKey c k \<noteq> pool_key c p q"
  "lockPoolScore c q t \<noteq> generalCacheKey c k" "generalCacheKey c k \<noteq> lockPoolScore c q t"
  unfolding lockPoolScore_queue pool_key_queue by (simp_all add: queue_key_not_general)

lemma generalCacheKey_inject: "generalCacheKey c k = generalCacheKey c k' \<longleftrightarrow> k = k'"
  by (simp add: generalCacheKey_def)

text \<open>The keys are those of the constructors of the code.\<close>

lemma pool_key_simps:
  "activePool c q = pool_key c PRIMARY_POOL q" "processingPool c q = pool_key c PROCESSING_POOL q"
  "lockPool c q t = pool_key c (lock_pool t) q"
  by (simp_all add: pool_key_def lock_pool_def split: LockType.splits)

lemmas key_simps = pool_key_inject score_key_inject pool_key_not_score key_not_general

text \<open>The keys depend on the configured prefix alone.\<close>

lemma key_update [simp]:
  "pool_key (c\<lparr>rc_Client := r\<rparr>) = pool_key c" "pool_key (c\<lparr>rc_link := n\<rparr>) = pool_key c"
  "lockPoolScore (c\<lparr>rc_Client := r\<rparr>) = lockPoolScore c" "lockPoolScore (c\<lparr>rc_link := n\<rparr>) = lockPoolScore c"
  "generalCacheKey (c\<lparr>rc_Client := r\<rparr>) = generalCacheKey c" "generalCacheKey (c\<lparr>rc_link := n\<rparr>) = generalCacheKey c"
  by (simp_all add: fun_eq_iff pool_key_def activePool_def processingPool_def lockPool_def lockPoolScore_def
      generalCacheKey_def poolPrefix_def fullPrefix_def configuredPrefix_def split: PoolType.split)

lemma pool_key_prefix:
  "rc_keyPrefix c' = rc_keyPrefix c \<Longrightarrow> pool_key c' p q = pool_key c p q"
  "rc_keyPrefix c' = rc_keyPrefix c \<Longrightarrow> lockPoolScore c' q t = lockPoolScore c q t"
  by (simp_all add: pool_key_def activePool_def processingPool_def lockPool_def lockPoolScore_def poolPrefix_def
      configuredPrefix_def split: PoolType.split)

text \<open>A key of a pool gives back the name of its queue.\<close>

lemma parse_key: "parseQueueKey c (pool_regex p) (pool_key c p q) = q"
proof -
  let ?tag = "''{'' @ q @ ''}''"
  have t: "TrimPrefix (pool_key c p q) (poolPrefix c) = ?tag @ pool_suffix p"
    by (simp add: TrimPrefix_def pool_key_queue queue_key_def)
  have s: "strip_suffix s (?tag @ s) = ?tag" for s
    by (simp add: strip_suffix_def suffix_def Let_def nth_append)
  have u: "unwrapClusterHashTag ?tag = q"
    by (simp add: unwrapClusterHashTag_def)
  show ?thesis
    using s [of "pool_suffix p"] u t
    by (cases p) (simp_all add: parseQueueKey_def Let_def pool_suffix_def pool_regex_def)
qed

end
