(* ===== verification/Redis_Script_Laws.thy ===== *)
theory Redis_Script_Laws
  imports Redis_Scripts
begin

text \<open>
  What the scripts do to the members of the sorted sets, for every server that keeps the promises of
  \<open>redis\<close>. The keys a script gets hold sorted sets or nothing, which \<open>str r k = None\<close> says.
\<close>

context redis
begin

definition members :: "'r \<Rightarrow> string \<Rightarrow> string set" where
  "members r k = zmembers (zset r k)"

lemma members_map: "members r k = dom (map_of (zset r k))"
  by (simp add: members_def zmembers_dom)

lemma members_empty: "members r k = {} \<longleftrightarrow> zset r k = []"
  by (simp add: members_def zmembers_def)

lemma zset_map_distinct: "distinct (map fst (zset r k))"
  by (rule zset_members)

text \<open>One command.\<close>

lemma ZADD_members:
  assumes "str r k = None" "ps \<noteq> []" "NaN \<notin> fst ` set ps"
  obtains r' where "rd_ZADD R r k ps = (r', Inr (int (card (snd ` set ps - members r k))))"
    "members r' = (members r)(k := members r k \<union> snd ` set ps)" "str r' = str r"
    "map_of (zset r' k) = zupdate ps (map_of (zset r k))" "\<And>k'. k' \<noteq> k \<Longrightarrow> zset r' k' = zset r k'"
proof -
  obtain r' where r': "rd_ZADD R r k ps = (r', Inr (int (card (snd ` set ps - zmembers (zset r k)))))"
    "map_of (zset r' k) = zupdate ps (map_of (zset r k))" "\<forall>k'. k' \<noteq> k \<longrightarrow> zset r' k' = zset r k'" "str r' = str r"
    using ZADD [OF assms] by blast
  have "members r' = (members r)(k := members r k \<union> snd ` set ps)"
  proof
    fix k' show "members r' k' = ((members r)(k := members r k \<union> snd ` set ps)) k'"
      using r'(2,3) by (cases "k' = k") (simp_all add: members_map dom_zupdate Un_commute)
  qed
  then show thesis using r' that by (simp add: members_def)
qed

lemma ZADD_fails:
  assumes "NaN \<in> fst ` set ps"
  obtains r' e where "rd_ZADD R r k ps = (r', Inl e)" "members r' = members r" "str r' = str r" "zset r' = zset r"
  using ZADD_NaN [OF assms, of r k] ZADD_error that by (metis members_def ext)

lemma ZREM_members:
  assumes "str r k = None" "ids \<noteq> []"
  obtains r' where "rd_ZREM R r k ids = (r', Inr (int (card (set ids \<inter> members r k))))"
    "members r' = (members r)(k := members r k - set ids)" "str r' = str r"
    "zset r' = (zset r)(k := filter (\<lambda>(i, s). i \<notin> set ids) (zset r k))"
proof -
  obtain r' where r': "rd_ZREM R r k ids = (r', Inr (int (card (set ids \<inter> zmembers (zset r k)))))"
    "zset r' = (zset r)(k := filter (\<lambda>(i, s). i \<notin> set ids) (zset r k))" "str r' = str r"
    using ZREM [OF assms] by blast
  have "members r' = (members r)(k := members r k - set ids)"
    using r'(2) by (force simp: fun_eq_iff members_def zmembers_def)
  then show thesis using r' that by (simp add: members_def)
qed

lemma ZREM_one:
  assumes "str r k = None"
  obtains r' where "rd_ZREM R r k [i] = (r', Inr (if i \<in> members r k then 1 else 0))"
    "members r' = (members r)(k := members r k - {i})" "str r' = str r"
    "zset r' = (zset r)(k := filter (\<lambda>(j, s). j \<noteq> i) (zset r k))"
proof -
  obtain r' where r': "rd_ZREM R r k [i] = (r', Inr (int (card (set [i] \<inter> members r k))))"
    "members r' = (members r)(k := members r k - set [i])" "str r' = str r"
    "zset r' = (zset r)(k := filter (\<lambda>(j, s). j \<notin> set [i]) (zset r k))"
    using ZREM_members [OF assms, of "[i]"] by auto
  then show thesis using that [of r'] by simp
qed

lemma ZADD_one:
  assumes "str r k = None" "s \<noteq> NaN"
  obtains r' where "rd_ZADD R r k [(s, i)] = (r', Inr (if i \<in> members r k then 0 else 1))"
    "members r' = (members r)(k := insert i (members r k))" "str r' = str r"
    "map_of (zset r' k) = (map_of (zset r k))(i \<mapsto> s)" "\<And>k'. k' \<noteq> k \<Longrightarrow> zset r' k' = zset r k'"
proof -
  obtain r' where r': "rd_ZADD R r k [(s, i)] = (r', Inr (int (card (snd ` set [(s, i)] - members r k))))"
    "members r' = (members r)(k := members r k \<union> snd ` set [(s, i)])" "str r' = str r"
    "map_of (zset r' k) = zupdate [(s, i)] (map_of (zset r k))" "\<And>k'. k' \<noteq> k \<Longrightarrow> zset r' k' = zset r k'"
    using ZADD_members [OF assms(1), of "[(s, i)]"] assms(2) by auto
  have "card ({i} - members r k) = (if i \<in> members r k then 0 else 1)"
    by (simp add: insert_Diff_if)
  then show thesis using that [of r'] r' by simp
qed

section \<open>Removal\<close>

lemma remove_from_pools_members:
  assumes "\<forall>k\<in>set ks. str r k = None" "ids \<noteq> []" "length ids \<le> rd_unpack R" "distinct ks"
  shows "\<exists>r'. remove_from_pools R ks ids n r = (r', Inr (n + (\<Sum>k\<leftarrow>ks. int (card (set ids \<inter> members r k))))) \<and>
    members r' = (\<lambda>k. if k \<in> set ks then members r k - set ids else members r k) \<and> str r' = str r"
  using assms
proof (induction ks arbitrary: r n)
  case (Cons k ks)
  obtain r1 where r1: "rd_ZREM R r k ids = (r1, Inr (int (card (set ids \<inter> members r k))))"
    "members r1 = (members r)(k := members r k - set ids)" "str r1 = str r"
    using ZREM_members [of r k ids] Cons.prems(1,2) by auto
  have s: "\<forall>k'\<in>set ks. str r1 k' = None" using Cons.prems(1) r1(3) by simp
  have "(\<Sum>k\<leftarrow>ks. int (card (set ids \<inter> members r1 k))) = (\<Sum>k\<leftarrow>ks. int (card (set ids \<inter> members r k)))"
    using Cons.prems(4) r1(2) by (intro arg_cong [where f = sum_list] map_cong) auto
  moreover obtain r2 where "remove_from_pools R ks ids (n + int (card (set ids \<inter> members r k))) r1 =
      (r2, Inr (n + int (card (set ids \<inter> members r k)) + (\<Sum>k\<leftarrow>ks. int (card (set ids \<inter> members r1 k)))))"
    "members r2 = (\<lambda>k. if k \<in> set ks then members r1 k - set ids else members r1 k)" "str r2 = str r1"
    using Cons.IH [OF s Cons.prems(2,3)] Cons.prems(4) by (meson distinct.simps(2))
  ultimately show ?case
    using r1 Cons.prems(3) by (auto simp: lua_unpack_def fun_eq_iff algebra_simps)
qed (simp add: fun_eq_iff)

lemma removeElement_members:
  assumes "\<forall>k\<in>set ks. str r k = None" "ids \<noteq> []" "length ids \<le> rd_unpack R" "distinct ks"
  obtains r' where
    "removeElementScript R ks ids r = (r', Inr (RInt (\<Sum>k\<leftarrow>ks. int (card (set ids \<inter> members r k)))))"
    "members r' = (\<lambda>k. if k \<in> set ks then members r k - set ids else members r k)" "str r' = str r"
  using remove_from_pools_members [OF assms, of 0] that by (auto simp: removeElementScript_def)

section \<open>Moving one element\<close>

lemma moveElement_members:
  assumes "str r dst = None" "str r src = None" "dst \<noteq> src"
  shows "i \<notin> members r src \<Longrightarrow>
      \<exists>r'. moveElementScript R dst src s i r = (r', Inr (RInt 0)) \<and> members r' = members r \<and> str r' = str r"
    "i \<in> members r src \<Longrightarrow> i \<notin> members r dst \<Longrightarrow> s \<noteq> NaN \<Longrightarrow>
      \<exists>r'. moveElementScript R dst src s i r = (r', Inr (RInt 1)) \<and>
        members r' = (members r)(src := members r src - {i}, dst := insert i (members r dst)) \<and> str r' = str r"
    "i \<in> members r src \<Longrightarrow> s = NaN \<Longrightarrow>
      \<exists>r' e. moveElementScript R dst src s i r = (r', Inl e) \<and>
        members r' = (members r)(src := members r src - {i}) \<and> str r' = str r"
proof -
  obtain r1 where r1: "rd_ZREM R r src [i] = (r1, Inr (if i \<in> members r src then 1 else 0))"
    "members r1 = (members r)(src := members r src - {i})" "str r1 = str r"
    using ZREM_one [OF assms(2), of i] by metis
  show "\<exists>r'. moveElementScript R dst src s i r = (r', Inr (RInt 0)) \<and> members r' = members r \<and> str r' = str r"
    if "i \<notin> members r src" using r1 that by (simp add: moveElementScript_def)
  show "\<exists>r'. moveElementScript R dst src s i r = (r', Inr (RInt 1)) \<and>
        members r' = (members r)(src := members r src - {i}, dst := insert i (members r dst)) \<and> str r' = str r"
    if i: "i \<in> members r src" "i \<notin> members r dst" and s: "s \<noteq> NaN"
  proof -
    have d: "str r1 dst = None" using assms(1) r1(3) by simp
    obtain r2 where "rd_ZADD R r1 dst [(s, i)] = (r2, Inr (if i \<in> members r1 dst then 0 else 1))"
      "members r2 = (members r1)(dst := insert i (members r1 dst))" "str r2 = str r1"
      using ZADD_one [OF d s, of i] by metis
    then show ?thesis using r1 assms(3) i by (simp add: moveElementScript_def)
  qed
  show "\<exists>r' e. moveElementScript R dst src s i r = (r', Inl e) \<and>
        members r' = (members r)(src := members r src - {i}) \<and> str r' = str r"
    if i: "i \<in> members r src" and s: "s = NaN"
  proof -
    have "NaN \<in> fst ` set [(s, i)]" using s by simp
    then obtain r2 e where "rd_ZADD R r1 dst [(s, i)] = (r2, Inl e)" "members r2 = members r1" "str r2 = str r1"
      using ZADD_fails by metis
    then show ?thesis using r1 i by (simp add: moveElementScript_def)
  qed
qed

lemma lockElement_members:
  assumes "str r src = None" "str r lock = None" "str r sc = None" "distinct [src, lock, sc]"
    and "until \<noteq> NaN"
  shows "i \<notin> members r src \<Longrightarrow>
      \<exists>r'. lockElementScript R src lock sc until i s r = (r', Inr (RInt 0)) \<and> members r' = members r \<and> str r' = str r"
    "i \<in> members r src \<Longrightarrow> i \<notin> members r lock \<Longrightarrow> i \<notin> members r sc \<Longrightarrow>
      \<exists>r' x. lockElementScript R src lock sc until i s r = (r', x) \<and> (x = Inr (RInt 1) \<or> (\<exists>e. x = Inl e)) \<and>
        members r' = (members r)(src := members r src - {i}, lock := insert i (members r lock),
          sc := (if s = NaN \<or> s = Fin (- 1) then members r sc else insert i (members r sc))) \<and> str r' = str r"
proof -
  obtain r1 where r1: "rd_ZREM R r src [i] = (r1, Inr (if i \<in> members r src then 1 else 0))"
    "members r1 = (members r)(src := members r src - {i})" "str r1 = str r"
    using ZREM_one [OF assms(1), of i] by metis
  show "\<exists>r'. lockElementScript R src lock sc until i s r = (r', Inr (RInt 0)) \<and> members r' = members r \<and> str r' = str r"
    if "i \<notin> members r src" using r1 that by (simp add: lockElementScript_def)
  show "\<exists>r' x. lockElementScript R src lock sc until i s r = (r', x) \<and> (x = Inr (RInt 1) \<or> (\<exists>e. x = Inl e)) \<and>
        members r' = (members r)(src := members r src - {i}, lock := insert i (members r lock),
          sc := (if s = NaN \<or> s = Fin (- 1) then members r sc else insert i (members r sc))) \<and> str r' = str r"
    if i: "i \<in> members r src" "i \<notin> members r lock" "i \<notin> members r sc"
  proof -
    have l: "str r1 lock = None" using assms(2) r1(3) by simp
    obtain r2 where r2: "rd_ZADD R r1 lock [(until, i)] = (r2, Inr (if i \<in> members r1 lock then 0 else 1))"
      "members r2 = (members r1)(lock := insert i (members r1 lock))" "str r2 = str r1"
      using ZADD_one [OF l assms(5), of i] by metis
    have m2: "members r2 = (members r)(src := members r src - {i}, lock := insert i (members r lock))"
      using r1(2) r2(2) assms(4) by simp
    have m3: "(members r)(src := members r src - {i}, lock := insert i (members r lock), sc := members r sc) = members r2"
      unfolding m2 using assms(4) by (intro fun_upd_idem) auto
    consider "feq s (Fin (- 1))" | "s = NaN" | "\<not> feq s (Fin (- 1))" "s \<noteq> NaN" by blast
    then show ?thesis
    proof cases
      case 1
      then have "lockElementScript R src lock sc until i s r = (r2, Inr (RInt 1))" "s = Fin (- 1)"
        using r1 r2 i assms(4) by (simp_all add: lockElementScript_def feq_iff)
      then show ?thesis using m3 r1(3) r2(3) by simp
    next
      case 2
      then have "NaN \<in> fst ` set [(s, i)]" by simp
      then obtain r3 e where r3: "rd_ZADD R r2 sc [(s, i)] = (r3, Inl e)" "members r3 = members r2" "str r3 = str r2"
        using ZADD_fails by metis
      then have "lockElementScript R src lock sc until i s r = (r3, Inl e)"
        using r1 r2 i 2 by (simp add: lockElementScript_def)
      then show ?thesis using m3 r1(3) r2(3) r3 2 by simp
    next
      case 3
      have c: "str r2 sc = None" using assms(3) r1(3) r2(3) by simp
      obtain r3 where r3: "rd_ZADD R r2 sc [(s, i)] = (r3, Inr (if i \<in> members r2 sc then 0 else 1))"
        "members r3 = (members r2)(sc := insert i (members r2 sc))" "str r3 = str r2"
        using ZADD_one [OF c 3(2), of i] by metis
      have "members r2 sc = members r sc" unfolding m2 using assms(4) by auto
      then have "lockElementScript R src lock sc until i s r = (r3, Inr (RInt 1))"
        using r1 r2 r3 i 3 by (simp add: lockElementScript_def)
      then show ?thesis
        using r1(3) r2(3) r3(2,3) 3 m2 \<open>members r2 sc = members r sc\<close> by (simp add: feq_iff)
    qed
  qed
qed

section \<open>Adding elements\<close>

lemma exists_in_members:
  assumes "\<forall>k\<in>set ks. str r k = None"
  shows "exists_in R r ks i = Inr (\<exists>k\<in>set ks. i \<in> members r k)"
  using assms
proof (induction ks)
  case (Cons k ks)
  have "rd_ZSCORE R r k i = Inr (map_of (zset r k) i)" using Cons.prems by (intro ZSCORE) simp
  then show ?case
    using Cons by (cases "map_of (zset r k) i") (auto simp: members_map dom_def)
qed simp

lemma to_insert_members:
  assumes "\<forall>k\<in>set ks. str r k = None"
  shows "to_insert R r ks ps = Inr (filter (\<lambda>(s, i). \<forall>k\<in>set ks. i \<notin> members r k) ps)"
proof (induction ps)
  case (Cons p ps)
  then show ?case by (cases p) (simp add: exists_in_members [OF assms])
qed simp

lemma addElements_members:
  assumes "\<forall>k\<in>set (dst # ks). str r k = None" "2 * length ps \<le> rd_unpack R"
    and new: "new = filter (\<lambda>(s, i). \<forall>k\<in>set (dst # ks). i \<notin> members r k) ps"
  shows "NaN \<notin> fst ` set new \<Longrightarrow>
      \<exists>r'. addElementsScript R dst ks ps r = (r', Inr (RArr (map snd new))) \<and>
        members r' = (members r)(dst := members r dst \<union> snd ` set new) \<and> str r' = str r"
    "NaN \<in> fst ` set new \<Longrightarrow>
      \<exists>r' e. addElementsScript R dst ks ps r = (r', Inl e) \<and> members r' = members r \<and> str r' = str r"
proof -
  have t: "to_insert R r (dst # ks) ps = Inr new" using to_insert_members [OF assms(1)] new by simp
  have "length new \<le> length ps" by (simp add: new)
  then have u: "lua_unpack R (2 * length new) = Inr ()" using assms(2) by (simp add: lua_unpack_def)
  show "\<exists>r'. addElementsScript R dst ks ps r = (r', Inr (RArr (map snd new))) \<and>
        members r' = (members r)(dst := members r dst \<union> snd ` set new) \<and> str r' = str r" if n: "NaN \<notin> fst ` set new"
  proof (cases "new = []")
    case False
    have d: "str r dst = None" using assms(1) by simp
    obtain r' where "rd_ZADD R r dst new = (r', Inr (int (card (snd ` set new - members r dst))))"
      "members r' = (members r)(dst := members r dst \<union> snd ` set new)" "str r' = str r"
      using ZADD_members [OF d False n] by metis
    then show ?thesis using False t u by (simp add: addElementsScript_def)
  qed (use t in \<open>simp add: addElementsScript_def\<close>)
  show "\<exists>r' e. addElementsScript R dst ks ps r = (r', Inl e) \<and> members r' = members r \<and> str r' = str r"
    if n: "NaN \<in> fst ` set new"
  proof -
    obtain r' e where "rd_ZADD R r dst new = (r', Inl e)" "members r' = members r" "str r' = str r"
      using ZADD_fails [OF n] by metis
    moreover have "new \<noteq> []" using n by auto
    ultimately show ?thesis using t u by (simp add: addElementsScript_def)
  qed
qed

end

end
