(* ===== verification/Redis_Move_Laws.thy ===== *)
theory Redis_Move_Laws
  imports Redis_Script_Laws
begin

text \<open>
  The scripts that move many elements at once: pulls, timeouts and unlocks. Each of them either moves the
  elements it returns, or changes nothing.
\<close>

context redis
begin

lemma add_each_members:
  assumes "str r k = None" "s \<noteq> NaN"
  shows "\<exists>r'. add_each R k s ids r = (r', Inr ()) \<and> members r' = (members r)(k := members r k \<union> set ids) \<and> str r' = str r"
  using assms(1)
proof (induction ids arbitrary: r)
  case (Cons i ids)
  obtain r1 where r1: "rd_ZADD R r k [(s, i)] = (r1, Inr (if i \<in> members r k then 0 else 1))"
    "members r1 = (members r)(k := insert i (members r k))" "str r1 = str r"
    using ZADD_one [OF Cons.prems assms(2), of i] by metis
  have k: "str r1 k = None" using Cons.prems r1(3) by simp
  obtain r2 where "add_each R k s ids r1 = (r2, Inr ())" "members r2 = (members r1)(k := members r1 k \<union> set ids)" "str r2 = str r1"
    using Cons.IH [OF k] by blast
  then show ?case using r1 by (simp add: fun_eq_iff)
qed simp

lemma move_each_members:
  assumes "str r dst = None" "str r src = None" "dst \<noteq> src" "s \<noteq> NaN" "length ids \<le> rd_unpack R"
  obtains r' where "move_each R dst src s ids r = (r', Inr (if ids = [] then RStr [] else RArr ids))"
    "members r' = (members r)(src := members r src - set ids, dst := members r dst \<union> set ids)" "str r' = str r"
proof (cases "ids = []")
  case True
  then show thesis using that [of r] by (simp add: move_each_def)
next
  case False
  obtain r1 where r1: "add_each R dst s ids r = (r1, Inr ())" "members r1 = (members r)(dst := members r dst \<union> set ids)" "str r1 = str r"
    using add_each_members [OF assms(1,4)] by blast
  have k: "str r1 src = None" using assms(2) r1(3) by simp
  obtain r2 where "rd_ZREM R r1 src ids = (r2, Inr (int (card (set ids \<inter> members r1 src))))"
    "members r2 = (members r1)(src := members r1 src - set ids)" "str r2 = str r1"
    using ZREM_members [OF k False] by metis
  then show thesis
    using that [of r2] r1 False assms(3,5) by (simp add: move_each_def lua_unpack_def fun_upd_twist)
qed

lemma range_members:
  "set (map fst (limit n (rev (score_range lo hi (zset r k))))) \<subseteq> members r k"
  "set (map fst (limit n (score_range lo hi (zset r k)))) \<subseteq> members r k"
  "set (map fst (index_range a b (zset r k))) \<subseteq> members r k"
  using limit_set [of n "rev (score_range lo hi (zset r k))"] limit_set [of n "score_range lo hi (zset r k)"]
    index_range_set [of a b "zset r k"]
  by (auto simp: members_def zmembers_def score_range_def)

lemma range_distinct:
  "distinct (map fst (limit n (score_range lo hi (zset r k))))"
  "distinct (map fst (index_range a b (zset r k)))"
proof -
  have d: "distinct (map fst (zset r k))" by (rule zset_members)
  then show "distinct (map fst (limit n (score_range lo hi (zset r k))))"
    by (simp add: limit_def score_range_def take_map [symmetric] distinct_map_filter)
  show "distinct (map fst (index_range a b (zset r k)))"
    using d by (simp add: index_range_def Let_def take_map [symmetric] drop_map [symmetric])
qed

text \<open>The elements that a timeout, an unlock or a pull finds.\<close>

lemma moveFiltered_members:
  assumes "str r dst = None" "str r src = None" "dst \<noteq> src" "s \<noteq> NaN" "ts \<noteq> NaN" "0 \<le> n" "n \<le> int (rd_unpack R)"
    and ids: "ids = map fst (limit n (rev (score_range (Fin 0) ts (zset r src))))"
  obtains r' where "moveFilteredElementsScript R dst src ts s n r = (r', Inr (if ids = [] then RStr [] else RArr ids))"
    "members r' = (members r)(src := members r src - set ids, dst := members r dst \<union> set ids)" "str r' = str r"
proof -
  have e: "rd_ZREVRANGEBYSCORE R r src ts (Fin 0) n = Inr ids"
    unfolding ids by (rule ZREVRANGEBYSCORE) (use assms(2,5) in simp_all)
  have "int (length ids) \<le> n" unfolding ids using limit_length [OF assms(6)] by simp
  then have l: "length ids \<le> rd_unpack R" using assms(7) by simp
  show thesis
  proof (rule move_each_members [OF assms(1-4) l])
    fix r' assume r': "move_each R dst src s ids r = (r', Inr (if ids = [] then RStr [] else RArr ids))"
      "members r' = (members r)(src := members r src - set ids, dst := members r dst \<union> set ids)" "str r' = str r"
    show thesis by (rule that [of r']) (use r' in \<open>simp_all add: moveFilteredElementsScript_def e\<close>)
  qed
qed

lemma lock_scores_members:
  assumes "str r sc = None"
  shows "lock_scores R r sc d ids = Inr (map (\<lambda>i. (case map_of (zset r sc) i of None \<Rightarrow> d | Some s \<Rightarrow> s, i)) ids)"
  by (induction ids) (simp_all add: ZSCORE [OF assms])

lemma unlockElements_members:
  assumes "str r lock = None" "str r dst = None" "str r sc = None" "distinct [lock, dst, sc]" "d \<noteq> NaN" "ts \<noteq> NaN"
    and "0 \<le> n" "2 * n \<le> int (rd_unpack R)"
    and ids: "ids = map fst (limit n (rev (score_range (Fin 0) ts (zset r lock))))"
  obtains r' where "unlockElementsScript R lock dst sc n ts d r = (r', Inr (if ids = [] then RStr [] else RArr ids))"
    "members r' = (members r)(lock := members r lock - set ids, dst := members r dst \<union> set ids, sc := members r sc - set ids)"
    "str r' = str r"
    "map_of (zset r' dst) = zupdate (map (\<lambda>i. (case map_of (zset r sc) i of None \<Rightarrow> d | Some s \<Rightarrow> s, i)) ids) (map_of (zset r dst))"
proof -
  let ?bulk = "map (\<lambda>i. (case map_of (zset r sc) i of None \<Rightarrow> d | Some s \<Rightarrow> s, i)) ids"
  have e: "rd_ZREVRANGEBYSCORE R r lock ts (Fin 0) n = Inr ids"
    unfolding ids by (rule ZREVRANGEBYSCORE) (use assms(1,6) in simp_all)
  have "int (length ids) \<le> n" unfolding ids using limit_length [OF assms(7)] by simp
  then have l: "2 * length ids \<le> rd_unpack R" using assms(8) by simp
  show thesis
  proof (cases "ids = []")
    case True
    then show ?thesis using that [of r] e by (simp add: unlockElementsScript_def zupdate_def)
  next
    case False
    have nan: "NaN \<notin> fst ` set ?bulk"
    proof
      assume "NaN \<in> fst ` set ?bulk"
      then obtain i where "NaN = (case map_of (zset r sc) i of None \<Rightarrow> d | Some s \<Rightarrow> s)" by auto
      then have "(i, NaN) \<in> set (zset r sc)" using assms(5) by (simp split: option.splits) (metis map_of_SomeD)
      then show False using zset_numbers by blast
    qed
    have b: "?bulk \<noteq> []" using False by simp
    have sb: "snd ` set ?bulk = set ids" by (simp add: image_image)
    obtain r1 where r1: "rd_ZADD R r dst ?bulk = (r1, Inr (int (card (snd ` set ?bulk - members r dst))))"
      "members r1 = (members r)(dst := members r dst \<union> snd ` set ?bulk)" "str r1 = str r"
      "map_of (zset r1 dst) = zupdate ?bulk (map_of (zset r dst))" "\<And>k. k \<noteq> dst \<Longrightarrow> zset r1 k = zset r k"
      by (rule ZADD_members [OF assms(2) b nan]) blast
    have k1: "str r1 lock = None" using assms(1) r1(3) by simp
    obtain r2 where r2: "rd_ZREM R r1 lock ids = (r2, Inr (int (card (set ids \<inter> members r1 lock))))"
      "members r2 = (members r1)(lock := members r1 lock - set ids)" "str r2 = str r1"
      "zset r2 = (zset r1)(lock := filter (\<lambda>(i, s). i \<notin> set ids) (zset r1 lock))"
      by (rule ZREM_members [OF k1 False])
    have k2: "str r2 sc = None" using assms(3) r1(3) r2(3) by simp
    obtain r3 where r3: "rd_ZREM R r2 sc ids = (r3, Inr (int (card (set ids \<inter> members r2 sc))))"
      "members r3 = (members r2)(sc := members r2 sc - set ids)" "str r3 = str r2"
      "zset r3 = (zset r2)(sc := filter (\<lambda>(i, s). i \<notin> set ids) (zset r2 sc))"
      by (rule ZREM_members [OF k2 False])
    have u: "unlockElementsScript R lock dst sc n ts d r = (r3, Inr (RArr ids))"
    proof -
      have lu: "lua_unpack R (2 * length ids) = Inr ()" "lua_unpack R (length ids) = Inr ()"
        using l by (simp_all add: lua_unpack_def)
      show ?thesis
        unfolding unlockElementsScript_def e lock_scores_members [OF assms(3)] and_then.simps if_not_P [OF False]
          length_map lu r1(1) r2(1) r3(1) ..
    qed
    have m: "members r3 = (members r)(lock := members r lock - set ids, dst := members r dst \<union> set ids, sc := members r sc - set ids)"
    proof -
      have n: "dst \<noteq> lock" "sc \<noteq> lock" "sc \<noteq> dst" using assms(4) by auto
      have "members r2 = (members r)(lock := members r lock - set ids, dst := members r dst \<union> set ids)"
        unfolding r2(2) r1(2) sb using n by (simp add: fun_upd_twist)
      then show ?thesis unfolding r3(2) using n by simp
    qed
    have z: "map_of (zset r3 dst) = zupdate ?bulk (map_of (zset r dst))"
    proof -
      have "zset r3 dst = zset r1 dst" unfolding r3(4) r2(4) using assms(4) by auto
      then show ?thesis using r1(4) by simp
    qed
    have st: "str r3 = str r" unfolding r3(3) r2(3) r1(3) ..
    show ?thesis by (rule that [OF _ m st z]) (simp only: u False if_False)
  qed
qed

text \<open>A pull takes the members of the lowest scores within the limits, at most \<open>n\<close> of them.\<close>

lemma pullElements_members:
  assumes "str r src = None" "str r dst = None" "dst \<noteq> src" "s \<noteq> NaN" "0 < n" "n \<le> int (rd_unpack R)" "n < 10 ^ 14"
  shows "lo \<noteq> Some NaN \<Longrightarrow> hi \<noteq> Some NaN \<Longrightarrow>
    ids = map fst (take (nat n) (if lo = None \<and> hi = None then zset r src
      else score_range (case lo of None \<Rightarrow> NInf | Some s \<Rightarrow> s) (case hi of None \<Rightarrow> PInf | Some s \<Rightarrow> s) (zset r src))) \<Longrightarrow>
    \<exists>r'. pullElementsScript R src dst n s lo hi r = (r', Inr (if ids = [] then RStr [] else RArr ids)) \<and>
      members r' = (members r)(src := members r src - set ids, dst := members r dst \<union> set ids) \<and> str r' = str r"
proof -
  assume f: "lo \<noteq> Some NaN" "hi \<noteq> Some NaN"
    and ids: "ids = map fst (take (nat n) (if lo = None \<and> hi = None then zset r src
      else score_range (case lo of None \<Rightarrow> NInf | Some s \<Rightarrow> s) (case hi of None \<Rightarrow> PInf | Some s \<Rightarrow> s) (zset r src)))"
  have l: "length ids \<le> rd_unpack R" using assms(5,6) ids by simp
  have e: "(if lo = None \<and> hi = None
      then (case lua_pred n of Inl e \<Rightarrow> Inl e | Inr stop \<Rightarrow> rd_ZRANGE R r src 0 stop)
      else rd_ZRANGEBYSCORE R r src (case lo of None \<Rightarrow> NInf | Some s \<Rightarrow> s) (case hi of None \<Rightarrow> PInf | Some s \<Rightarrow> s) n) = Inr ids"
  proof (cases "lo = None \<and> hi = None")
    case True
    then show ?thesis
      using assms(5,7) by (simp add: ids lua_pred_def ZRANGE [OF assms(1)] index_range_prefix)
  next
    case False
    have "(case lo of None \<Rightarrow> NInf | Some s \<Rightarrow> s) \<noteq> NaN" "(case hi of None \<Rightarrow> PInf | Some s \<Rightarrow> s) \<noteq> NaN"
      using f by (auto split: option.splits)
    from ZRANGEBYSCORE [OF assms(1) this, of n] show ?thesis using False assms(5) by (auto simp: ids limit_def)
  qed
  obtain r' where "move_each R dst src s ids r = (r', Inr (if ids = [] then RStr [] else RArr ids))"
    "members r' = (members r)(src := members r src - set ids, dst := members r dst \<union> set ids)" "str r' = str r"
    using move_each_members [OF assms(2,1,3,4) l] by metis
  then show ?thesis by (simp add: pullElementsScript_def e)
qed

end

end
