(* ===== verification/Redis_Views.thy ===== *)
theory Redis_Views
  imports Redis_Keys Redis_Move_Laws
begin

text \<open>
  The pools of the Redis cache as sets of ids, its invariant, and what each script does to them. The
  invariant says that a queue has an id in one of its pools at most, that only locked ids have a score set
  aside, and that the keys of the pools hold no strings.
\<close>

definition redis_ids :: "('r \<Rightarrow> string \<Rightarrow> zset) \<Rightarrow> ('r, 'n) RedisCache \<Rightarrow> pool_ids" where
  "redis_ids zset c p q = (if valid_queue q then zmembers (zset (rc_Client c) (pool_key c p q)) else {})"

definition redis_inv ::
    "('r \<Rightarrow> string \<Rightarrow> zset) \<Rightarrow> ('r \<Rightarrow> string \<Rightarrow> string option) \<Rightarrow> ('r, 'n) RedisCache \<Rightarrow> bool" where
  "redis_inv zset str c \<longleftrightarrow>
     pool_disjoint (redis_ids zset c) \<and>
     (\<forall>q. valid_queue q \<longrightarrow>
        (\<forall>t. zmembers (zset (rc_Client c) (lockPoolScore c q t)) \<subseteq> redis_ids zset c (lock_pool t) q \<and>
             str (rc_Client c) (lockPoolScore c q t) = None) \<and>
        (\<forall>p. str (rc_Client c) (pool_key c p q) = None))"

text \<open>The available messages within the limits of a pull.\<close>

definition pull_range :: "float64 option \<Rightarrow> float64 option \<Rightarrow> zset \<Rightarrow> zset" where
  "pull_range lo hi z = (if lo = None \<and> hi = None then z
     else score_range (case lo of None \<Rightarrow> NInf | Some s \<Rightarrow> s) (case hi of None \<Rightarrow> PInf | Some s \<Rightarrow> s) z)"

context redis
begin

text \<open>The same on a state of the server, for the keys of a cache \<open>c\<close>.\<close>

definition dids :: "('r, 'n) RedisCache \<Rightarrow> 'r \<Rightarrow> pool_ids" where
  "dids c r p q = (if valid_queue q then members r (pool_key c p q) else {})"

definition dinv :: "('r, 'n) RedisCache \<Rightarrow> 'r \<Rightarrow> bool" where
  "dinv c r \<longleftrightarrow> pool_disjoint (dids c r) \<and>
     (\<forall>q. valid_queue q \<longrightarrow> (\<forall>t. members r (lockPoolScore c q t) \<subseteq> dids c r (lock_pool t) q \<and>
        str r (lockPoolScore c q t) = None) \<and> (\<forall>p. str r (pool_key c p q) = None))"

lemma ids_dids: "redis_ids zset c = dids c (rc_Client c)"
  by (simp add: fun_eq_iff redis_ids_def dids_def members_def)

lemma inv_dinv: "redis_inv zset str c \<longleftrightarrow> dinv c (rc_Client c)"
  by (simp add: redis_inv_def dinv_def ids_dids members_def)

lemma dids_update [simp]:
  "dids (c\<lparr>rc_Client := r\<rparr>) = dids c" "dids (c\<lparr>rc_link := n\<rparr>) = dids c"
  by (simp_all add: fun_eq_iff dids_def)

lemma dinv_update [simp]:
  "dinv (c\<lparr>rc_Client := r\<rparr>) = dinv c" "dinv (c\<lparr>rc_link := n\<rparr>) = dinv c"
  by (simp_all add: fun_eq_iff dinv_def)

lemma dinvD:
  assumes "dinv c r" "valid_queue q"
  shows "str r (pool_key c p q) = None" "str r (lockPoolScore c q t) = None"
    "members r (lockPoolScore c q t) \<subseteq> dids c r (lock_pool t) q"
  using assms by (simp_all add: dinv_def)

lemma dinv_disjoint: "dinv c r \<Longrightarrow> pool_disjoint (dids c r)"
  by (simp add: dinv_def)

lemma dinv_apart: "dinv c r \<Longrightarrow> i \<in> dids c r p q \<Longrightarrow> p' \<noteq> p \<Longrightarrow> i \<notin> dids c r p' q"
  using dinv_disjoint [of c r] by (metis IntI empty_iff pool_disjoint_def)

lemma dids_valid: "valid_queue q \<Longrightarrow> dids c r p q = members r (pool_key c p q)"
  by (simp add: dids_def)

text \<open>
  A state whose ids came from the ids before by moving, adding or removing has the invariant again, if the
  scores that are set aside still belong to locked ids.
\<close>

lemma dinvI:
  assumes "dinv c r" "str r' = str r" "pool_disjoint (dids c r')"
    and "\<And>q t. valid_queue q \<Longrightarrow> members r' (lockPoolScore c q t) \<subseteq> dids c r' (lock_pool t) q"
  shows "dinv c r'"
  using assms by (simp add: dinv_def)

lemma dids_move:
  assumes "valid_queue q" "p \<noteq> p'" "\<And>p'' q'. valid_queue q' \<Longrightarrow> members r' (pool_key c p'' q') =
     ((members r)(pool_key c p q := members r (pool_key c p q) - I, pool_key c p' q := members r (pool_key c p' q) \<union> I))
       (pool_key c p'' q')"
  shows "dids c r' = pool_move (dids c r) p p' q I"
proof (intro ext)
  fix p'' q'
  show "dids c r' p'' q' = pool_move (dids c r) p p' q I p'' q'"
    using assms(1,2) assms(3) [of q' p'']
    by (cases "valid_queue q'") (auto simp: dids_def pool_move_def key_simps)
qed

lemma move_disjoint:
  assumes "dinv c r" "p \<noteq> p'" "I \<subseteq> dids c r p q"
  shows "pool_disjoint (pool_move (dids c r) p p' q I)"
  unfolding pool_move_moves
  by (rule pool_moves_disjoint [OF dinv_disjoint [OF assms(1)] assms(2)]) (use assms(3) in auto)

text \<open>Moves from the available or the processing pool leave the lock pools or make them larger.\<close>

lemma move_state:
  assumes "dinv c r" "valid_queue q" "p \<noteq> p'" "I \<subseteq> dids c r p q" "\<And>t. p \<noteq> lock_pool t" "str r' = str r"
    and m: "members r' = (members r)(pool_key c p q := members r (pool_key c p q) - I,
      pool_key c p' q := members r (pool_key c p' q) \<union> I)"
  shows "dids c r' = pool_move (dids c r) p p' q I" "dinv c r'"
proof -
  show d: "dids c r' = pool_move (dids c r) p p' q I" by (rule dids_move [OF assms(2,3)]) (simp add: m)
  show "dinv c r'"
  proof (rule dinvI [OF assms(1,6)])
    show "pool_disjoint (dids c r')" unfolding d by (rule move_disjoint [OF assms(1,3,4)])
    show "members r' (lockPoolScore c q' t) \<subseteq> dids c r' (lock_pool t) q'" if v: "valid_queue q'" for q' t
    proof -
      have "members r' (lockPoolScore c q' t) = members r (lockPoolScore c q' t)"
        unfolding m using assms(2) v by (simp add: key_simps)
      also have "\<dots> \<subseteq> dids c r (lock_pool t) q'" by (rule dinvD(3) [OF assms(1) v])
      also have "\<dots> \<subseteq> dids c r' (lock_pool t) q'" unfolding d using assms(5) [of t] by (auto simp: pool_move_def)
      finally show ?thesis .
    qed
  qed
qed

lemma remove_state:
  assumes "dinv c r" "valid_queue q" "str r' = str r"
    and m: "members r' = (\<lambda>k. if k \<in> range (\<lambda>p. pool_key c p q) \<union> range (\<lambda>t. lockPoolScore c q t)
      then members r k - I else members r k)"
  shows "dids c r' = pool_remove (dids c r) q I" "dinv c r'"
proof -
  have e: "members r' (pool_key c p q') = (if q' = q then members r (pool_key c p q') - I else members r (pool_key c p q'))"
    "members r' (lockPoolScore c q' t) = (if q' = q then members r (lockPoolScore c q' t) - I else members r (lockPoolScore c q' t))"
    if v: "valid_queue q'" for p q' t
    unfolding m using assms(2) v by (auto simp: key_simps)
  show d: "dids c r' = pool_remove (dids c r) q I"
    by (intro ext) (simp add: dids_def pool_remove_def e)
  have "pool_disjoint (dids c r')" using dinv_disjoint [OF assms(1)] unfolding d pool_remove_def pool_disjoint_def by auto
  then show "dinv c r'"
    by (rule dinvI [OF assms(1,3)]) (use dinvD(3) [OF assms(1)] in \<open>auto simp: e d pool_remove_def\<close>)
qed

section \<open>The scripts on the pools\<close>

lemma move_script:
  assumes "dinv c r" "valid_queue q"
  obtains r' y where "moveElementScript R (pool_key c PRIMARY_POOL q) (pool_key c PROCESSING_POOL q) s i r = (r', y)" "dinv c r'"
    "y = Inr (RInt (if i \<in> dids c r PROCESSING_POOL q then 1 else 0)) \<and>
       dids c r' = pool_move (dids c r) PROCESSING_POOL PRIMARY_POOL q ({i} \<inter> dids c r PROCESSING_POOL q) \<or>
     (\<exists>e. y = Inl e) \<and> s = NaN \<and> i \<in> dids c r PROCESSING_POOL q \<and> dids c r' = pool_remove (dids c r) q {i}"
proof -
  let ?a = "pool_key c PRIMARY_POOL q" and ?p = "pool_key c PROCESSING_POOL q"
  have st: "str r ?a = None" "str r ?p = None" using dinvD(1) [OF assms] by simp_all
  have ne: "?a \<noteq> ?p" using assms(2) by (simp add: key_simps)
  note mem = moveElement_members [OF st ne, of i]
  show thesis
  proof (cases "i \<in> dids c r PROCESSING_POOL q")
    case False
    then have "i \<notin> members r ?p" using assms(2) by (simp add: dids_valid)
    from mem(1) [OF this, of s] obtain r' where r': "moveElementScript R ?a ?p s i r = (r', Inr (RInt 0))"
      "members r' = members r" "str r' = str r" by blast
    then have "dids c r' = dids c r" by (simp add: dids_def fun_eq_iff)
    moreover from this have "dinv c r'" using assms(1) r'(2,3) by (simp add: dinv_def)
    ultimately show ?thesis using that [OF r'(1)] False by simp
  next
    case True
    then have i: "i \<in> members r ?p" using assms(2) by (simp add: dids_valid)
    have "i \<notin> dids c r PRIMARY_POOL q" using dinv_apart [OF assms(1) True] by simp
    then have n: "i \<notin> members r ?a" using assms(2) by (simp add: dids_valid)
    show ?thesis
    proof (cases "s = NaN")
      case False
      from mem(2) [OF i n False] obtain r' where r': "moveElementScript R ?a ?p s i r = (r', Inr (RInt 1))"
        "members r' = (members r)(?p := members r ?p - {i}, ?a := insert i (members r ?a))" "str r' = str r" by blast
      have "dids c r' = pool_move (dids c r) PROCESSING_POOL PRIMARY_POOL q {i}" "dinv c r'"
        using move_state [OF assms, of PROCESSING_POOL PRIMARY_POOL "{i}" r'] True r'(2,3) by simp_all
      then show ?thesis by (intro that [OF r'(1)]) (simp_all add: True)
    next
      case nan: True
      from mem(3) [OF i nan] obtain r' e where r': "moveElementScript R ?a ?p s i r = (r', Inl e)"
        "members r' = (members r)(?p := members r ?p - {i})" "str r' = str r" by blast
      have m: "members r' (pool_key c p q') = (if p = PROCESSING_POOL \<and> q' = q then members r ?p - {i} else members r (pool_key c p q'))"
        "members r' (lockPoolScore c q' t) = members r (lockPoolScore c q' t)" if "valid_queue q'" for p q' t
        unfolding r'(2) using assms(2) that by (auto simp: key_simps)
      have d: "dids c r' = pool_remove (dids c r) q {i}"
      proof (intro ext)
        fix p q'
        have "dids c r p q - {i} = dids c r p q" if "p \<noteq> PROCESSING_POOL"
          using dinv_apart [OF assms(1) True that] by simp
        then show "dids c r' p q' = pool_remove (dids c r) q {i} p q'"
          using m(1) [of q' p]
          by (cases "valid_queue q'"; cases "p = PROCESSING_POOL"; cases "q' = q")
            (simp_all add: dids_def pool_remove_def del: not_None_eq)
      qed
      have "pool_disjoint (dids c r')" using dinv_disjoint [OF assms(1)] unfolding d pool_remove_def pool_disjoint_def by auto
      moreover have "members r' (lockPoolScore c q' t) \<subseteq> dids c r' (lock_pool t) q'" if "valid_queue q'" for q' t
        using m(1) [OF that, of "lock_pool t"] m(2) [OF that] dinvD(3) [OF assms(1) that, of t] that by (simp add: dids_valid)
      ultimately have "dinv c r'" by (rule dinvI [OF assms(1) r'(3)])
      then show ?thesis by (rule that [OF r'(1)]) (simp add: d True nan)
    qed
  qed
qed

lemma lock_script:
  assumes "dinv c r" "valid_queue q" "until \<noteq> NaN"
  obtains r' y where "lockElementScript R (pool_key c PROCESSING_POOL q) (pool_key c (lock_pool t) q) (lockPoolScore c q t) until i s r = (r', y)"
    "dinv c r'" "dids c r' = pool_move (dids c r) PROCESSING_POOL (lock_pool t) q ({i} \<inter> dids c r PROCESSING_POOL q)"
    "y = Inr (RInt (if i \<in> dids c r PROCESSING_POOL q then 1 else 0)) \<or> (\<exists>e. y = Inl e) \<and> i \<in> dids c r PROCESSING_POOL q"
proof -
  let ?p = "pool_key c PROCESSING_POOL q" and ?l = "pool_key c (lock_pool t) q" and ?s = "lockPoolScore c q t"
  have st: "str r ?p = None" "str r ?l = None" "str r ?s = None" using dinvD(1,2) [OF assms(1,2)] by simp_all
  have ne: "distinct [?p, ?l, ?s]" using assms(2) by (simp add: key_simps)
  note mem = lockElement_members [OF st ne assms(3), of i s]
  show thesis
  proof (cases "i \<in> dids c r PROCESSING_POOL q")
    case False
    then have "i \<notin> members r ?p" using assms(2) by (simp add: dids_valid)
    from mem(1) [OF this] obtain r' where r': "lockElementScript R ?p ?l ?s until i s r = (r', Inr (RInt 0))"
      "members r' = members r" "str r' = str r" by blast
    then have "dids c r' = dids c r" by (simp add: dids_def fun_eq_iff)
    moreover from this have "dinv c r'" using assms(1) r'(2,3) by (simp add: dinv_def)
    ultimately show ?thesis using that [OF r'(1)] False by simp
  next
    case True
    then have i: "i \<in> members r ?p" using assms(2) by (simp add: dids_valid)
    have nl: "i \<notin> dids c r (lock_pool t) q" using dinv_apart [OF assms(1) True] by simp
    then have n: "i \<notin> members r ?l" using assms(2) by (simp add: dids_valid)
    have ns: "i \<notin> members r ?s" using nl dinvD(3) [OF assms(1,2)] by blast
    from mem(2) [OF i n ns] obtain r' x where r': "lockElementScript R ?p ?l ?s until i s r = (r', x)"
      "x = Inr (RInt 1) \<or> (\<exists>e. x = Inl e)" "str r' = str r"
      and m: "members r' = (members r)(?p := members r ?p - {i}, ?l := insert i (members r ?l),
          ?s := (if s = NaN \<or> s = Fin (- 1) then members r ?s else insert i (members r ?s)))" by blast
    have d: "dids c r' = pool_move (dids c r) PROCESSING_POOL (lock_pool t) q {i}"
      by (rule dids_move [OF assms(2)]) (use assms(2) in \<open>simp_all add: m key_simps\<close>)
    have "dinv c r'"
    proof (rule dinvI [OF assms(1) r'(3)])
      show "pool_disjoint (dids c r')" unfolding d by (rule move_disjoint [OF assms(1)]) (use True in simp_all)
      show "members r' (lockPoolScore c q' t') \<subseteq> dids c r' (lock_pool t') q'" if v: "valid_queue q'" for q' t'
      proof -
        have "members r' (lockPoolScore c q' t') \<subseteq> (if t' = t \<and> q' = q then insert i (members r ?s) else members r (lockPoolScore c q' t'))"
          unfolding m using assms(2) v by (auto simp: key_simps)
        also have "\<dots> \<subseteq> dids c r' (lock_pool t') q'"
          unfolding d using dinvD(3) [OF assms(1) v, of t'] by (auto simp: pool_move_def split: if_splits)
        finally show ?thesis .
      qed
    qed
    then show ?thesis using that [OF r'(1)] d True r'(2) by auto
  qed
qed

lemma unlock_script:
  assumes "dinv c r" "valid_queue q" "d \<noteq> NaN" "ts \<noteq> NaN" "0 \<le> n" "2 * n \<le> int (rd_unpack R)"
  obtains r' ids where "unlockElementsScript R (pool_key c (lock_pool t) q) (pool_key c PRIMARY_POOL q) (lockPoolScore c q t) n ts d r =
      (r', Inr (if ids = [] then RStr [] else RArr ids))" "dinv c r'" "set ids \<subseteq> dids c r (lock_pool t) q"
    "dids c r' = pool_move (dids c r) (lock_pool t) PRIMARY_POOL q (set ids)"
proof -
  let ?l = "pool_key c (lock_pool t) q" and ?a = "pool_key c PRIMARY_POOL q" and ?s = "lockPoolScore c q t"
  have st: "str r ?l = None" "str r ?a = None" "str r ?s = None" using dinvD(1,2) [OF assms(1,2)] by simp_all
  have ne: "distinct [?l, ?a, ?s]" using assms(2) by (simp add: key_simps)
  define ids where ids: "ids = map fst (limit n (rev (score_range (Fin 0) ts (zset r ?l))))"
  obtain r' where r': "unlockElementsScript R ?l ?a ?s n ts d r = (r', Inr (if ids = [] then RStr [] else RArr ids))"
    "members r' = (members r)(?l := members r ?l - set ids, ?a := members r ?a \<union> set ids, ?s := members r ?s - set ids)"
    "str r' = str r"
    "map_of (zset r' ?a) = zupdate (map (\<lambda>i. (case map_of (zset r ?s) i of None \<Rightarrow> d | Some s \<Rightarrow> s, i)) ids) (map_of (zset r ?a))"
    by (rule unlockElements_members [OF st ne assms(3-6) ids])
  have sub: "set ids \<subseteq> dids c r (lock_pool t) q" unfolding ids using range_members(1) assms(2) by (simp only: dids_valid)
  have d: "dids c r' = pool_move (dids c r) (lock_pool t) PRIMARY_POOL q (set ids)"
    by (rule dids_move [OF assms(2)]) (use assms(2) in \<open>simp_all add: r'(2) key_simps\<close>)
  have "dinv c r'"
  proof (rule dinvI [OF assms(1) r'(3)])
    show "pool_disjoint (dids c r')" unfolding d by (rule move_disjoint [OF assms(1) _ sub]) simp
    show "members r' (lockPoolScore c q' t') \<subseteq> dids c r' (lock_pool t') q'" if v: "valid_queue q'" for q' t'
    proof -
      have "members r' (lockPoolScore c q' t') =
          (if t' = t \<and> q' = q then members r ?s - set ids else members r (lockPoolScore c q' t'))"
        unfolding r'(2) using assms(2) v by (auto simp: key_simps)
      moreover have "lock_pool t' = lock_pool t \<longleftrightarrow> t' = t" by (cases t; cases t') (simp_all add: lock_pool_def)
      ultimately show ?thesis unfolding d using dinvD(3) [OF assms(1) v, of t'] by (auto simp: pool_move_def split: if_splits)
    qed
  qed
  then show thesis using that [OF r'(1)] sub d by blast
qed

lemma timeout_script:
  assumes "dinv c r" "valid_queue q" "s \<noteq> NaN" "ts \<noteq> NaN" "0 \<le> n" "n \<le> int (rd_unpack R)"
  obtains r' ids where "moveFilteredElementsScript R (pool_key c PRIMARY_POOL q) (pool_key c PROCESSING_POOL q) ts s n r =
      (r', Inr (if ids = [] then RStr [] else RArr ids))" "dinv c r'" "set ids \<subseteq> dids c r PROCESSING_POOL q"
    "dids c r' = pool_move (dids c r) PROCESSING_POOL PRIMARY_POOL q (set ids)"
proof -
  let ?a = "pool_key c PRIMARY_POOL q" and ?p = "pool_key c PROCESSING_POOL q"
  have st: "str r ?a = None" "str r ?p = None" using dinvD(1) [OF assms(1,2)] by simp_all
  have ne: "?a \<noteq> ?p" using assms(2) by (simp add: key_simps)
  define ids where ids: "ids = map fst (limit n (rev (score_range (Fin 0) ts (zset r ?p))))"
  obtain r' where r': "moveFilteredElementsScript R ?a ?p ts s n r = (r', Inr (if ids = [] then RStr [] else RArr ids))"
    "members r' = (members r)(?p := members r ?p - set ids, ?a := members r ?a \<union> set ids)" "str r' = str r"
    by (rule moveFiltered_members [OF st ne assms(3-6) ids])
  have sub: "set ids \<subseteq> dids c r PROCESSING_POOL q" unfolding ids using range_members(1) assms(2) by (simp only: dids_valid)
  have "dids c r' = pool_move (dids c r) PROCESSING_POOL PRIMARY_POOL q (set ids)" "dinv c r'"
    using move_state [OF assms(1,2), of PROCESSING_POOL PRIMARY_POOL "set ids" r'] sub r'(2,3) by simp_all
  then show thesis using that [OF r'(1) _ sub] by blast
qed

text \<open>A pull either moves what it returns or, with a filter that is not a number, fails and moves nothing.\<close>

lemma pull_script:
  assumes "dinv c r" "valid_queue q" "s \<noteq> NaN" "0 < n" "n \<le> int (rd_unpack R)" "n < 10 ^ 14"
    and "lo \<noteq> Some NaN" "hi \<noteq> Some NaN"
    and ids: "ids = map fst (take (nat n) (pull_range lo hi (zset r (pool_key c PRIMARY_POOL q))))"
  obtains r' where "pullElementsScript R (pool_key c PRIMARY_POOL q) (pool_key c PROCESSING_POOL q) n s lo hi r =
      (r', Inr (if ids = [] then RStr [] else RArr ids))" "dinv c r'" "set ids \<subseteq> dids c r PRIMARY_POOL q" "distinct ids"
    "dids c r' = pool_move (dids c r) PRIMARY_POOL PROCESSING_POOL q (set ids)"
proof -
  let ?a = "pool_key c PRIMARY_POOL q" and ?p = "pool_key c PROCESSING_POOL q"
  have st: "str r ?a = None" "str r ?p = None" using dinvD(1) [OF assms(1,2)] by simp_all
  have ne: "?p \<noteq> ?a" using assms(2) by (simp add: key_simps)
  obtain r' where r': "pullElementsScript R ?a ?p n s lo hi r = (r', Inr (if ids = [] then RStr [] else RArr ids))"
    "members r' = (members r)(?a := members r ?a - set ids, ?p := members r ?p \<union> set ids)" "str r' = str r"
    using pullElements_members [OF st ne assms(3-8) ids [unfolded pull_range_def]] by blast
  have pr: "set (pull_range lo hi z) \<subseteq> set z" for z by (auto simp: pull_range_def score_range_def)
  have "set (take (nat n) (pull_range lo hi (zset r ?a))) \<subseteq> set (zset r ?a)"
    using set_take_subset pr by (metis subset_trans)
  then have sub: "set ids \<subseteq> dids c r PRIMARY_POOL q"
    unfolding ids using assms(2) by (auto simp: dids_valid members_def zmembers_def)
  have "distinct (map fst (pull_range lo hi (zset r ?a)))"
    using zset_members [of r ?a] by (simp add: pull_range_def score_range_def distinct_map_filter)
  then have d: "distinct ids" unfolding ids by (simp add: take_map [symmetric])
  have "dids c r' = pool_move (dids c r) PRIMARY_POOL PROCESSING_POOL q (set ids)" "dinv c r'"
    using move_state [OF assms(1,2), of PRIMARY_POOL PROCESSING_POOL "set ids" r'] sub r'(2,3) by simp_all
  then show thesis using that [OF r'(1) _ sub d] by blast
qed

lemma add_script:
  assumes "dinv c r" "valid_queue q" "2 * length ps \<le> rd_unpack R"
  obtains r' y ids where "addElementsScript R (pool_key c PRIMARY_POOL q)
      [pool_key c LOCK_NACK_POOL q, pool_key c LOCK_ACK_POOL q, pool_key c PROCESSING_POOL q] ps r = (r', y)" "dinv c r'"
    "dids c r' = pool_add (dids c r) q (set ids)"
    "y = Inr (RArr ids) \<and> set ids = snd ` set ps - known_ids (dids c r) q \<or> (\<exists>e. y = Inl e) \<and> ids = []"
proof -
  let ?a = "pool_key c PRIMARY_POOL q"
  let ?ks = "[pool_key c LOCK_NACK_POOL q, pool_key c LOCK_ACK_POOL q, pool_key c PROCESSING_POOL q]"
  have st: "\<forall>k\<in>set (?a # ?ks). str r k = None" using dinvD(1) [OF assms(1,2)] by simp
  define new where new: "new = filter (\<lambda>(s, i). \<forall>k\<in>set (?a # ?ks). i \<notin> members r k) ps"
  have kn: "known_ids (dids c r) q = (\<Union>k\<in>set (?a # ?ks). members r k)"
    using assms(2) by (auto simp: known_ids_pools dids_valid)
  have sn: "snd ` set new = snd ` set ps - known_ids (dids c r) q" unfolding kn new by force
  note mem = addElements_members [OF st assms(3) new]
  show thesis
  proof (cases "NaN \<in> fst ` set new")
    case True
    from mem(2) [OF this] obtain r' e where r': "addElementsScript R ?a ?ks ps r = (r', Inl e)"
      "members r' = members r" "str r' = str r" by blast
    then have "dids c r' = dids c r" by (simp add: dids_def fun_eq_iff)
    moreover from this have "dinv c r'" using assms(1) r'(2,3) by (simp add: dinv_def)
    ultimately show ?thesis using that [OF r'(1), of "[]"] by simp
  next
    case False
    from mem(1) [OF this] obtain r' where r': "addElementsScript R ?a ?ks ps r = (r', Inr (RArr (map snd new)))"
      "members r' = (members r)(?a := members r ?a \<union> snd ` set new)" "str r' = str r" by blast
    have m: "members r' (pool_key c p q') = (if p = PRIMARY_POOL \<and> q' = q then members r ?a \<union> snd ` set new else members r (pool_key c p q'))"
      "members r' (lockPoolScore c q' t) = members r (lockPoolScore c q' t)" if "valid_queue q'" for p q' t
      unfolding r'(2) using assms(2) that by (auto simp: key_simps)
    have d: "dids c r' = pool_add (dids c r) q (snd ` set new)"
      using assms(2) by (intro ext) (simp add: dids_def pool_add_def m)
    have "pool_disjoint (dids c r')"
      using dinv_disjoint [OF assms(1)] unfolding d sn
      by (auto simp: pool_disjoint_def pool_add_def known_ids_def)
    moreover have "members r' (lockPoolScore c q' t) \<subseteq> dids c r' (lock_pool t) q'" if v: "valid_queue q'" for q' t
      using dinvD(3) [OF assms(1) v, of t] m(2) [OF v] unfolding d by (auto simp: pool_add_def)
    ultimately have "dinv c r'" by (rule dinvI [OF assms(1) r'(3)])
    then show ?thesis by (rule that [OF r'(1), of "map snd new"]) (simp_all add: d sn)
  qed
qed

lemma remove_script:
  assumes "dinv c r" "valid_queue q" "ids \<noteq> []" "length ids \<le> rd_unpack R"
    and ks: "ks = [pool_key c PRIMARY_POOL q, pool_key c PROCESSING_POOL q, pool_key c LOCK_ACK_POOL q,
      pool_key c LOCK_NACK_POOL q, lockPoolScore c q LOCK_ACK, lockPoolScore c q LOCK_NACK]"
  obtains r' where "removeElementScript R ks ids r = (r', Inr (RInt (\<Sum>k\<leftarrow>ks. int (card (set ids \<inter> members r k)))))"
    "dinv c r'" "dids c r' = pool_remove (dids c r) q (set ids)"
proof -
  have st: "\<forall>k\<in>set ks. str r k = None" using dinvD(1,2) [OF assms(1,2)] by (simp add: ks)
  have ne: "distinct ks" using assms(2) by (simp add: ks key_simps)
  obtain r' where r': "removeElementScript R ks ids r = (r', Inr (RInt (\<Sum>k\<leftarrow>ks. int (card (set ids \<inter> members r k)))))"
    "members r' = (\<lambda>k. if k \<in> set ks then members r k - set ids else members r k)" "str r' = str r"
    by (rule removeElement_members [OF st assms(3,4) ne])
  have lt: "UNIV = {LOCK_ACK, LOCK_NACK}" by (auto intro: LockType.exhaust)
  have "set ks = range (\<lambda>p. pool_key c p q) \<union> range (\<lambda>t. lockPoolScore c q t)"
    unfolding UNIV_PoolType lt by (auto simp: ks)
  then have "dids c r' = pool_remove (dids c r) q (set ids)" "dinv c r'"
    using remove_state [OF assms(1,2) r'(3), of "set ids"] r'(2) by simp_all
  then show thesis using that [OF r'(1)] by blast
qed

end

end
