(* ===== verification/Redis_Contract.thy ===== *)
theory Redis_Contract
  imports Redis_Views
begin

text \<open>
  The Redis cache keeps its invariant whatever the connection does, and it keeps the contract of a cache if the
  client does not repeat commands. A pull of more messages than Lua can unpack is outside of the contract: it
  would leave them in two pools.
\<close>

definition redis_amount :: "int64 \<Rightarrow> bool" where
  "redis_amount n \<longleftrightarrow> 0 < n \<and> n \<le> 4000"

lemma parseResult_ids [simp]:
  "parseResult (Inl e) = Inl (Wrap ''error parsing result'' e)"
  "parseResult (Inr (if ids = [] then RStr [] else RArr ids)) = Inr ids"
  "parseResult (Inr (RArr ids)) = Inr ids"
  by (simp_all add: parseResult_def resultToIds_def)

lemma val_is_one_simps [simp]: "val_is_one (RInt n) = Inr (n = 1)"
  by (simp add: val_is_one_def)

section \<open>Running a script\<close>

text \<open>What every execution keeps, the connection keeps.\<close>

lemma Script_Run_keeps:
  assumes "Script_Run R name ks s c = (c', x)" "P (rc_Client c)" "\<And>r. P r \<Longrightarrow> P (fst (s r))"
  shows "P (rc_Client c')" "rc_keyPrefix c' = rc_keyPrefix c" "rc_clusterMode c' = rc_clusterMode c"
proof -
  obtain net lost out where l: "rd_link R (rc_link c) name ks = (net, lost, out)" by (rule prod_cases3)
  have "P (((\<lambda>r. fst (s r)) ^^ lost) (rc_Client c))" by (induction lost) (use assms(2,3) in simp_all)
  with assms(3) have "P (fst (s (((\<lambda>r. fst (s r)) ^^ lost) (rc_Client c))))" "P (((\<lambda>r. fst (s r)) ^^ lost) (rc_Client c))"
    by blast+
  then show "P (rc_Client c')" "rc_keyPrefix c' = rc_keyPrefix c" "rc_clusterMode c' = rc_clusterMode c"
    using assms(1) l by (auto simp: Script_Run_def Let_def split: option.splits prod.splits)
qed

context redis_once
begin

lemma Script_Run_once:
  assumes "Script_Run R name ks s c = (c', x)"
  obtains (lost) net e where "c' = c\<lparr>rc_link := net\<rparr>" "x = Inl e"
  | (ran) net r' y where "s (rc_Client c) = (r', y)" "c' = c\<lparr>rc_link := net, rc_Client := r'\<rparr>" "x = y \<or> (\<exists>e. x = Inl e)"
proof -
  obtain net lost out where l: "rd_link R (rc_link c) name ks = (net, lost, out)" by (rule prod_cases3)
  obtain r' y where s: "s (rc_Client c) = (r', y)" by (meson surj_pair)
  consider "lost = 0" "out = None" | e where "lost = 0" "out = Some e" | e where "lost = 1" "out = Some e"
    using once [OF l] by (cases out) auto
  then show thesis
  proof cases
    case 1
    then show ?thesis using ran [OF s, of net] assms l s by (simp add: Script_Run_def)
  next
    case 2
    then show ?thesis using lost [of net e] assms l by (simp add: Script_Run_def)
  next
    case 3
    then show ?thesis using ran [OF s, of net] assms l s by (auto simp: Script_Run_def)
  qed
qed

lemma set_contract:
  assumes "RedisCache_Set R c k v = (c', eo)"
  shows "dids c' (rc_Client c') = dids c (rc_Client c) \<and> (dinv c (rc_Client c) \<longrightarrow> dinv c' (rc_Client c'))"
    "eo = None \<Longrightarrow> RedisCache_Get R c' k = Inr w \<Longrightarrow> w = v"
proof -
  let ?k = "generalCacheKey c k"
  obtain cmd where run: "Script_Run R ''SET'' [?k] (\<lambda>r. rd_SET R r ?k v) c = (c', cmd)"
    and eo: "eo = (case cmd of Inl e \<Rightarrow> Some (Wrap ''error setting cache element'' e) | Inr _ \<Rightarrow> None)"
    using assms by (auto simp: RedisCache_Set_def split: prod.splits)
  obtain r1 where r1: "rd_SET R (rc_Client c) ?k v = (r1, Inr ())" "zset r1 = (zset (rc_Client c))(?k := [])"
    "str r1 = (str (rc_Client c))(?k \<mapsto> v)" using SET by blast
  have k: "members r1 (pool_key c p q) = members (rc_Client c) (pool_key c p q)"
    "members r1 (lockPoolScore c q t) = members (rc_Client c) (lockPoolScore c q t)"
    "str r1 (pool_key c p q) = str (rc_Client c) (pool_key c p q)"
    "str r1 (lockPoolScore c q t) = str (rc_Client c) (lockPoolScore c q t)" for p q t
    unfolding members_def r1(2,3) by (simp_all add: key_not_general)
  have d: "dids c r1 = dids c (rc_Client c)" by (simp add: dids_def fun_eq_iff k)
  have i: "dinv c (rc_Client c) \<Longrightarrow> dinv c r1" by (simp add: dinv_def d k)
  show "dids c' (rc_Client c') = dids c (rc_Client c) \<and> (dinv c (rc_Client c) \<longrightarrow> dinv c' (rc_Client c'))"
    using run
  proof (cases rule: Script_Run_once)
    case (lost net e)
    then show ?thesis by simp
  next
    case (ran net r' y)
    then show ?thesis using r1(1) d i by simp
  qed
  show "w = v" if "eo = None" and g: "RedisCache_Get R c' k = Inr w"
  proof -
    obtain net where c': "c' = c\<lparr>rc_link := net, rc_Client := r1\<rparr>"
      using run
    proof (cases rule: Script_Run_once)
      case (lost net e)
      then show ?thesis using \<open>eo = None\<close> eo by simp
    next
      case (ran net r' y)
      then show ?thesis using that r1(1) by simp
    qed
    have "rd_GET R r1 ?k = Inr (Some v)" using GET [of r1 ?k] r1(2,3) by simp
    then show ?thesis
      using g c' by (auto simp: RedisCache_Get_def Read_Run_def split: prod.splits option.splits)
  qed
qed

text \<open>
  What a call leaves behind: \<open>before c I\<close> and \<open>after\<close> are the pools before and after it. The laws below are those
  of \<open>cache_contract\<close>, method by method.
\<close>

abbreviation now_ids :: "('r, 'n) RedisCache \<Rightarrow> pool_ids" where
  "now_ids c \<equiv> dids c (rc_Client c)"

abbreviation now_inv :: "('r, 'n) RedisCache \<Rightarrow> bool" where
  "now_inv c \<equiv> dinv c (rc_Client c)"

lemma make_available_contract:
  assumes "now_inv c" "RedisCache_MakeAvailable R c m = (c', x)"
  shows "now_inv c' \<and> (case x of
      Inr b \<Rightarrow> b = (msg_ID m \<in> now_ids c PROCESSING_POOL (msg_Queue m)) \<and>
        now_ids c' = pool_move (now_ids c) PROCESSING_POOL PRIMARY_POOL (msg_Queue m) (if b then {msg_ID m} else {})
    | Inl e \<Rightarrow> now_ids c' = now_ids c \<or> now_ids c' = pool_remove (now_ids c) (msg_Queue m) {msg_ID m} \<or>
        msg_ID m \<in> now_ids c PROCESSING_POOL (msg_Queue m) \<and>
        now_ids c' = pool_move (now_ids c) PROCESSING_POOL PRIMARY_POOL (msg_Queue m) {msg_ID m})"
proof (cases "msg_Queue m = [] \<or> \<not> valid_queue (msg_Queue m)")
  case True
  then have "c' = c" "\<exists>e. x = Inl e" using assms(2) by (auto simp: RedisCache_MakeAvailable_def split: if_splits option.splits)
  then show ?thesis using assms(1) by auto
next
  case False
  let ?q = "msg_Queue m" and ?i = "msg_ID m"
  let ?ks = "[pool_key c PRIMARY_POOL ?q, pool_key c PROCESSING_POOL ?q]"
  let ?s = "moveElementScript R (?ks ! 0) (?ks ! 1) (msg_Score m) ?i"
  obtain cmd where run: "Script_Run R ''move'' ?ks ?s c = (c', cmd)"
    and x: "x = (case cmd of Inl e \<Rightarrow> Inl (Wrap ''error making element available on cache'' e) | Inr reply \<Rightarrow> val_is_one reply)"
    using assms(2) False by (auto simp: RedisCache_MakeAvailable_def Let_def pool_key_simps split: prod.splits)
  obtain r1 y where r1: "?s (rc_Client c) = (r1, y)" "dinv c r1" and
    y: "y = Inr (RInt (if ?i \<in> now_ids c PROCESSING_POOL ?q then 1 else 0)) \<and>
       dids c r1 = pool_move (now_ids c) PROCESSING_POOL PRIMARY_POOL ?q ({?i} \<inter> now_ids c PROCESSING_POOL ?q) \<or>
     (\<exists>e. y = Inl e) \<and> msg_Score m = NaN \<and> ?i \<in> now_ids c PROCESSING_POOL ?q \<and> dids c r1 = pool_remove (now_ids c) ?q {?i}"
    using move_script [OF assms(1), of ?q "msg_Score m" ?i] False by (metis nth_Cons_0 nth_Cons_Suc One_nat_def)
  show ?thesis
    using run
  proof (cases rule: Script_Run_once)
    case (lost net e)
    then show ?thesis using assms(1) x by simp
  next
    case (ran net r' y')
    then have e: "r' = r1" "y' = y" using r1(1) by simp_all
    show ?thesis
    proof (cases "cmd = y \<and> (\<exists>n. y = Inr (RInt n))")
      case True
      then show ?thesis using y ran(2) e r1(2) x by (auto split: if_splits)
    next
      case False
      then have "\<exists>e. x = Inl e" using ran(3) e y x by auto
      moreover have "dids c r1 = now_ids c \<or> dids c r1 = pool_remove (now_ids c) ?q {?i} \<or> ?i \<in> now_ids c PROCESSING_POOL ?q \<and>
          dids c r1 = pool_move (now_ids c) PROCESSING_POOL PRIMARY_POOL ?q {?i}"
        using y by (cases "?i \<in> now_ids c PROCESSING_POOL ?q") auto
      ultimately show ?thesis using ran(2) e r1(2) by auto
    qed
  qed
qed

lemma lock_contract:
  assumes "now_inv c" "RedisCache_LockMessage R now c m t = (c', x)"
  shows "now_inv c' \<and> (case x of
      Inr b \<Rightarrow> b = (msg_ID m \<in> now_ids c PROCESSING_POOL (msg_Queue m)) \<and>
        now_ids c' = pool_move (now_ids c) PROCESSING_POOL (lock_pool t) (msg_Queue m) (if b then {msg_ID m} else {})
    | Inl e \<Rightarrow> now_ids c' = now_ids c \<or> msg_ID m \<in> now_ids c PROCESSING_POOL (msg_Queue m) \<and>
        now_ids c' = pool_move (now_ids c) PROCESSING_POOL (lock_pool t) (msg_Queue m) {msg_ID m})"
proof (cases "msg_Queue m = [] \<or> \<not> valid_queue (msg_Queue m) \<or> msg_LockMs m \<le> 0")
  case True
  then have "c' = c" "\<exists>e. x = Inl e"
    using assms(2) by (auto simp: RedisCache_LockMessage_def split: if_splits option.splits)
  then show ?thesis using assms(1) by auto
next
  case False
  let ?q = "msg_Queue m" and ?i = "msg_ID m" and ?u = "float_of_int (wrap64 (NowMs now + msg_LockMs m))"
  let ?ks = "[pool_key c PROCESSING_POOL ?q, pool_key c (lock_pool t) ?q, lockPoolScore c ?q t]"
  let ?s = "lockElementScript R (?ks ! 0) (?ks ! 1) (?ks ! 2) ?u ?i (msg_Score m)"
  obtain cmd where run: "Script_Run R ''lock'' ?ks ?s c = (c', cmd)"
    and x: "x = (case cmd of Inl e \<Rightarrow> Inl (Wrap ''error locking cache element'' e) | Inr reply \<Rightarrow> val_is_one reply)"
    using assms(2) False by (auto simp: RedisCache_LockMessage_def Let_def pool_key_simps split: prod.splits)
  have v: "valid_queue ?q" using False by simp
  obtain r1 y where r1: "?s (rc_Client c) = (r1, y)" "dinv c r1"
    "dids c r1 = pool_move (now_ids c) PROCESSING_POOL (lock_pool t) ?q ({?i} \<inter> now_ids c PROCESSING_POOL ?q)"
    and y: "y = Inr (RInt (if ?i \<in> now_ids c PROCESSING_POOL ?q then 1 else 0)) \<or> (\<exists>e. y = Inl e) \<and> ?i \<in> now_ids c PROCESSING_POOL ?q"
    by (rule lock_script [OF assms(1) v, of ?u t ?i "msg_Score m"]) (simp_all add: numeral_2_eq_2)
  show ?thesis
    using run
  proof (cases rule: Script_Run_once)
    case (lost net e)
    then show ?thesis using assms(1) x by simp
  next
    case (ran net r' y')
    then have e: "r' = r1" "y' = y" using r1(1) by simp_all
    show ?thesis
    proof (cases "cmd = y \<and> (\<exists>n. y = Inr (RInt n))")
      case True
      then show ?thesis using y ran(2) e r1(2,3) x by (auto split: if_splits)
    next
      case False
      then have "\<exists>e. x = Inl e" using ran(3) e y x by auto
      moreover have "dids c r1 = now_ids c \<or> ?i \<in> now_ids c PROCESSING_POOL ?q \<and>
          dids c r1 = pool_move (now_ids c) PROCESSING_POOL (lock_pool t) ?q {?i}"
        using r1(3) by (cases "?i \<in> now_ids c PROCESSING_POOL ?q") auto
      ultimately show ?thesis using ran(2) e r1(2) by auto
    qed
  qed
qed

text \<open>The methods that return the ids they moved.\<close>

lemma moved_contract:
  assumes "Script_Run R name ks s c = (c', cmd)" "now_inv c"
    and "s (rc_Client c) = (r1, Inr (if ids = [] then RStr [] else RArr ids))" "dinv c r1"
    and "dids c r1 = pool_move (now_ids c) p p' q (set ids)" "set ids \<subseteq> now_ids c p q"
  shows "now_inv c' \<and> (case parseResult cmd of
      Inr r \<Rightarrow> r = ids \<and> now_ids c' = pool_move (now_ids c) p p' q (set ids)
    | Inl e \<Rightarrow> \<exists>I\<subseteq>now_ids c p q. now_ids c' = pool_move (now_ids c) p p' q I)"
  using assms(1)
proof (cases rule: Script_Run_once)
  case (lost net e)
  then show ?thesis using assms(2) by (auto intro!: exI [of _ "{}"])
next
  case (ran net r' y)
  then have e: "r' = r1" "y = Inr (if ids = [] then RStr [] else RArr ids)" using assms(3) by simp_all
  then have "cmd = Inr (if ids = [] then RStr [] else RArr ids) \<or> (\<exists>e. cmd = Inl e)" using ran(3) by simp
  then show ?thesis
  proof
    assume c: "cmd = Inr (if ids = [] then RStr [] else RArr ids)"
    show ?thesis unfolding c parseResult_ids using ran(2) e(1) assms(4,5) by simp
  next
    assume "\<exists>e. cmd = Inl e"
    then show ?thesis using ran(2) e(1) assms(4-6) by (auto intro!: exI [of _ "set ids"])
  qed
qed

lemma timeout_contract:
  assumes "now_inv c" "RedisCache_TimeoutMessages R now c q = (c', x)"
  shows "now_inv c' \<and> (case x of
      Inr r \<Rightarrow> set r \<subseteq> now_ids c PROCESSING_POOL q \<and> now_ids c' = pool_move (now_ids c) PROCESSING_POOL PRIMARY_POOL q (set r)
    | Inl e \<Rightarrow> \<exists>I\<subseteq>now_ids c PROCESSING_POOL q. now_ids c' = pool_move (now_ids c) PROCESSING_POOL PRIMARY_POOL q I)"
proof (cases "valid_queue q")
  case True
  let ?ks = "[pool_key c PRIMARY_POOL q, pool_key c PROCESSING_POOL q]"
  let ?s = "moveFilteredElementsScript R (?ks ! 0) (?ks ! 1) (float_of_int (TimeToMs now)) score_Min 1000"
  obtain cmd where run: "Script_Run R ''move_primary_pool'' ?ks ?s c = (c', cmd)" and x: "x = parseResult cmd"
    using assms(2) True by (auto simp: RedisCache_TimeoutMessages_def Let_def pool_key_simps split: prod.splits)
  have n: "(1000 :: int) \<le> int (rd_unpack R)" using unpack by simp
  obtain r1 ids where "moveFilteredElementsScript R (pool_key c PRIMARY_POOL q) (pool_key c PROCESSING_POOL q)
      (float_of_int (TimeToMs now)) score_Min 1000 (rc_Client c) = (r1, Inr (if ids = [] then RStr [] else RArr ids))" "dinv c r1"
    "set ids \<subseteq> now_ids c PROCESSING_POOL q" "dids c r1 = pool_move (now_ids c) PROCESSING_POOL PRIMARY_POOL q (set ids)"
    by (rule timeout_script [OF assms(1) True _ float_of_int_not_NaN _ n, of score_Min]) (simp_all add: score_Min_def)
  then show ?thesis using moved_contract [OF run assms(1), of r1 ids] x by (auto split: sum.splits)
qed (use assms in \<open>auto simp: RedisCache_TimeoutMessages_def split: option.splits intro!: exI [of _ "{}"]\<close>)

lemma unlock_contract:
  assumes "now_inv c" "RedisCache_UnlockMessages R now c q t = (c', x)"
  shows "now_inv c' \<and> (case x of
      Inr r \<Rightarrow> set r \<subseteq> now_ids c (lock_pool t) q \<and> now_ids c' = pool_move (now_ids c) (lock_pool t) PRIMARY_POOL q (set r)
    | Inl e \<Rightarrow> \<exists>I\<subseteq>now_ids c (lock_pool t) q. now_ids c' = pool_move (now_ids c) (lock_pool t) PRIMARY_POOL q I)"
proof (cases "valid_queue q")
  case True
  let ?d = "if t = LOCK_ACK then GetScoreByDefaultAlgorithm now else score_Min"
  let ?ks = "[pool_key c (lock_pool t) q, pool_key c PRIMARY_POOL q, lockPoolScore c q t]"
  let ?s = "unlockElementsScript R (?ks ! 0) (?ks ! 1) (?ks ! 2) 1000 (float_of_int (NowMs now)) ?d"
  obtain cmd where run: "Script_Run R ''unlock_elements'' ?ks ?s c = (c', cmd)" and x: "x = parseResult cmd"
    using assms(2) True by (auto simp: RedisCache_UnlockMessages_def Let_def pool_key_simps split: prod.splits)
  have n: "2 * (1000 :: int) \<le> int (rd_unpack R)" using unpack by simp
  have d: "?d \<noteq> NaN" by (simp add: GetScoreByDefaultAlgorithm_def score_Min_def)
  obtain r1 ids where "?s (rc_Client c) = (r1, Inr (if ids = [] then RStr [] else RArr ids))" "dinv c r1"
    "set ids \<subseteq> now_ids c (lock_pool t) q" "dids c r1 = pool_move (now_ids c) (lock_pool t) PRIMARY_POOL q (set ids)"
    by (rule unlock_script [OF assms(1) True d float_of_int_not_NaN _ n, of t "NowMs now"]) (simp_all add: numeral_2_eq_2)
  then show ?thesis using moved_contract [OF run assms(1), of r1 ids] x by (auto split: sum.splits)
qed (use assms in \<open>auto simp: RedisCache_UnlockMessages_def split: option.splits intro!: exI [of _ "{}"]\<close>)

lemma pull_contract:
  assumes "now_inv c" "redis_amount n" "RedisCache_PullMessages R now c q n lo hi ack = (c', x)"
  shows "now_inv c' \<and> (case x of
      Inr r \<Rightarrow> distinct r \<and> int (length r) \<le> n \<and> set r \<subseteq> now_ids c PRIMARY_POOL q \<and>
        now_ids c' = pool_move (now_ids c) PRIMARY_POOL PROCESSING_POOL q (set r)
    | Inl e \<Rightarrow> \<exists>I\<subseteq>now_ids c PRIMARY_POOL q. now_ids c' = pool_move (now_ids c) PRIMARY_POOL PROCESSING_POOL q I)"
proof (cases "valid_queue q")
  case True
  let ?u = "float_of_int (wrap64 (TimeToMs now + (if ack = 0 then DefaultTimeoutMs else ack)))"
  let ?ks = "[pool_key c PRIMARY_POOL q, pool_key c PROCESSING_POOL q]"
  let ?s = "pullElementsScript R (?ks ! 0) (?ks ! 1) n ?u lo hi"
  obtain cmd where run: "Script_Run R ''pull'' ?ks ?s c = (c', cmd)" and x: "x = parseResult cmd"
    using assms(3) True by (auto simp: RedisCache_PullMessages_def Let_def pool_key_simps split: prod.splits)
  have n: "0 < n" "n \<le> int (rd_unpack R)" "n < 10 ^ 14" using unpack assms(2) by (simp_all add: redis_amount_def)
  show ?thesis
  proof (cases "lo = Some NaN \<or> hi = Some NaN")
    case nan: True
    have "\<exists>e. ?s (rc_Client c) = (rc_Client c, Inl e)"
      using ZRANGEBYSCORE_NaN [of "case lo of None \<Rightarrow> NInf | Some s \<Rightarrow> s" "case hi of None \<Rightarrow> PInf | Some s \<Rightarrow> s"
        "rc_Client c" "pool_key c PRIMARY_POOL q" n] nan by (auto simp: pullElementsScript_def)
    then obtain e where s: "?s (rc_Client c) = (rc_Client c, Inl e)" by blast
    have "\<exists>e. x = Inl e \<and> now_ids c' = now_ids c \<and> now_inv c'"
      using run
    proof (cases rule: Script_Run_once)
      case (ran net r' y)
      then show ?thesis using s x assms(1) by auto
    qed (use x assms(1) in auto)
    then show ?thesis by (auto intro!: exI [of _ "{}"])
  next
    case False
    define ids where ids: "ids = map fst (take (nat n) (pull_range lo hi (zset (rc_Client c) (pool_key c PRIMARY_POOL q))))"
    have f: "lo \<noteq> Some NaN" "hi \<noteq> Some NaN" using False by simp_all
    obtain r1 where r1: "?s (rc_Client c) = (r1, Inr (if ids = [] then RStr [] else RArr ids))" "dinv c r1"
      "set ids \<subseteq> now_ids c PRIMARY_POOL q" "distinct ids" "dids c r1 = pool_move (now_ids c) PRIMARY_POOL PROCESSING_POOL q (set ids)"
      by (rule pull_script [OF assms(1) True float_of_int_not_NaN n f ids]) simp
    have "int (length ids) \<le> n" using n(1) by (simp add: ids)
    then show ?thesis using moved_contract [OF run assms(1) r1(1,2,5,3)] r1(3,4) x by (auto split: sum.splits)
  qed
qed (use assms in \<open>auto simp: RedisCache_PullMessages_def split: option.splits intro!: exI [of _ "{}"]\<close>)

section \<open>Partitions\<close>

text \<open>One partition of an insertion, and all of them.\<close>

lemma add_contract:
  assumes "now_inv c" "valid_queue q" "length ms \<le> 2000"
    and ks: "ks = [pool_key c PRIMARY_POOL q, pool_key c LOCK_NACK_POOL q, pool_key c LOCK_ACK_POOL q, pool_key c PROCESSING_POOL q]"
    and "Script_Run R ''add'' ks (addElementsScript R (hd ks) (tl ks) (map (\<lambda>m. (msg_Score m, msg_ID m)) ms)) c = (c', cmd)"
  shows "now_inv c' \<and> rc_keyPrefix c' = rc_keyPrefix c \<and> (case parseResult cmd of
      Inr r \<Rightarrow> set r = msg_ID ` set ms - known_ids (now_ids c) q \<and> now_ids c' = pool_add (now_ids c) q (set r)
    | Inl e \<Rightarrow> \<exists>I\<subseteq>msg_ID ` set ms - known_ids (now_ids c) q. now_ids c' = pool_add (now_ids c) q I)"
proof -
  let ?ps = "map (\<lambda>m. (msg_Score m, msg_ID m)) ms"
  have l: "2 * length ?ps \<le> rd_unpack R" using assms(3) unpack by simp
  obtain r1 y ids where r1: "addElementsScript R (hd ks) (tl ks) ?ps (rc_Client c) = (r1, y)" "dinv c r1"
    "dids c r1 = pool_add (now_ids c) q (set ids)"
    and y: "y = Inr (RArr ids) \<and> set ids = snd ` set ?ps - known_ids (now_ids c) q \<or> (\<exists>e. y = Inl e) \<and> ids = []"
    by (rule add_script [OF assms(1,2) l]) (simp add: ks)
  have sn: "snd ` set ?ps = msg_ID ` set ms" by (simp add: image_image)
  have sub: "set ids \<subseteq> msg_ID ` set ms - known_ids (now_ids c) q" using y unfolding sn by auto
  show ?thesis
    using assms(5)
  proof (cases rule: Script_Run_once)
    case (lost net e)
    then show ?thesis using assms(1) by (auto intro!: exI [of _ "{}"])
  next
    case (ran net r' y')
    then have e: "r' = r1" "y' = y" using r1(1) by simp_all
    have st: "now_inv c'" "rc_keyPrefix c' = rc_keyPrefix c" "now_ids c' = pool_add (now_ids c) q (set ids)"
      using ran(2) e r1(2,3) by simp_all
    show ?thesis
    proof (cases "cmd = Inr (RArr ids)")
      case True
      then have "y = Inr (RArr ids)" using ran(3) e by auto
      then have "set ids = msg_ID ` set ms - known_ids (now_ids c) q" using y sn by auto
      then show ?thesis using True st by simp
    next
      case False
      then have "\<exists>e. cmd = Inl e" using ran(3) e y by auto
      then show ?thesis using st sub by (auto intro!: exI [of _ "set ids"])
    qed
  qed
qed

lemma pool_add_add: "pool_add (pool_add v q I) q J = pool_add v q (I \<union> J)"
  by (auto simp: pool_add_def fun_eq_iff)

lemma known_ids_added: "known_ids (pool_add v q I) q = known_ids v q \<union> I"
  by (auto simp: known_ids_pools pool_add_def)

lemma insert_partitions_contract:
  assumes "now_inv c" "valid_queue q" "\<forall>p\<in>set parts. length p \<le> 2000"
    and "ks = [pool_key c PRIMARY_POOL q, pool_key c LOCK_NACK_POOL q, pool_key c LOCK_ACK_POOL q, pool_key c PROCESSING_POOL q]"
    and "insert_partitions R ks parts acc c = (c', x)"
  shows "now_inv c' \<and> (case x of
      Inr r \<Rightarrow> set r = set acc \<union> (msg_ID ` set (concat parts) - known_ids (now_ids c) q) \<and>
        now_ids c' = pool_add (now_ids c) q (msg_ID ` set (concat parts) - known_ids (now_ids c) q)
    | Inl e \<Rightarrow> \<exists>I\<subseteq>msg_ID ` set (concat parts) - known_ids (now_ids c) q. now_ids c' = pool_add (now_ids c) q I)"
  using assms
proof (induction parts arbitrary: acc c)
  case Nil
  then show ?case by auto
next
  case (Cons p parts)
  obtain c1 cmd where run: "Script_Run R ''add'' ks (addElementsScript R (hd ks) (tl ks) (map (\<lambda>m. (msg_Score m, msg_ID m)) p)) c = (c1, cmd)"
    by (meson surj_pair)
  have lp: "length p \<le> 2000" using Cons.prems(3) by simp
  note a = add_contract [OF Cons.prems(1,2) lp Cons.prems(4) run]
  let ?n = "\<lambda>S. msg_ID ` S - known_ids (now_ids c) q"
  have cc: "?n (set (concat (p # parts))) = ?n (set p) \<union> ?n (set (concat parts))" by auto
  show ?case
  proof (cases "parseResult cmd")
    case (Inl e)
    then obtain e' where x: "c' = c1" "x = Inl e'" using Cons.prems(5) run by auto
    obtain I where I: "I \<subseteq> ?n (set p)" "now_ids c1 = pool_add (now_ids c) q I" using a Inl by auto
    have "I \<subseteq> ?n (set (concat (p # parts)))" using I(1) unfolding cc by blast
    then show ?thesis unfolding x sum.case using a I(2) by blast
  next
    case (Inr r)
    have r: "set r = ?n (set p)" "now_ids c1 = pool_add (now_ids c) q (set r)" "now_inv c1" "rc_keyPrefix c1 = rc_keyPrefix c"
      using a Inr by auto
    have ks1: "ks = [pool_key c1 PRIMARY_POOL q, pool_key c1 LOCK_NACK_POOL q, pool_key c1 LOCK_ACK_POOL q, pool_key c1 PROCESSING_POOL q]"
      using Cons.prems(4) pool_key_prefix(1) [OF r(4)] by simp
    have ip: "insert_partitions R ks parts (acc @ r) c1 = (c', x)" using Cons.prems(5) run Inr by simp
    have lps: "\<forall>p\<in>set parts. length p \<le> 2000" using Cons.prems(3) by simp
    note ih = Cons.IH [OF r(3) Cons.prems(2) lps ks1 ip]
    have k: "known_ids (now_ids c1) q = known_ids (now_ids c) q \<union> ?n (set p)" unfolding r(2) known_ids_added r(1) ..
    have u: "?n (set p) \<union> (msg_ID ` set (concat parts) - known_ids (now_ids c1) q) = ?n (set (concat (p # parts)))"
      unfolding k cc by auto
    show ?thesis
    proof (cases x)
      case (Inl e)
      then obtain I where I: "I \<subseteq> msg_ID ` set (concat parts) - known_ids (now_ids c1) q" "now_ids c' = pool_add (now_ids c1) q I"
        using ih by auto
      have "now_ids c' = pool_add (now_ids c) q (?n (set p) \<union> I)" unfolding I(2) r(1,2) pool_add_add ..
      moreover have "?n (set p) \<union> I \<subseteq> ?n (set (concat (p # parts)))" using I(1) u by blast
      ultimately show ?thesis using ih Inl by (auto intro!: exI [of _ "?n (set p) \<union> I"])
    next
      case xr: (Inr r')
      have "set r' = set (acc @ r) \<union> (msg_ID ` set (concat parts) - known_ids (now_ids c1) q)"
        "now_ids c' = pool_add (now_ids c1) q (msg_ID ` set (concat parts) - known_ids (now_ids c1) q)" "now_inv c'"
        using ih xr by simp_all
      then have "set r' = set acc \<union> ?n (set (concat (p # parts)))" "now_ids c' = pool_add (now_ids c) q (?n (set (concat (p # parts))))"
        unfolding u [symmetric] r(2) pool_add_add by (auto simp: r(1))
      then show ?thesis using \<open>now_inv c'\<close> xr by simp
    qed
  qed
qed

lemma insert_contract:
  assumes "now_inv c" "RedisCache_Insert R c q ms = (c', x)"
  shows "now_inv c' \<and> (case x of
      Inr r \<Rightarrow> set r = msg_ID ` set ms - known_ids (now_ids c) q \<and> now_ids c' = pool_add (now_ids c) q (set r)
    | Inl e \<Rightarrow> \<exists>I\<subseteq>msg_ID ` set ms - known_ids (now_ids c) q. now_ids c' = pool_add (now_ids c) q I)"
proof (cases "valid_queue q \<and> \<not> list_ex (\<lambda>m. msg_Queue m \<noteq> q) ms")
  case True
  let ?ks = "[pool_key c PRIMARY_POOL q, pool_key c LOCK_NACK_POOL q, pool_key c LOCK_ACK_POOL q, pool_key c PROCESSING_POOL q]"
  let ?parts = "map (slice ms) (rd_Partition R (length ms) 2000)"
  have k: "[activePool c q, lockPool c q LOCK_NACK, lockPool c q LOCK_ACK, processingPool c q] = ?ks"
    by (simp add: pool_key_simps lock_pool_def)
  have v: "valid_queue q" using True by simp
  have ip: "insert_partitions R ?ks ?parts [] c = (c', x)"
    using assms(2) True unfolding RedisCache_Insert_def k by simp
  have l: "\<forall>p\<in>set ?parts. length p \<le> 2000" using gopart_slices(2) [OF partition, of 2000 _ ms] by simp
  have cc: "concat ?parts = ms" by (rule gopart_slices(1) [OF partition]) simp
  show ?thesis
    using insert_partitions_contract [OF assms(1) v l refl ip] unfolding cc by (cases x) simp_all
next
  case False
  then obtain e where "c' = c" "x = Inl e"
    using assms(2) by (auto simp: RedisCache_Insert_def split: option.splits)
  then show ?thesis using assms(1) by (auto intro!: exI [of _ "{}"])
qed

lemma pool_remove_remove: "pool_remove (pool_remove v q I) q J = pool_remove v q (I \<union> J)"
  by (auto simp: pool_remove_def fun_eq_iff)

lemma remove_partitions_contract:
  assumes "now_inv c" "valid_queue q" "\<forall>p\<in>set parts. p \<noteq> [] \<and> length p \<le> 4000"
    and "ks = [pool_key c PRIMARY_POOL q, pool_key c PROCESSING_POOL q, pool_key c LOCK_ACK_POOL q,
      pool_key c LOCK_NACK_POOL q, lockPoolScore c q LOCK_ACK, lockPoolScore c q LOCK_NACK]"
    and "remove_partitions R ks parts acc c = (c', n, x)"
  shows "now_inv c' \<and> (\<exists>I\<subseteq>set (concat parts). now_ids c' = pool_remove (now_ids c) q I \<and> (x = None \<longrightarrow> I = set (concat parts)))"
  using assms
proof (induction parts arbitrary: acc c)
  case Nil
  then show ?case by auto
next
  case (Cons p parts)
  have lp: "p \<noteq> []" "length p \<le> rd_unpack R" using Cons.prems(3) unpack by simp_all
  obtain c1 cmd where run: "Script_Run R ''remove'' ks (removeElementScript R ks p) c = (c1, cmd)" by (meson surj_pair)
  obtain r1 where r1: "removeElementScript R ks p (rc_Client c) = (r1, Inr (RInt (\<Sum>k\<leftarrow>ks. int (card (set p \<inter> members (rc_Client c) k)))))"
    "dinv c r1" "dids c r1 = pool_remove (now_ids c) q (set p)"
    by (rule remove_script [OF Cons.prems(1,2) lp Cons.prems(4)])
  let ?n = "\<Sum>k\<leftarrow>ks. int (card (set p \<inter> members (rc_Client c) k))"
  have one: "now_inv c1 \<and> rc_keyPrefix c1 = rc_keyPrefix c \<and> (now_ids c1 = pool_remove (now_ids c) q (set p) \<and> cmd = Inr (RInt ?n) \<or>
      (\<exists>e. cmd = Inl e) \<and> (\<exists>I\<subseteq>set p. now_ids c1 = pool_remove (now_ids c) q I))"
    using run
  proof (cases rule: Script_Run_once)
    case (lost net e)
    then show ?thesis using Cons.prems(1) by (auto intro!: exI [of _ "{}"])
  next
    case (ran net r' y)
    then show ?thesis using r1 by auto
  qed
  from one consider (ok) "now_ids c1 = pool_remove (now_ids c) q (set p)" "cmd = Inr (RInt ?n)"
    | (err) e I where "cmd = Inl e" "I \<subseteq> set p" "now_ids c1 = pool_remove (now_ids c) q I" by blast
  then show ?case
  proof cases
    case ok
    have rp: "remove_partitions R ks parts (acc + ?n) c1 = (c', n, x)" using Cons.prems(5) run ok(2) by (simp add: reply_int_def)
    have k1: "ks = [pool_key c1 PRIMARY_POOL q, pool_key c1 PROCESSING_POOL q, pool_key c1 LOCK_ACK_POOL q,
      pool_key c1 LOCK_NACK_POOL q, lockPoolScore c1 q LOCK_ACK, lockPoolScore c1 q LOCK_NACK]"
      using Cons.prems(4) pool_key_prefix [of c1 c] one by simp
    have l1: "\<forall>p\<in>set parts. p \<noteq> [] \<and> length p \<le> 4000" using Cons.prems(3) by simp
    obtain I where I: "I \<subseteq> set (concat parts)" "now_ids c' = pool_remove (now_ids c1) q I" "x = None \<longrightarrow> I = set (concat parts)"
      and "now_inv c'" using Cons.IH [OF _ Cons.prems(2) l1 k1 rp] one by blast
    then show ?thesis
      unfolding ok(1) pool_remove_remove by (intro conjI exI [of _ "set p \<union> I"]) auto
  next
    case (err e I)
    then have "c' = c1" "x \<noteq> None" using Cons.prems(5) run by auto
    moreover have "I \<subseteq> set (concat (p # parts))" using err(2) by auto
    ultimately show ?thesis using one err(3) by blast
  qed
qed

lemma remove_contract:
  assumes "now_inv c" "RedisCache_Remove R c q ids = (c', n, x)"
  shows "now_inv c' \<and> (\<exists>I\<subseteq>set ids. now_ids c' = pool_remove (now_ids c) q I \<and> (x = None \<longrightarrow> I = set ids))"
proof (cases "valid_queue q")
  case True
  let ?ks = "[pool_key c PRIMARY_POOL q, pool_key c PROCESSING_POOL q, pool_key c LOCK_ACK_POOL q,
      pool_key c LOCK_NACK_POOL q, lockPoolScore c q LOCK_ACK, lockPoolScore c q LOCK_NACK]"
  let ?parts = "map (slice ids) (rd_Partition R (length ids) 4000)"
  have k: "[activePool c q, processingPool c q, lockPool c q LOCK_ACK, lockPool c q LOCK_NACK,
      lockPoolScore c q LOCK_ACK, lockPoolScore c q LOCK_NACK] = ?ks"
    by (simp add: pool_key_simps lock_pool_def)
  have rp: "remove_partitions R ?ks ?parts 0 c = (c', n, x)"
    using assms(2) True unfolding RedisCache_Remove_def k by simp
  have l: "\<forall>p\<in>set ?parts. p \<noteq> [] \<and> length p \<le> 4000" using gopart_slices(2) [OF partition, of 4000 _ ids] by simp
  have cc: "concat ?parts = ids" by (rule gopart_slices(1) [OF partition]) simp
  show ?thesis using remove_partitions_contract [OF assms(1) True l refl rp] unfolding cc .
next
  case False
  then obtain e where "validateQueueName q = Some e" by auto
  then have "c' = c" "x = Some e" using assms(2) by (simp_all add: RedisCache_Remove_def)
  then show ?thesis using assms(1) by (auto intro!: exI [of _ "{}"])
qed

end

text \<open>The contract, for a connection that loses requests and answers but repeats nothing.\<close>

sublocale redis_once \<subseteq> rc: cache_contract "redis_cache R" "redis_ids zset" "redis_inv zset str" redis_amount
proof (unfold_locales, unfold redis_cache_def Cache.select_convs ids_dids inv_dinv, goal_cases)
  case 1
  then show ?case by (simp add: redis_amount_def)
next
  case 2
  then show ?case by (rule dinv_disjoint)
next
  case 3
  then show ?case using insert_contract [OF 3] by simp
next
  case 4
  then show ?case using insert_contract [OF 4] by auto
next
  case 5
  then show ?case using pull_contract [OF 5] by simp
next
  case 6
  then show ?case using pull_contract [OF 6(1,2,4)] by simp
next
  case 7
  then show ?case using pull_contract [OF 7] by auto
next
  case 8
  then show ?case using make_available_contract [OF 8] by simp
next
  case 9
  then show ?case using make_available_contract [OF 9] by auto
next
  case 10
  then show ?case using lock_contract [OF 10] by simp
next
  case 11
  then show ?case using lock_contract [OF 11] by auto
next
  case (12 c now q t c' r)
  then show ?case
    using unlock_contract [OF 12]
    by (auto simp: pool_move_moves intro!: exI [of _ "\<lambda>q'. if q' = q then set r else {}"] split: if_splits)
next
  case (13 c now q t c' e)
  then obtain I where "I \<subseteq> now_ids c (lock_pool t) q" "now_ids c' = pool_move (now_ids c) (lock_pool t) PRIMARY_POOL q I" "now_inv c'"
    using unlock_contract [OF 13] by auto
  then show ?case by (auto simp: pool_move_moves intro!: exI [of _ "\<lambda>q'. if q' = q then I else {}"] split: if_splits)
next
  case 14
  then show ?case using timeout_contract [OF 14] by simp
next
  case 15
  then show ?case using timeout_contract [OF 15] by auto
next
  case 16
  then show ?case using remove_contract [OF 16] by auto
next
  case 17
  then show ?case using remove_contract [OF 17] by auto
next
  case 18
  then show ?case using set_contract(1) [OF 18] by simp
next
  case 19
  then show ?case using set_contract(2) [OF 19(1) refl 19(2)] by simp
qed

end
