(* ===== verification/Redis_Faults.thy ===== *)
theory Redis_Faults
  imports Redis_Contract
begin

text \<open>
  The invariant of the Redis cache under every behaviour of the connection: commands may be lost, executed
  without an answer, or repeated by the client. Each execution of a script keeps the invariant, so any number
  of them does.
\<close>

context redis
begin

lemma dinv_prefix:
  assumes "rc_keyPrefix c' = rc_keyPrefix c"
  shows "dids c' = dids c" "dinv c' = dinv c"
proof -
  show d: "dids c' = dids c" by (simp add: fun_eq_iff dids_def pool_key_prefix(1) [OF assms])
  show "dinv c' = dinv c" by (simp add: fun_eq_iff dinv_def d pool_key_prefix [OF assms])
qed

lemma scripts_keep:
  assumes "dinv c r" "valid_queue q"
  shows "dinv c (fst (moveElementScript R (pool_key c PRIMARY_POOL q) (pool_key c PROCESSING_POOL q) s i r))"
    "until \<noteq> NaN \<Longrightarrow>
      dinv c (fst (lockElementScript R (pool_key c PROCESSING_POOL q) (pool_key c (lock_pool t) q) (lockPoolScore c q t) until i s r))"
    "d \<noteq> NaN \<Longrightarrow> ts \<noteq> NaN \<Longrightarrow>
      dinv c (fst (unlockElementsScript R (pool_key c (lock_pool t) q) (pool_key c PRIMARY_POOL q) (lockPoolScore c q t) 1000 ts d r))"
    "s \<noteq> NaN \<Longrightarrow> ts \<noteq> NaN \<Longrightarrow>
      dinv c (fst (moveFilteredElementsScript R (pool_key c PRIMARY_POOL q) (pool_key c PROCESSING_POOL q) ts s 1000 r))"
    "length ps \<le> 2000 \<Longrightarrow> dinv c (fst (addElementsScript R (pool_key c PRIMARY_POOL q)
      [pool_key c LOCK_NACK_POOL q, pool_key c LOCK_ACK_POOL q, pool_key c PROCESSING_POOL q] ps r))"
    "ids \<noteq> [] \<Longrightarrow> length ids \<le> 4000 \<Longrightarrow> dinv c (fst (removeElementScript R
      [pool_key c PRIMARY_POOL q, pool_key c PROCESSING_POOL q, pool_key c LOCK_ACK_POOL q,
       pool_key c LOCK_NACK_POOL q, lockPoolScore c q LOCK_ACK, lockPoolScore c q LOCK_NACK] ids r))"
proof -
  have n: "(1000 :: int) \<le> int (rd_unpack R)" "2 * (1000 :: int) \<le> int (rd_unpack R)" using unpack by simp_all
  show "dinv c (fst (moveElementScript R (pool_key c PRIMARY_POOL q) (pool_key c PROCESSING_POOL q) s i r))"
    by (rule move_script [OF assms, of s i]) simp
  show "dinv c (fst (lockElementScript R (pool_key c PROCESSING_POOL q) (pool_key c (lock_pool t) q) (lockPoolScore c q t) until i s r))"
    if "until \<noteq> NaN" by (rule lock_script [OF assms that, of t i s]) simp
  show "dinv c (fst (unlockElementsScript R (pool_key c (lock_pool t) q) (pool_key c PRIMARY_POOL q) (lockPoolScore c q t) 1000 ts d r))"
    if "d \<noteq> NaN" "ts \<noteq> NaN" by (rule unlock_script [OF assms that _ n(2), of t]) simp_all
  show "dinv c (fst (moveFilteredElementsScript R (pool_key c PRIMARY_POOL q) (pool_key c PROCESSING_POOL q) ts s 1000 r))"
    if "s \<noteq> NaN" "ts \<noteq> NaN" by (rule timeout_script [OF assms that _ n(1)]) simp_all
  show "dinv c (fst (addElementsScript R (pool_key c PRIMARY_POOL q)
      [pool_key c LOCK_NACK_POOL q, pool_key c LOCK_ACK_POOL q, pool_key c PROCESSING_POOL q] ps r))" if "length ps \<le> 2000"
  proof -
    have l: "2 * length ps \<le> rd_unpack R" using that unpack by simp
    show ?thesis by (rule add_script [OF assms l]) (simp only: fst_conv)
  qed
  show "dinv c (fst (removeElementScript R
      [pool_key c PRIMARY_POOL q, pool_key c PROCESSING_POOL q, pool_key c LOCK_ACK_POOL q,
       pool_key c LOCK_NACK_POOL q, lockPoolScore c q LOCK_ACK, lockPoolScore c q LOCK_NACK] ids r))"
    if "ids \<noteq> []" "length ids \<le> 4000"
  proof -
    have l: "length ids \<le> rd_unpack R" using that(2) unpack by simp
    show ?thesis by (rule remove_script [OF assms that(1) l refl]) (simp only: fst_conv)
  qed
qed

lemma pull_keeps:
  assumes "dinv c r" "valid_queue q" "redis_amount n" "s \<noteq> NaN"
  shows "dinv c (fst (pullElementsScript R (pool_key c PRIMARY_POOL q) (pool_key c PROCESSING_POOL q) n s lo hi r))"
proof (cases "lo = Some NaN \<or> hi = Some NaN")
  case True
  then show ?thesis
    using ZRANGEBYSCORE_NaN [of "case lo of None \<Rightarrow> NInf | Some s \<Rightarrow> s" "case hi of None \<Rightarrow> PInf | Some s \<Rightarrow> s"
        r "pool_key c PRIMARY_POOL q" n] assms(1) by (auto simp: pullElementsScript_def)
next
  case False
  have n: "0 < n" "n \<le> int (rd_unpack R)" "n < 10 ^ 14" using unpack assms(3) by (simp_all add: redis_amount_def)
  show ?thesis by (rule pull_script [OF assms(1,2,4) n _ _ refl, of lo hi]) (use False in simp_all)
qed

text \<open>A call of a script by the client: the cache keeps the invariant and its prefix.\<close>

definition kept :: "('r, 'n) RedisCache \<Rightarrow> ('r, 'n) RedisCache \<Rightarrow> bool" where
  "kept c c' \<longleftrightarrow> rc_keyPrefix c' = rc_keyPrefix c \<and> (dinv c (rc_Client c) \<longrightarrow> dinv c' (rc_Client c'))"

lemma kept_refl [simp]: "kept c c"
  by (simp add: kept_def)

lemma kept_trans: "kept c c1 \<Longrightarrow> kept c1 c2 \<Longrightarrow> kept c c2"
  by (simp add: kept_def)

lemma run_kept:
  assumes "Script_Run R name ks s c = (c', x)" "\<And>r. dinv c r \<Longrightarrow> dinv c (fst (s r))"
  shows "kept c c'"
proof -
  have p: "rc_keyPrefix c' = rc_keyPrefix c" by (rule Script_Run_keeps(2) [OF assms(1), where P = "\<lambda>r. True"]) simp_all
  have "dinv c (rc_Client c')" if "dinv c (rc_Client c)"
    by (rule Script_Run_keeps(1) [OF assms(1), where P = "dinv c", OF that assms(2)])
  then show ?thesis using p dinv_prefix(2) [OF p] by (simp add: kept_def)
qed

lemma run_kept_fst: "(\<And>r. dinv c r \<Longrightarrow> dinv c (fst (s r))) \<Longrightarrow> kept c (fst (Script_Run R name ks s c))"
  by (rule run_kept [OF prod.collapse [symmetric]])

section \<open>The methods\<close>

lemma insert_partitions_kept:
  assumes "valid_queue q" "\<forall>p\<in>set parts. length p \<le> 2000"
    and "ks = [pool_key c PRIMARY_POOL q, pool_key c LOCK_NACK_POOL q, pool_key c LOCK_ACK_POOL q, pool_key c PROCESSING_POOL q]"
  shows "kept c (fst (insert_partitions R ks parts acc c))"
  using assms(2,3)
proof (induction parts arbitrary: acc c)
  case (Cons p parts)
  obtain c1 cmd where run: "Script_Run R ''add'' ks (addElementsScript R (hd ks) (tl ks) (map (\<lambda>m. (msg_Score m, msg_ID m)) p)) c = (c1, cmd)"
    by (meson surj_pair)
  have k: "kept c c1"
    by (rule run_kept [OF run]) (use Cons.prems scripts_keep(5) [OF _ assms(1)] in simp)
  then have ks1: "ks = [pool_key c1 PRIMARY_POOL q, pool_key c1 LOCK_NACK_POOL q, pool_key c1 LOCK_ACK_POOL q, pool_key c1 PROCESSING_POOL q]"
    using Cons.prems(2) pool_key_prefix(1) [of c1 c] by (simp add: kept_def)
  have "kept c1 (fst (insert_partitions R ks parts acc' c1))" for acc' using Cons.IH [OF _ ks1] Cons.prems(1) by simp
  then show ?case using k kept_trans [OF k] run by (auto split: sum.splits)
qed simp

lemma remove_partitions_kept:
  assumes "valid_queue q" "\<forall>p\<in>set parts. p \<noteq> [] \<and> length p \<le> 4000"
    and "ks = [pool_key c PRIMARY_POOL q, pool_key c PROCESSING_POOL q, pool_key c LOCK_ACK_POOL q,
      pool_key c LOCK_NACK_POOL q, lockPoolScore c q LOCK_ACK, lockPoolScore c q LOCK_NACK]"
  shows "kept c (fst (remove_partitions R ks parts acc c))"
  using assms(2,3)
proof (induction parts arbitrary: acc c)
  case (Cons p parts)
  obtain c1 cmd where run: "Script_Run R ''remove'' ks (removeElementScript R ks p) c = (c1, cmd)" by (meson surj_pair)
  have k: "kept c c1"
    by (rule run_kept [OF run]) (use Cons.prems scripts_keep(6) [OF _ assms(1)] in simp)
  then have ks1: "ks = [pool_key c1 PRIMARY_POOL q, pool_key c1 PROCESSING_POOL q, pool_key c1 LOCK_ACK_POOL q,
      pool_key c1 LOCK_NACK_POOL q, lockPoolScore c1 q LOCK_ACK, lockPoolScore c1 q LOCK_NACK]"
    using Cons.prems(2) pool_key_prefix [of c1 c] by (simp add: kept_def)
  have "kept c1 (fst (remove_partitions R ks parts acc' c1))" for acc' using Cons.IH [OF _ ks1] Cons.prems(1) by simp
  then show ?case using k kept_trans [OF k] run by (auto split: sum.splits)
qed simp

lemma Insert_kept: "kept c (fst (RedisCache_Insert R c q ms))"
proof (cases "valid_queue q \<and> \<not> list_ex (\<lambda>m. msg_Queue m \<noteq> q) ms")
  case True
  have l: "\<forall>p\<in>set (map (slice ms) (rd_Partition R (length ms) 2000)). length p \<le> 2000"
    using gopart_slices(2) [OF partition, of 2000 _ ms] by simp
  have v: "valid_queue q" using True by simp
  have "RedisCache_Insert R c q ms = insert_partitions R [pool_key c PRIMARY_POOL q, pool_key c LOCK_NACK_POOL q,
      pool_key c LOCK_ACK_POOL q, pool_key c PROCESSING_POOL q] (map (slice ms) (rd_Partition R (length ms) 2000)) [] c"
    using True by (simp add: RedisCache_Insert_def pool_key_simps lock_pool_def)
  then show ?thesis using insert_partitions_kept [OF v l refl] by simp
qed (auto simp: RedisCache_Insert_def split: option.splits)

lemma Remove_kept: "kept c (fst (RedisCache_Remove R c q ids))"
proof (cases "valid_queue q")
  case True
  have l: "\<forall>p\<in>set (map (slice ids) (rd_Partition R (length ids) 4000)). p \<noteq> [] \<and> length p \<le> 4000"
    using gopart_slices(2) [OF partition, of 4000 _ ids] by simp
  have "RedisCache_Remove R c q ids = remove_partitions R [pool_key c PRIMARY_POOL q, pool_key c PROCESSING_POOL q,
      pool_key c LOCK_ACK_POOL q, pool_key c LOCK_NACK_POOL q, lockPoolScore c q LOCK_ACK, lockPoolScore c q LOCK_NACK]
      (map (slice ids) (rd_Partition R (length ids) 4000)) 0 c"
    using True by (simp add: RedisCache_Remove_def pool_key_simps lock_pool_def)
  then show ?thesis using remove_partitions_kept [OF True l refl] by simp
qed (auto simp: RedisCache_Remove_def split: option.splits)

lemma Set_kept: "kept c (fst (RedisCache_Set R c k v))"
proof -
  let ?k = "generalCacheKey c k"
  have "dinv c (fst (rd_SET R r ?k v))" if i: "dinv c r" for r
  proof -
    obtain r1 where r1: "rd_SET R r ?k v = (r1, Inr ())" "zset r1 = (zset r)(?k := [])" "str r1 = (str r)(?k \<mapsto> v)"
      using SET by blast
    have k: "members r1 (pool_key c p q) = members r (pool_key c p q)"
      "members r1 (lockPoolScore c q t) = members r (lockPoolScore c q t)"
      "str r1 (pool_key c p q) = str r (pool_key c p q)" "str r1 (lockPoolScore c q t) = str r (lockPoolScore c q t)" for p q t
      unfolding members_def r1(2,3) by (simp_all add: key_not_general)
    have "dids c r1 = dids c r" by (simp add: dids_def fun_eq_iff k)
    then show ?thesis using i r1(1) by (simp add: dinv_def k)
  qed
  then have "kept c (fst (Script_Run R ''SET'' [?k] (\<lambda>r. rd_SET R r ?k v) c))" by (rule run_kept_fst)
  then show ?thesis by (simp add: RedisCache_Set_def Let_def case_prod_unfold)
qed

lemma MakeAvailable_kept: "kept c (fst (RedisCache_MakeAvailable R c m))"
proof (cases "msg_Queue m = [] \<or> \<not> valid_queue (msg_Queue m)")
  case False
  then have v: "valid_queue (msg_Queue m)" by simp
  obtain c' cmd where run: "Script_Run R ''move'' [pool_key c PRIMARY_POOL (msg_Queue m), pool_key c PROCESSING_POOL (msg_Queue m)]
    (moveElementScript R (pool_key c PRIMARY_POOL (msg_Queue m)) (pool_key c PROCESSING_POOL (msg_Queue m)) (msg_Score m) (msg_ID m)) c = (c', cmd)"
    by (meson surj_pair)
  have "fst (RedisCache_MakeAvailable R c m) = c'"
    using False run by (simp add: RedisCache_MakeAvailable_def pool_key_simps)
  moreover have "kept c c'" by (rule run_kept [OF run]) (rule scripts_keep(1) [OF _ v])
  ultimately show ?thesis by simp
qed (auto simp: RedisCache_MakeAvailable_def split: option.splits)

lemma LockMessage_kept: "kept c (fst (RedisCache_LockMessage R now c m t))"
proof (cases "msg_Queue m = [] \<or> \<not> valid_queue (msg_Queue m) \<or> msg_LockMs m \<le> 0")
  case False
  let ?p = "pool_key c PROCESSING_POOL (msg_Queue m)" and ?l = "pool_key c (lock_pool t) (msg_Queue m)"
    and ?s = "lockPoolScore c (msg_Queue m) t"
  have v: "valid_queue (msg_Queue m)" using False by simp
  obtain c' cmd where run: "Script_Run R ''lock'' [?p, ?l, ?s]
    (lockElementScript R ?p ?l ?s (float_of_int (wrap64 (NowMs now + msg_LockMs m))) (msg_ID m) (msg_Score m)) c = (c', cmd)"
    by (meson surj_pair)
  have "fst (RedisCache_LockMessage R now c m t) = c'"
    using False run by (simp add: RedisCache_LockMessage_def pool_key_simps numeral_2_eq_2)
  moreover have "kept c c'" by (rule run_kept [OF run]) (rule scripts_keep(2) [OF _ v float_of_int_not_NaN])
  ultimately show ?thesis by simp
qed (auto simp: RedisCache_LockMessage_def split: option.splits)

lemma UnlockMessages_kept: "kept c (fst (RedisCache_UnlockMessages R now c q t))"
proof (cases "valid_queue q")
  case True
  let ?l = "pool_key c (lock_pool t) q" and ?a = "pool_key c PRIMARY_POOL q" and ?s = "lockPoolScore c q t"
    and ?d = "if t = LOCK_ACK then GetScoreByDefaultAlgorithm now else score_Min"
  have d: "?d \<noteq> NaN" by (simp add: GetScoreByDefaultAlgorithm_def score_Min_def)
  obtain c' cmd where run: "Script_Run R ''unlock_elements'' [?l, ?a, ?s]
    (unlockElementsScript R ?l ?a ?s 1000 (float_of_int (NowMs now)) ?d) c = (c', cmd)"
    by (meson surj_pair)
  have "fst (RedisCache_UnlockMessages R now c q t) = c'"
    using True run by (simp add: RedisCache_UnlockMessages_def pool_key_simps numeral_2_eq_2)
  moreover have "kept c c'" by (rule run_kept [OF run]) (rule scripts_keep(3) [OF _ True d float_of_int_not_NaN])
  ultimately show ?thesis by simp
qed (auto simp: RedisCache_UnlockMessages_def split: option.splits)

lemma TimeoutMessages_kept: "kept c (fst (RedisCache_TimeoutMessages R now c q))"
proof (cases "valid_queue q")
  case True
  let ?a = "pool_key c PRIMARY_POOL q" and ?p = "pool_key c PROCESSING_POOL q"
  have d: "score_Min \<noteq> NaN" by (simp add: score_Min_def)
  obtain c' cmd where run: "Script_Run R ''move_primary_pool'' [?a, ?p]
    (moveFilteredElementsScript R ?a ?p (float_of_int (TimeToMs now)) score_Min 1000) c = (c', cmd)"
    by (meson surj_pair)
  have "fst (RedisCache_TimeoutMessages R now c q) = c'"
    using True run by (simp add: RedisCache_TimeoutMessages_def pool_key_simps)
  moreover have "kept c c'" by (rule run_kept [OF run]) (rule scripts_keep(4) [OF _ True d float_of_int_not_NaN])
  ultimately show ?thesis by simp
qed (auto simp: RedisCache_TimeoutMessages_def split: option.splits)

lemma PullMessages_kept:
  assumes "redis_amount n"
  shows "kept c (fst (RedisCache_PullMessages R now c q n lo hi ack))"
proof (cases "valid_queue q")
  case True
  let ?a = "pool_key c PRIMARY_POOL q" and ?p = "pool_key c PROCESSING_POOL q"
  obtain c' cmd where run: "Script_Run R ''pull'' [?a, ?p] (pullElementsScript R ?a ?p n
      (float_of_int (wrap64 (TimeToMs now + (if ack = 0 then DefaultTimeoutMs else ack)))) lo hi) c = (c', cmd)"
    by (meson surj_pair)
  have "fst (RedisCache_PullMessages R now c q n lo hi ack) = c'"
    using True run by (simp add: RedisCache_PullMessages_def pool_key_simps)
  moreover have "kept c c'" by (rule run_kept [OF run]) (rule pull_keeps [OF _ True assms float_of_int_not_NaN])
  ultimately show ?thesis by simp
qed (auto simp: RedisCache_PullMessages_def split: option.splits)

lemma exec_kept:
  assumes "op \<noteq> OpFlush" "op_amount redis_amount op"
  shows "kept c (cache_exec (redis_cache R) op c)"
  using assms
  by (cases op) (simp_all add: redis_cache_def Insert_kept Remove_kept Set_kept MakeAvailable_kept LockMessage_kept
      UnlockMessages_kept TimeoutMessages_kept PullMessages_kept)

lemma run_unique:
  assumes "dinv c (rc_Client c)" "OpFlush \<notin> set ops" "list_all (op_amount redis_amount) ops"
  shows "redis_inv zset str (fold (cache_exec (redis_cache R)) ops c)"
proof -
  have "kept c (fold (cache_exec (redis_cache R)) ops c)"
    using assms(2,3)
  proof (induction ops arbitrary: c)
    case (Cons op ops)
    then have "kept c (cache_exec (redis_cache R) op c)" by (intro exec_kept) auto
    moreover have "kept (cache_exec (redis_cache R) op c) (fold (cache_exec (redis_cache R)) ops (cache_exec (redis_cache R) op c))"
      using Cons by simp
    ultimately show ?case using kept_trans by simp
  qed simp
  then show ?thesis using assms(1) by (simp add: kept_def inv_dinv)
qed

end

end
