(* ===== verification/Redis_Model.thy ===== *)
theory Redis_Model
  imports Redis_Client
begin

text \<open>
  A small executable Redis server that keeps the promises of \<open>redis\<close>: a list of keys and values, one node, and
  a connection whose next outcomes are a list. The witnesses of the properties about the Redis cache run on it.
\<close>

datatype redis_value = VString string | VZset zset

type_synonym redis_db = "(string \<times> redis_value) list"

type_synonym redis_net = "(nat \<times> go_error option) list"

definition zgood :: "zset \<Rightarrow> bool" where
  "zgood z \<longleftrightarrow> distinct (map fst z) \<and> sorted_wrt zless z \<and> list_all (\<lambda>x. snd x \<noteq> NaN) z"

definition srv_zset :: "redis_db \<Rightarrow> string \<Rightarrow> zset" where
  "srv_zset r k = (case map_of r k of Some (VZset z) \<Rightarrow> if zgood z then z else [] | _ \<Rightarrow> [])"

definition srv_str :: "redis_db \<Rightarrow> string \<Rightarrow> string option" where
  "srv_str r k = (case map_of r k of Some (VString s) \<Rightarrow> Some s | _ \<Rightarrow> None)"

definition wrong_type :: go_error where
  "wrong_type = Err ''WRONGTYPE Operation against a key holding the wrong kind of value''"

definition zput :: "(float64 \<times> string) list \<Rightarrow> zset \<Rightarrow> zset" where
  "zput ps z = stable_sort zless (fold (\<lambda>(s, i) z. AList.update i s z) ps z)"

definition srv_ZADD :: "redis_db \<Rightarrow> string \<Rightarrow> (float64 \<times> string) list \<Rightarrow> redis_db \<times> int64 result" where
  "srv_ZADD r k ps =
     (if list_ex (\<lambda>(s, i). s = NaN) ps then (r, Inl (Err ''ERR value is not a valid float''))
      else if srv_str r k \<noteq> None then (r, Inl wrong_type)
      else (AList.update k (VZset (zput ps (srv_zset r k))) r,
            Inr (int (length (filter (\<lambda>i. i \<notin> fst ` set (srv_zset r k)) (remdups (map snd ps)))))))"

definition srv_ZREM :: "redis_db \<Rightarrow> string \<Rightarrow> string list \<Rightarrow> redis_db \<times> int64 result" where
  "srv_ZREM r k ids =
     (if srv_str r k \<noteq> None then (r, Inl wrong_type)
      else (AList.update k (VZset (filter (\<lambda>(i, s). i \<notin> set ids) (srv_zset r k))) r,
            Inr (int (length (filter (\<lambda>i. i \<in> fst ` set (srv_zset r k)) (remdups ids))))))"

definition srv_read :: "redis_db \<Rightarrow> string \<Rightarrow> (zset \<Rightarrow> 'a) \<Rightarrow> 'a result" where
  "srv_read r k f = (if srv_str r k \<noteq> None then Inl wrong_type else Inr (f (srv_zset r k)))"

fun srv_glob :: "string \<Rightarrow> string \<Rightarrow> bool" where
  "srv_glob [] k = (k = [])"
| "srv_glob (p # ps) [] = (p = CHR ''*'' \<and> srv_glob ps [])"
| "srv_glob (p # ps) (ch # k) =
     (if p = CHR ''*'' then srv_glob ps (ch # k) \<or> srv_glob (p # ps) k else p = ch \<and> srv_glob ps k)"

definition srv_Partition :: "nat \<Rightarrow> nat \<Rightarrow> (nat \<times> nat) list" where
  "srv_Partition len n = map (\<lambda>k. (k * n, min len (Suc k * n))) [0..<(len + n - 1) div n]"

text \<open>A connection whose first outcomes are a list, and one that loses nothing.\<close>

definition faulty_link :: "redis_net \<Rightarrow> string \<Rightarrow> string list \<Rightarrow> redis_net \<times> nat \<times> go_error option" where
  "faulty_link net name ks = (case net of [] \<Rightarrow> ([], 0, None) | (lost, e) # net' \<Rightarrow> (net', lost, e))"

definition sure_link :: "unit \<Rightarrow> string \<Rightarrow> string list \<Rightarrow> unit \<times> nat \<times> go_error option" where
  "sure_link net name ks = (net, 0, None)"

definition redis_model ::
    "('n \<Rightarrow> string \<Rightarrow> string list \<Rightarrow> 'n \<times> nat \<times> go_error option) \<Rightarrow> (redis_db, 'n) Redis" where
  "redis_model link =
     \<lparr>rd_ZADD = srv_ZADD, rd_ZREM = srv_ZREM,
      rd_ZSCORE = (\<lambda>r k i. srv_read r k (\<lambda>z. map_of z i)),
      rd_ZRANGE = (\<lambda>r k a b. srv_read r k (\<lambda>z. map fst (index_range a b z))),
      rd_ZRANGEBYSCORE = (\<lambda>r k lo hi n. if lo = NaN \<or> hi = NaN then Inl (Err ''ERR min or max is not a float'')
                                        else srv_read r k (\<lambda>z. map fst (limit n (score_range lo hi z)))),
      rd_ZREVRANGEBYSCORE = (\<lambda>r k hi lo n. srv_read r k (\<lambda>z. map fst (limit n (rev (score_range lo hi z))))),
      rd_GET = (\<lambda>r k. if srv_zset r k \<noteq> [] then Inl wrong_type else Inr (srv_str r k)),
      rd_SET = (\<lambda>r k v. (AList.update k (VString v) r, Inr ())),
      rd_SCAN = (\<lambda>r node c pat n. Inr (filter (srv_glob pat) (filter (\<lambda>k. srv_zset r k \<noteq> [] \<or> srv_str r k \<noteq> None)
                                                            (map fst r)), 0)),
      rd_DEL = (\<lambda>r node ks. (filter (\<lambda>(k, v). k \<notin> set ks) r, Inr (int (length ks)))),
      rd_masters = (\<lambda>r. [0]), rd_unpack = 7997,
      rd_link = link,
      rd_Partition = srv_Partition\<rparr>"

section \<open>It keeps the promises\<close>

lemma float_less_irrefl [simp]: "\<not> x < (x :: float64)"
  by (cases x) auto

lemma float_less_asym: "x < y \<Longrightarrow> \<not> y < (x :: float64)"
  by (cases x; cases y) auto

lemma float_less_trans: "x < y \<Longrightarrow> y < z \<Longrightarrow> x < (z :: float64)"
  by (cases x; cases y; cases z) auto

lemma float_linear: "x \<noteq> NaN \<Longrightarrow> y \<noteq> NaN \<Longrightarrow> x < y \<or> x = y \<or> y < (x :: float64)"
  by (cases x; cases y) auto

lemma zless_asym: "zless x y \<Longrightarrow> \<not> zless y x"
  by (cases x; cases y) (auto dest: lexordp_antisym float_less_asym)

lemma zless_trans: "zless x y \<Longrightarrow> zless y z \<Longrightarrow> zless x z"
  by (cases x; cases y; cases z) (auto dest: lexordp_trans float_less_trans)

lemma zless_linear: "snd x \<noteq> NaN \<Longrightarrow> snd y \<noteq> NaN \<Longrightarrow> zless x y \<or> x = y \<or> zless y x"
  using float_linear [of "snd x" "snd y"] lexordp_linear [of "bytes (fst x)" "bytes (fst y)"]
  by (cases x; cases y) auto

lemma weak_order_zless:
  assumes "\<forall>x\<in>A. snd x \<noteq> NaN"
  shows "weak_order zless A"
proof -
  have "\<not> zless x z" if "x \<in> A" "y \<in> A" "z \<in> A" "\<not> zless x y" "\<not> zless y z" for x y z
    using that assms zless_linear [of x y] zless_linear [of y z] zless_trans [of z y x] zless_asym by blast
  then show ?thesis unfolding weak_order_def using zless_asym by blast
qed

lemma zgood_sort:
  assumes "distinct (map fst z)" "\<forall>x\<in>set z. snd x \<noteq> NaN"
  shows "zgood (stable_sort zless z)" "map_of (stable_sort zless z) = map_of z"
proof -
  let ?s = "stable_sort zless z"
  have m: "mset ?s = mset z" by simp
  have "mset (map fst ?s) = mset (map fst z)" unfolding mset_map m ..
  then have d: "distinct (map fst ?s)" using assms(1) mset_eq_imp_distinct_iff by blast
  have "sorted_wrt (\<lambda>a b. \<not> zless b a) ?s" by (rule stable_sort_sorted) (rule weak_order_zless [OF assms(2)])
  then have n: "\<not> zless (?s ! j) (?s ! i)" if "i < j" "j < length ?s" for i j
    using sorted_wrt_nth_less that by blast
  have ds: "distinct ?s" using d by (simp add: distinct_map)
  have "zless (?s ! i) (?s ! j)" if ij: "i < j" "j < length ?s" for i j
  proof -
    have "?s ! i \<in> set z" "?s ! j \<in> set z" using ij nth_mem [of i ?s] nth_mem [of j ?s] by simp_all
    then have "snd (?s ! i) \<noteq> NaN" "snd (?s ! j) \<noteq> NaN" using assms(2) by blast+
    moreover have "?s ! i \<noteq> ?s ! j" using ij ds nth_eq_iff_index_eq [OF ds, of i j] by simp
    ultimately show ?thesis using zless_linear n [OF ij] by blast
  qed
  then have "sorted_wrt zless ?s" unfolding sorted_wrt_iff_nth_less by blast
  then show "zgood ?s" using d assms(2) by (auto simp: zgood_def list_all_iff)
  show "map_of ?s = map_of z" using d assms(1) by (intro map_of_inject_set [THEN iffD2]) simp_all
qed

lemma srv_zset_good: "zgood (srv_zset r k)"
  by (simp add: srv_zset_def zgood_def split: option.splits redis_value.splits)

lemma zput_good:
  assumes "zgood z" "NaN \<notin> fst ` set ps"
  shows "zgood (zput ps z)" "map_of (zput ps z) = zupdate ps (map_of z)"
proof -
  let ?u = "\<lambda>ps z. fold (\<lambda>(s, i) z. AList.update i s z) ps z"
  have "distinct (map fst (?u ps z)) \<and> (\<forall>x\<in>set (?u ps z). snd x \<noteq> NaN) \<and> map_of (?u ps z) = zupdate ps (map_of z)"
    if "distinct (map fst z)" "\<forall>x\<in>set z. snd x \<noteq> NaN"
    using that assms(2)
  proof (induction ps arbitrary: z)
    case (Cons p ps)
    obtain s i where p: "p = (s, i)" by (cases p)
    have d: "distinct (map fst (AList.update i s z))" using Cons.prems(1) by (rule distinct_update)
    have "\<forall>x\<in>set (AList.update i s z). snd x \<noteq> NaN"
    proof
      fix x assume "x \<in> set (AList.update i s z)"
      then have "map_of (AList.update i s z) (fst x) = Some (snd x)"
        using map_of_is_SomeI [OF d, of "fst x" "snd x"] by simp
      then have "fst x = i \<and> snd x = s \<or> (fst x, snd x) \<in> set z" by (auto split: if_splits dest: map_of_SomeD)
      then show "snd x \<noteq> NaN" using Cons.prems(2,3) p by auto
    qed
    moreover have "NaN \<notin> fst ` set ps" using Cons.prems(3) by simp
    ultimately show ?case using Cons.IH [OF d] by (simp add: p zupdate_def fun_upd_def)
  qed (simp add: zupdate_def)
  then have u: "distinct (map fst (?u ps z))" "\<forall>x\<in>set (?u ps z). snd x \<noteq> NaN" "map_of (?u ps z) = zupdate ps (map_of z)"
    using assms(1) by (auto simp: zgood_def list_all_iff)
  show "zgood (zput ps z)" "map_of (zput ps z) = zupdate ps (map_of z)"
    using zgood_sort [OF u(1,2)] u(3) by (simp_all add: zput_def)
qed

lemma zgood_filter: "zgood z \<Longrightarrow> zgood (filter P z)"
  by (auto simp: zgood_def list_all_iff distinct_map_filter sorted_wrt_filter)

lemma srv_update:
  "srv_zset (AList.update k (VZset z) r) = (srv_zset r)(k := if zgood z then z else [])"
  "srv_str (AList.update k (VZset z) r) = (srv_str r)(k := None)"
  "srv_zset (AList.update k (VString v) r) = (srv_zset r)(k := [])"
  "srv_str (AList.update k (VString v) r) = (srv_str r)(k \<mapsto> v)"
  by (simp_all add: fun_eq_iff srv_zset_def srv_str_def)

lemma srv_update_str: "srv_str r k = None \<Longrightarrow> (srv_str r)(k := None) = srv_str r"
  by (simp add: fun_eq_iff)

lemma card_filter_remdups:
  "length (filter (\<lambda>i. i \<in> A) (remdups xs)) = card (set xs \<inter> A)"
  "length (filter (\<lambda>i. i \<notin> A) (remdups xs)) = card (set xs - A)"
  by (simp_all add: distinct_card [symmetric] Int_def set_diff_eq)

lemma srv_ZADD_ok:
  assumes "srv_str r k = None" "NaN \<notin> fst ` set ps"
  shows "\<exists>r'. srv_ZADD r k ps = (r', Inr (int (card (snd ` set ps - zmembers (srv_zset r k))))) \<and>
    map_of (srv_zset r' k) = zupdate ps (map_of (srv_zset r k)) \<and> (\<forall>k'. k' \<noteq> k \<longrightarrow> srv_zset r' k' = srv_zset r k') \<and>
    srv_str r' = srv_str r"
proof -
  have n: "\<not> list_ex (\<lambda>(s, i). s = NaN) ps" using assms(2) by (force simp: list_ex_iff)
  note g = zput_good [OF srv_zset_good assms(2), of r k]
  show ?thesis
    using assms(1) n g card_filter_remdups(2) [of "fst ` set (srv_zset r k)" "map snd ps"]
    by (simp add: srv_ZADD_def srv_update srv_update_str zmembers_def)
qed

lemma srv_glob_literal:
  assumes "literal a"
  shows "srv_glob (a @ p) k \<longleftrightarrow> (\<exists>m. k = a @ m \<and> srv_glob p m)"
  using assms
proof (induction a arbitrary: k)
  case (Cons x a)
  then show ?case by (cases k) (auto simp: literal_def)
qed simp

lemma srv_glob_star: "srv_glob (CHR ''*'' # p) k \<longleftrightarrow> (\<exists>m n. k = m @ n \<and> srv_glob p n)"
proof (induction k)
  case (Cons x k)
  have "(\<exists>m n. x # k = m @ n \<and> srv_glob p n) \<longleftrightarrow> srv_glob p (x # k) \<or> (\<exists>m n. k = m @ n \<and> srv_glob p n)"
    by (auto simp: Cons_eq_append_conv)
  then show ?case using Cons.IH by simp
qed simp

lemma srv_glob_pattern:
  assumes "literal a" "literal b"
  shows "srv_glob (a @ ''*'' @ b) k \<longleftrightarrow> (\<exists>m. k = a @ m @ b)"
proof -
  have "srv_glob b n \<longleftrightarrow> n = b" for n using srv_glob_literal [OF assms(2), of "[]" n] by simp
  then show ?thesis using srv_glob_literal [OF assms(1), of "''*'' @ b" k] srv_glob_star [of b] by auto
qed

lemma srv_Partition_upt:
  assumes "0 < n"
  shows "concat (map (\<lambda>(lo, hi). [lo..<hi]) (map (\<lambda>k. (k * n, min len (Suc k * n))) [0..<m])) = [0..<min len (m * n)]"
proof (induction m)
  case (Suc m)
  show ?case
  proof (cases "m * n \<le> len")
    case True
    then have "min len (m * n) = m * n" "m * n \<le> min len (Suc m * n)" by auto
    then show ?thesis using Suc upt_add_eq_append [of 0 "m * n" "min len (Suc m * n) - m * n"] by simp
  qed (use Suc in simp)
qed simp

lemma srv_Partition_ok: "gopart srv_Partition"
  unfolding gopart_def
proof (intro allI impI conjI)
  fix len n :: nat
  assume n: "0 < n"
  let ?m = "(len + n - 1) div n"
  have lt: "k * n < len" if "k < ?m" for k
  proof -
    have "Suc k * n \<le> len + n - 1" using that n by (metis Suc_leI less_eq_div_iff_mult_less_eq)
    then show ?thesis using n by simp
  qed
  show "\<forall>(lo, hi)\<in>set (srv_Partition len n). lo < hi \<and> hi \<le> lo + n \<and> hi \<le> len"
    using lt n by (auto simp: srv_Partition_def)
  have "len \<le> ?m * n"
  proof -
    have "len + n - 1 < Suc ?m * n" using n by (metis dividend_less_div_times mult_Suc mult.commute add.commute)
    then show ?thesis using n by simp
  qed
  then show "concat (map (\<lambda>(lo, hi). [lo..<hi]) (srv_Partition len n)) = [0..<len]"
    unfolding srv_Partition_def srv_Partition_upt [OF n] by simp
qed

interpretation model: redis "redis_model link" srv_zset srv_str "\<lambda>r node k. True" srv_glob for link
proof (unfold_locales, unfold redis_model_def Redis.select_convs, goal_cases)
  case (1 r k)
  then show ?case using srv_zset_good [of r k] by (simp add: zgood_def)
next
  case (2 r k)
  then show ?case using srv_zset_good [of r k] by (simp add: zgood_def)
next
  case (3 i s r k)
  then show ?case using srv_zset_good [of r k] by (auto simp: zgood_def list_all_iff)
next
  case 4
  then show ?case by (auto simp: srv_zset_def srv_str_def split: option.splits redis_value.splits)
next
  case 5
  then show ?case by (intro srv_ZADD_ok)
next
  case 6
  then show ?case by (force simp: srv_ZADD_def list_ex_iff)
next
  case 7
  then show ?case by (auto simp: srv_ZADD_def split: if_splits)
next
  case (8 r k ids)
  then show ?case
    using zgood_filter [OF srv_zset_good, of "\<lambda>(i, s). i \<notin> set ids" r k] card_filter_remdups(1) [of "fst ` set (srv_zset r k)" ids]
    by (simp add: srv_ZREM_def srv_update srv_update_str zmembers_def)
next
  case 9
  then show ?case by (simp add: srv_read_def)
next
  case 10
  then show ?case by (simp add: srv_read_def)
next
  case 11
  then show ?case by (simp add: srv_read_def)
next
  case 12
  then show ?case by auto
next
  case 13
  then show ?case by (simp add: srv_read_def)
next
  case 14
  then show ?case by simp
next
  case 15
  then show ?case by (simp add: srv_update)
next
  case (16 r node pat n)
  have "k \<in> fst ` set r" if "srv_zset r k \<noteq> [] \<or> srv_str r k \<noteq> None" for k
    using that by (cases "map_of r k") (auto simp: srv_zset_def srv_str_def dest: map_of_SomeD intro: rev_image_eqI)
  then show ?case
    by (intro exI [of _ "filter (srv_glob pat) (filter (\<lambda>k. srv_zset r k \<noteq> [] \<or> srv_str r k \<noteq> None) (map fst r))"]
        conjI scan_path.last) auto
next
  case 17
  then show ?case by (rule srv_glob_pattern)
next
  case (18 r node ks r' n)
  then have r': "r' = filter (\<lambda>(k, v). k \<notin> set ks) r" by simp
  have "map_of r' k = (if k \<in> set ks then None else map_of r k)" for k
    unfolding r' by (induction r) auto
  then show ?case by (simp add: fun_eq_iff srv_zset_def srv_str_def)
next
  case 19
  then show ?case by simp
next
  case 20
  then show ?case by simp
next
  case 21
  then show ?case by (rule srv_Partition_ok)
qed

interpretation sure: redis_reliable "redis_model sure_link" srv_zset srv_str "\<lambda>r node k. True" srv_glob
  by unfold_locales (simp add: redis_model_def sure_link_def)

end
