(* ===== verification/Redis_Queue.thy ===== *)
theory Redis_Queue
  imports Redis_Contract Redis_Model Memory_Queue
begin

text \<open>
  The queue over the Redis cache and the memory storage, for a connection that loses nothing: the laws of
  \<open>queue_env\<close> hold for it. Then a removal from the cache fails only for a queue that cannot exist.
\<close>

context redis_reliable
begin

lemma Script_Run_sure:
  obtains net where "Script_Run R name ks s c =
    (c\<lparr>rc_link := net, rc_Client := fst (s (rc_Client c))\<rparr>, snd (s (rc_Client c)))"
proof -
  obtain net where l: "rd_link R (rc_link c) name ks = (net, 0, None)" using reliable by blast
  show thesis by (rule that [of net]) (simp add: Script_Run_def l split: prod.splits)
qed

lemma remove_partitions_sure:
  assumes "dinv c (rc_Client c)" "valid_queue q" "\<forall>p\<in>set parts. p \<noteq> [] \<and> length p \<le> 4000"
    and "ks = [pool_key c PRIMARY_POOL q, pool_key c PROCESSING_POOL q, pool_key c LOCK_ACK_POOL q,
      pool_key c LOCK_NACK_POOL q, lockPoolScore c q LOCK_ACK, lockPoolScore c q LOCK_NACK]"
  shows "snd (snd (remove_partitions R ks parts acc c)) = None"
  using assms
proof (induction parts arbitrary: acc c)
  case (Cons p parts)
  have lp: "p \<noteq> []" "length p \<le> rd_unpack R" using Cons.prems(3) unpack by simp_all
  obtain r1 n where r1: "removeElementScript R ks p (rc_Client c) = (r1, Inr (RInt n))" "dinv c r1"
    by (rule remove_script [OF Cons.prems(1,2) lp Cons.prems(4)])
  obtain net where run: "Script_Run R ''remove'' ks (removeElementScript R ks p) c = (c\<lparr>rc_link := net, rc_Client := r1\<rparr>, Inr (RInt n))"
    using Script_Run_sure [of "''remove''" ks "removeElementScript R ks p" c] r1(1) by auto
  let ?c = "c\<lparr>rc_link := net, rc_Client := r1\<rparr>"
  have "snd (snd (remove_partitions R ks parts (acc + n) ?c)) = None"
    by (rule Cons.IH) (use Cons.prems r1(2) in simp_all)
  then show ?case using run by (simp add: reply_int_def)
qed simp

lemma remove_sure:
  assumes "redis_inv zset str c" "RedisCache_Remove R c q ids = (c', n, Some e)"
  shows "\<not> valid_queue q"
proof
  assume v: "valid_queue q"
  have i: "dinv c (rc_Client c)" using assms(1) by (simp add: inv_dinv)
  have l: "\<forall>p\<in>set (map (slice ids) (rd_Partition R (length ids) 4000)). p \<noteq> [] \<and> length p \<le> 4000"
    using gopart_slices(2) [OF partition, of 4000 _ ids] by simp
  show False
    using assms(2) remove_partitions_sure [OF i v l refl, of 0] v
    by (simp add: RedisCache_Remove_def pool_key_simps lock_pool_def)
qed

end

locale redis_queue = redis_reliable R zset str on_node glob + docs: doc_order dord
  for R :: "('r, 'n) Redis" and zset :: "'r \<Rightarrow> string \<Rightarrow> zset" and str :: "'r \<Rightarrow> string \<Rightarrow> string option"
    and on_node :: "'r \<Rightarrow> nat \<Rightarrow> string \<Rightarrow> bool" and glob :: "string \<Rightarrow> string \<Rightarrow> bool"
    and dord :: "string list \<Rightarrow> string list"

sublocale redis_queue \<subseteq> rq: queue_env "redis_cache R" "redis_ids zset" "redis_inv zset str" redis_amount
  "memory_storage dord" ms_stored ms_expired plain_id ms_inv False
proof
  show "known_ids (redis_ids zset c) q \<inter> set ids = {}"
    if "redis_inv zset str c" "c_Remove (redis_cache R) c q ids = (c', n, Some e)" for c q ids c' n e
  proof -
    have "\<not> valid_queue q" using remove_sure that by (simp add: redis_cache_def)
    then show ?thesis by (simp add: known_ids_def redis_ids_def del: not_None_eq)
  qed
qed simp

interpretation sample_redis_queue: redis_queue "redis_model sure_link" srv_zset srv_str "\<lambda>r node k. True" srv_glob "\<lambda>ks. ks"
  by unfold_locales

end
