(* ===== verification/Redis_Props.thy ===== *)
theory Redis_Props
  imports Redis_Faults Redis_Queue
begin

text \<open>
  The properties of the Redis cache. Their hypotheses about the server are the locales \<open>redis\<close> (any connection),
  \<open>redis_once\<close> (the client repeats nothing) and \<open>redis_reliable\<close> (the connection loses nothing).
\<close>

definition redis_run :: "('r, 'n) Redis \<Rightarrow> cache_op list \<Rightarrow> ('r, 'n) RedisCache \<Rightarrow> ('r, 'n) RedisCache" where
  "redis_run R ops c = fold (cache_exec (redis_cache R)) ops c"

text \<open>A cache whose prefix no other application has used.\<close>

definition fresh_redis ::
    "('r \<Rightarrow> string \<Rightarrow> zset) \<Rightarrow> ('r \<Rightarrow> string \<Rightarrow> string option) \<Rightarrow> ('r, 'n) RedisCache \<Rightarrow> bool" where
  "fresh_redis zset str c \<longleftrightarrow>
     (\<forall>k. prefix (poolPrefix c) k \<longrightarrow> zset (rc_Client c) k = [] \<and> str (rc_Client c) k = None)"

lemma queue_key_prefix: "prefix (poolPrefix c) (pool_key c p q)" "prefix (poolPrefix c) (lockPoolScore c q t)"
  by (simp_all add: pool_key_queue lockPoolScore_queue queue_key_def)

lemma fresh_redis_inv:
  assumes "fresh_redis zset str c"
  shows "redis_inv zset str c" "redis_ids zset c = (\<lambda>p q. {})"
proof -
  have z: "zset (rc_Client c) (pool_key c p q) = []" "zset (rc_Client c) (lockPoolScore c q t) = []"
    "str (rc_Client c) (pool_key c p q) = None" "str (rc_Client c) (lockPoolScore c q t) = None" for p q t
    using assms queue_key_prefix unfolding fresh_redis_def by blast+
  show i: "redis_ids zset c = (\<lambda>p q. {})" by (simp add: fun_eq_iff redis_ids_def z zmembers_def)
  show "redis_inv zset str c" by (simp add: redis_inv_def i z zmembers_def pool_disjoint_def)
qed

text \<open>A cache on the sample server, with the outcomes of its first calls.\<close>

definition sample_redis :: "'n \<Rightarrow> (redis_db, 'n) RedisCache" where
  "sample_redis net = \<lparr>rc_Client = [], rc_link = net, rc_clusterMode = False, rc_keyPrefix = ''d''\<rparr>"

lemma sample_fresh: "fresh_redis srv_zset srv_str (sample_redis net)"
  by (simp add: fresh_redis_def sample_redis_def srv_zset_def srv_str_def)

definition redis_message :: "string \<Rightarrow> float64 \<Rightarrow> int64 \<Rightarrow> Message" where
  "redis_message i s lock = zero_Message\<lparr>msg_ID := i, msg_Queue := ''q'', msg_Score := s, msg_LockMs := lock\<rparr>"

section \<open>Where messages are\<close>

text \<open>
  C12: whatever the connection to Redis does with the calls of a cache (requests and answers may be lost, and
  the client may repeat commands), after any sequence of them without a flush, with pulls of 1 to 4000 messages, no
  queue has an id in two of its pools.
\<close>

theorem redis_cache_unique:
  assumes "redis R zset str on_node glob" "fresh_redis zset str c"
    and "OpFlush \<notin> set ops" "list_all (op_amount redis_amount) ops"
  shows "pool_disjoint (redis_ids zset (redis_run R ops c))"
proof -
  have "redis.dinv zset str c (rc_Client c)"
    using fresh_redis_inv(1) [OF assms(2)] redis.inv_dinv [OF assms(1)] by blast
  from redis.run_unique [OF assms(1) this assms(3,4)] show ?thesis by (simp add: redis_inv_def redis_run_def)
qed

definition sample_faults :: "cache_op list" where
  "sample_faults = [OpInsert ''q'' [redis_message ''a'' (Fin 1) 0, redis_message ''b'' (Fin 2) 0],
     OpPull 0 ''q'' 1 None None 0, OpMakeAvailable (redis_message ''a'' (Fin 5) 0)]"

theorem redis_cache_unique_witness:
  "pool_disjoint (redis_ids srv_zset (redis_run (redis_model faulty_link) sample_faults
     (sample_redis [(1, None), (1, Some (Err ''i/o timeout'')), (0, None)]))) \<and>
   map (location (redis_ids srv_zset (redis_run (redis_model faulty_link) sample_faults
     (sample_redis [(1, None), (1, Some (Err ''i/o timeout'')), (0, None)]))) ''q'') [''a'', ''b''] =
     [Some PRIMARY_POOL, Some PRIMARY_POOL]"
proof
  show "pool_disjoint (redis_ids srv_zset (redis_run (redis_model faulty_link) sample_faults
     (sample_redis [(1, None), (1, Some (Err ''i/o timeout'')), (0, None)])))"
    by (rule redis_cache_unique [OF model.redis_axioms sample_fresh]) (simp_all add: sample_faults_def redis_amount_def)
  show "map (location (redis_ids srv_zset (redis_run (redis_model faulty_link) sample_faults
     (sample_redis [(1, None), (1, Some (Err ''i/o timeout'')), (0, None)]))) ''q'') [''a'', ''b''] =
     [Some PRIMARY_POOL, Some PRIMARY_POOL]"
    by code_simp
qed

end
