(* ===== verification/Mongo_Client.thy ===== *)
theory Mongo_Client
  imports Storage_Interface
begin

text \<open>
  What the MongoDB storage calls and the repository does not contain: the collections of the MongoDB driver. They
  are the fields of a record that the definitions of the storage take as an argument. The locale \<open>mongo\<close> states
  what the documentation of MongoDB and of its driver promises of the filters and updates that the storage
  uses, whatever the network does.
\<close>

section \<open>Values and commands\<close>

text \<open>
  A \<^verbatim>\<open>bson.M\<close> is a list of names and values. The values are those the storage puts there, a \<^verbatim>\<open>*time.Time\<close> being
  an option.
\<close>

datatype bson =
    BNull
  | BBool bool
  | BString string
  | BInt int64
  | BFloat float64
  | BTime time
  | BTimeRef "time option"
  | BObjectID string
  | BStrings "string list"
  | BMetadata "(string, string) gomap"
  | BPayload "(string, any) gomap"
  | BM "(string \<times> bson) list"

type_synonym bson_M = "(string \<times> bson) list"

record MongoFindOptions =
  mf_Projection :: bson_M
  mf_Sort :: bson_M
  mf_Limit :: int64
  mf_BatchSize :: int
  mf_Comment :: string

text \<open>The collections of the struct \<^verbatim>\<open>MongoStorage\<close>. Reads of the first prefer a secondary server.\<close>

datatype collection = messagesCollection | messagesCollectionPrimaryRead | queueConfigurationCollection

text \<open>
  \<open>'d\<close> is the state of the servers and of the connection, \<open>'k\<close> a cursor. A count of a result stands for the
  result, as the storage reads nothing else from it. \<open>mg_FindOne\<close> answers \<open>None\<close> for \<^verbatim>\<open>mongo.ErrNoDocuments\<close>.
\<close>

record ('d, 'k) Mongo =
  mg_UpdateOne :: "'d \<Rightarrow> collection \<Rightarrow> bson_M \<Rightarrow> bson_M \<Rightarrow> bool \<Rightarrow> 'd \<times> int64 result"
  mg_BulkWrite :: "'d \<Rightarrow> collection \<Rightarrow> (bson_M \<times> bson_M) list \<Rightarrow> 'd \<times> (int64 \<times> int64 \<times> int64) result"
  mg_DeleteMany :: "'d \<Rightarrow> collection \<Rightarrow> bson_M \<Rightarrow> 'd \<times> int64 result"
  mg_CountDocuments :: "'d \<Rightarrow> collection \<Rightarrow> bson_M \<Rightarrow> string \<Rightarrow> int64 result"
  mg_Distinct :: "'d \<Rightarrow> collection \<Rightarrow> string \<Rightarrow> bson_M \<Rightarrow> string list result"
  mg_Find :: "'d \<Rightarrow> collection \<Rightarrow> bson_M \<Rightarrow> MongoFindOptions option \<Rightarrow> 'k result"
  mg_AllMessages :: "'k \<Rightarrow> Message list result"
  mg_AllConfigurations :: "'k \<Rightarrow> QueueConfiguration list result"
  mg_FindOne :: "'d \<Rightarrow> collection \<Rightarrow> bson_M \<Rightarrow> QueueConfiguration option result"
  mg_ObjectIDFromHex :: "string \<Rightarrow> string result"
  mg_Hex :: "string \<Rightarrow> string"

section \<open>Documents\<close>

text \<open>
  A stored document is a map from paths to values; the path of a field inside of a nested document has a dot. A
  date is stored with milliseconds.
\<close>

type_synonym document = "string \<rightharpoonup> bson"

definition stored_time :: "time \<Rightarrow> time" where
  "stored_time t = t div nanosPerMillisecond * nanosPerMillisecond"

fun stored_value :: "bson \<Rightarrow> bson" where
  "stored_value (BTime t) = BTime (stored_time t)"
| "stored_value (BTimeRef None) = BNull"
| "stored_value (BTimeRef (Some t)) = BTime (stored_time t)"
| "stored_value v = v"

text \<open>Filters: a value asks for equality, a nested document for operators. Values of different types do not match.\<close>

fun string_less :: "string \<Rightarrow> string \<Rightarrow> bool" where
  "string_less [] ys \<longleftrightarrow> ys \<noteq> []"
| "string_less (x # xs) [] \<longleftrightarrow> False"
| "string_less (x # xs) (y # ys) \<longleftrightarrow> (of_char x :: nat) < of_char y \<or> x = y \<and> string_less xs ys"

definition bson_less :: "bson \<Rightarrow> bson \<Rightarrow> bool" where
  "bson_less v w \<longleftrightarrow>
     (case v of BTime s \<Rightarrow> (case w of BTime t \<Rightarrow> s < t | _ \<Rightarrow> False)
      | BObjectID s \<Rightarrow> (case w of BObjectID t \<Rightarrow> string_less s t | _ \<Rightarrow> False)
      | _ \<Rightarrow> False)"

fun operator_holds :: "string \<Rightarrow> bson \<Rightarrow> bson \<Rightarrow> bool" where
  "operator_holds op a v \<longleftrightarrow>
     (if op = ''$in'' then (case a of BStrings xs \<Rightarrow> v \<in> BString ` set xs | _ \<Rightarrow> False)
      else if op = ''$gt'' then bson_less (stored_value a) v
      else if op = ''$lte'' then bson_less v (stored_value a) \<or> v = stored_value a
      else False)"

definition field_matches :: "bson \<Rightarrow> bson option \<Rightarrow> bool" where
  "field_matches cond field \<longleftrightarrow> (case field of None \<Rightarrow> False
     | Some v \<Rightarrow> (case cond of BM ops \<Rightarrow> (\<forall>(op, a)\<in>set ops. operator_holds op a v) | _ \<Rightarrow> v = stored_value cond))"

definition doc_matches :: "bson_M \<Rightarrow> document \<Rightarrow> bool" where
  "doc_matches f x \<longleftrightarrow> (\<forall>(k, cond)\<in>set f. field_matches cond (x k))"

text \<open>
  Updates. An increment of a field that does not exist sets it. An increment beyond 64 bits is refused with an
  error, so the wrap-around is never the result of one.
\<close>

definition bson_plus :: "bson \<Rightarrow> bson \<Rightarrow> bson" where
  "bson_plus v w =
     (case w of BInt b \<Rightarrow> (case v of BInt a \<Rightarrow> BInt (wrap64 (a + b)) | _ \<Rightarrow> w)
      | BFloat b \<Rightarrow> (case v of BFloat a \<Rightarrow> BFloat (fadd a b) | _ \<Rightarrow> w)
      | _ \<Rightarrow> w)"

definition update_part :: "string \<Rightarrow> bson_M \<Rightarrow> bson_M" where
  "update_part op u = (case map_of u op of Some (BM m) \<Rightarrow> m | _ \<Rightarrow> [])"

definition set_fields :: "bson_M \<Rightarrow> document \<Rightarrow> document" where
  "set_fields m x = fold (\<lambda>(k, v) x. x(k \<mapsto> stored_value v)) m x"

definition inc_fields :: "bson_M \<Rightarrow> document \<Rightarrow> document" where
  "inc_fields m x = fold (\<lambda>(k, v) x. x(k \<mapsto> (case x k of None \<Rightarrow> v | Some w \<Rightarrow> bson_plus w v))) m x"

definition apply_update :: "bool \<Rightarrow> bson_M \<Rightarrow> document \<Rightarrow> document" where
  "apply_update inserted u x =
     (let y = inc_fields (update_part ''$inc'' u) (set_fields (update_part ''$set'' u) x)
      in if inserted then set_fields (update_part ''$setOnInsert'' u) y else y)"

text \<open>An upsert that finds nothing inserts the fields of its filter, the update, and a fresh internal id.\<close>

definition inserted_document :: "bson_M \<Rightarrow> bson_M \<Rightarrow> string \<Rightarrow> document" where
  "inserted_document f u oid = apply_update True u ((set_fields f Map.empty)(''_id'' \<mapsto> BObjectID oid))"

definition updates_one :: "bson_M \<Rightarrow> bson_M \<Rightarrow> document list \<Rightarrow> document list \<Rightarrow> bool" where
  "updates_one f u D D' \<longleftrightarrow>
     (\<exists>i<length D. doc_matches f (D ! i) \<and> D' = D[i := apply_update False u (D ! i)])"

definition upserts_one :: "bson_M \<Rightarrow> bson_M \<Rightarrow> document list \<Rightarrow> document list \<Rightarrow> bool" where
  "upserts_one f u D D' \<longleftrightarrow> updates_one f u D D' \<or>
     (\<forall>x\<in>set D. \<not> doc_matches f x) \<and>
     (\<exists>oid. (\<forall>x\<in>set D. x ''_id'' \<noteq> Some (BObjectID oid)) \<and> D' = D @ [inserted_document f u oid])"

inductive upserts :: "(bson_M \<times> bson_M) list \<Rightarrow> document list \<Rightarrow> document list \<Rightarrow> bool" where
  upserts_nil: "upserts [] D D"
| upserts_cons: "upserts_one f u D D1 \<Longrightarrow> upserts us D1 D2 \<Longrightarrow> upserts ((f, u) # us) D D2"

text \<open>
  Projections on whole fields, which are all that the code asks for. A projection with a value other than 0 includes: the fields with such a value. One
  with zeros only excludes: all fields but those. The internal id is returned unless its value is 0.
\<close>

definition project :: "bson_M \<Rightarrow> document \<Rightarrow> document" where
  "project p x k =
     (let field = takeWhile (\<lambda>ch. ch \<noteq> CHR ''.'') k;
          inclusion = list_ex (\<lambda>(f, v). v \<noteq> BInt 0) p;
          returned = (if field = ''_id'' \<or> \<not> inclusion then map_of p field \<noteq> Some (BInt 0)
                      else map_of p field \<notin> {None, Some (BInt 0)})
      in if returned then x k else None)"

text \<open>
  Decoding into the struct \<^verbatim>\<open>Message\<close>: a field takes the value under the name of its tag, or its zero value. A value
  of another type than the field is an error of the driver, so \<open>well_typed\<close> documents are the ones it decodes.
\<close>

definition bson_string :: "bson option \<Rightarrow> string" where
  "bson_string v = (case v of Some (BString s) \<Rightarrow> s | _ \<Rightarrow> [])"

definition bson_int :: "bson option \<Rightarrow> int64" where
  "bson_int v = (case v of Some (BInt n) \<Rightarrow> n | _ \<Rightarrow> 0)"

definition bson_float :: "bson option \<Rightarrow> float64" where
  "bson_float v = (case v of Some (BFloat f) \<Rightarrow> f | _ \<Rightarrow> Fin 0)"

definition bson_counter :: "bson option \<Rightarrow> int64 option" where
  "bson_counter v = (case v of Some (BInt n) \<Rightarrow> Some n | _ \<Rightarrow> None)"

definition diagnostic_fields :: "string list" where
  "diagnostic_fields = [''diagnostics.acks'', ''diagnostics.nacks'', ''diagnostics.consecutive_acks'',
     ''diagnostics.consecutive_nacks'']"

definition decode_message :: "document \<Rightarrow> Message" where
  "decode_message x =
     \<lparr>msg_ID = bson_string (x ''id''), msg_Description = bson_string (x ''description''),
      msg_Queue = bson_string (x ''queue''),
      msg_ExpiryDate = (case x ''expiry_date'' of Some (BTime t) \<Rightarrow> t | _ \<Rightarrow> zero_time),
      msg_Timeless = (x ''timeless'' = Some (BBool True)),
      msg_Metadata = (case x ''metadata'' of Some (BMetadata m) \<Rightarrow> Some m | _ \<Rightarrow> None),
      msg_Payload = (case x ''payload'' of Some (BPayload m) \<Rightarrow> Some m | _ \<Rightarrow> None),
      msg_StringPayload = bson_string (x ''string_payload''), msg_LockMs = bson_int (x ''lock_ms''),
      msg_InternalId = (case x ''_id'' of Some (BObjectID oid) \<Rightarrow> IdObject oid | _ \<Rightarrow> IdNil),
      msg_Score = bson_float (x ''score''),
      msg_LastUsage = (case x ''last_usage'' of Some (BTime t) \<Rightarrow> Some t | _ \<Rightarrow> None),
      msg_Breakpoint = bson_string (x ''breakpoint''),
      msg_LastScoreSubtract = bson_float (x ''last_score_subtract''),
      msg_TotalScoreSubtract = bson_float (x ''total_score_subtract''), msg_UsageCount = bson_int (x ''usage_count''),
      msg_QueuePrefix = bson_string (x ''queue_prefix''), msg_QueueSuffix = bson_string (x ''queue_suffix''),
      msg_Diagnostics =
        (if \<forall>k\<in>set diagnostic_fields. x k = None then None
         else Some \<lparr>dg_Acks = bson_counter (x ''diagnostics.acks''), dg_Nacks = bson_counter (x ''diagnostics.nacks''),
                    dg_ConsecutiveAcks = bson_counter (x ''diagnostics.consecutive_acks''),
                    dg_ConsecutiveNacks = bson_counter (x ''diagnostics.consecutive_nacks'')\<rparr>)\<rparr>"

datatype kind = KString | KInt | KFloat | KBool | KTime | KTimeRef | KMetadata | KPayload | KObjectID

definition message_fields :: "(string \<times> kind) list" where
  "message_fields =
     [(''id'', KString), (''description'', KString), (''queue'', KString), (''expiry_date'', KTime),
      (''timeless'', KBool), (''metadata'', KMetadata), (''payload'', KPayload), (''string_payload'', KString),
      (''lock_ms'', KInt), (''_id'', KObjectID), (''score'', KFloat), (''last_usage'', KTimeRef),
      (''breakpoint'', KString), (''last_score_subtract'', KFloat), (''total_score_subtract'', KFloat),
      (''usage_count'', KInt), (''queue_prefix'', KString), (''queue_suffix'', KString),
      (''diagnostics.acks'', KInt), (''diagnostics.nacks'', KInt), (''diagnostics.consecutive_acks'', KInt),
      (''diagnostics.consecutive_nacks'', KInt)]"

definition has_kind :: "kind \<Rightarrow> bson \<Rightarrow> bool" where
  "has_kind K v \<longleftrightarrow>
     (case v of BString s \<Rightarrow> K = KString | BInt n \<Rightarrow> K = KInt | BFloat f \<Rightarrow> K = KFloat | BBool b \<Rightarrow> K = KBool
      | BTime t \<Rightarrow> K = KTime \<or> K = KTimeRef | BNull \<Rightarrow> K = KTimeRef | BMetadata m \<Rightarrow> K = KMetadata
      | BPayload m \<Rightarrow> K = KPayload | BObjectID oid \<Rightarrow> K = KObjectID | _ \<Rightarrow> False)"

lemma has_kind_simps [simp]:
  "has_kind K (BString s) \<longleftrightarrow> K = KString" "has_kind K (BInt n) \<longleftrightarrow> K = KInt" "has_kind K (BFloat f) \<longleftrightarrow> K = KFloat"
  "has_kind K (BTime t) \<longleftrightarrow> K = KTime \<or> K = KTimeRef" "has_kind K BNull \<longleftrightarrow> K = KTimeRef"
  "has_kind K (BMetadata m) \<longleftrightarrow> K = KMetadata" "has_kind K (BPayload p) \<longleftrightarrow> K = KPayload"
  "has_kind K (BObjectID oid) \<longleftrightarrow> K = KObjectID"
  by (simp_all add: has_kind_def)

definition field_type :: "string \<Rightarrow> bson \<Rightarrow> bool" where
  "field_type k v \<longleftrightarrow> (case map_of message_fields k of None \<Rightarrow> False | Some K \<Rightarrow> has_kind K v)"

definition well_typed :: "document \<Rightarrow> bool" where
  "well_typed x \<longleftrightarrow> (\<forall>k v. x k = Some v \<longrightarrow> field_type k v)"

section \<open>Promises\<close>

text \<open>
  \<open>docs\<close> are the documents of the collection of messages on the primary server and \<open>seen\<close> those a secondary server
  knows. A command that answers with an error may have been executed, a deletion or a bulk write also in part.
\<close>

locale mongo =
  fixes M :: "('d, 'k) Mongo" and docs :: "'d \<Rightarrow> document list" and seen :: "'d \<Rightarrow> document list"
  assumes update_one: "mg_UpdateOne M d messagesCollection f u False = (d', Inr n) \<Longrightarrow>
      updates_one f u (docs d) (docs d') \<and> (docs d' \<noteq> docs d \<longrightarrow> n = 1) \<or>
      (\<forall>x\<in>set (docs d). \<not> doc_matches f x) \<and> docs d' = docs d \<and> n = 0"
    and update_one_error: "mg_UpdateOne M d messagesCollection f u False = (d', Inl e) \<Longrightarrow>
      updates_one f u (docs d) (docs d') \<or> docs d' = docs d"
    and bulk_write: "mg_BulkWrite M d messagesCollection us = (d', Inr (i, up, m)) \<Longrightarrow>
      (\<exists>us'. mset us' = mset us \<and> upserts us' (docs d) (docs d')) \<and>
      i + up = int (length (docs d')) - int (length (docs d))"
    and bulk_write_error: "mg_BulkWrite M d messagesCollection us = (d', Inl e) \<Longrightarrow>
      \<exists>us'. mset us' \<subseteq># mset us \<and> upserts us' (docs d) (docs d')"
    and delete_many: "mg_DeleteMany M d messagesCollection f = (d', Inr n) \<Longrightarrow>
      docs d' = filter (\<lambda>x. \<not> doc_matches f x) (docs d) \<and> n = int (length (filter (doc_matches f) (docs d)))"
    and delete_many_error: "mg_DeleteMany M d messagesCollection f = (d', Inl e) \<Longrightarrow>
      \<exists>P. docs d' = filter P (docs d) \<and> (\<forall>x\<in>set (docs d). \<not> doc_matches f x \<longrightarrow> P x)"
    and find: "mg_Find M d c f (Some opt) = Inr k \<Longrightarrow> mg_AllMessages M k = Inr ms \<Longrightarrow> c \<noteq> queueConfigurationCollection \<Longrightarrow>
      \<exists>found. (let hits = filter (doc_matches f) (if c = messagesCollection then seen d else docs d) in
         mset found \<subseteq># mset hits \<and>
         length found = (if mf_Limit opt > 0 then min (nat (mf_Limit opt)) (length hits) else length hits) \<and>
         ms = map (decode_message \<circ> project (mf_Projection opt)) found)"
    and update_configuration: "mg_UpdateOne M d queueConfigurationCollection f u b = (d', r) \<Longrightarrow> docs d' = docs d"
    and delete_configurations: "mg_DeleteMany M d queueConfigurationCollection f = (d', r) \<Longrightarrow> docs d' = docs d"
    and hex: "mg_ObjectIDFromHex M (mg_Hex M oid) = Inr oid"

text \<open>
  Finds that see the current documents, and deletions that do not fail. The first holds on a single server; the storage reads with
  \<^verbatim>\<open>SecondaryPreferred\<close>, so in a replica set it holds only while the secondaries do not lag.
\<close>

locale mongo_current = mongo M docs seen
  for M :: "('d, 'k) Mongo" and docs seen +
  assumes current: "seen d = docs d"

locale mongo_reliable = mongo_current M docs seen
  for M :: "('d, 'k) Mongo" and docs seen +
  assumes delete_sure: "mg_DeleteMany M d messagesCollection f \<noteq> (d', Inl e)"

end
