(* ===== verification/Mongo_Storage.thy ===== *)
theory Mongo_Storage
  imports Mongo_Client
begin

text \<open>
  \<^verbatim>\<open>internal/queue/storage/mongo_storage.go\<close>: the storage that keeps the messages in a collection of MongoDB. The
  struct holds handles of the collections only, so the state of the storage is the state \<open>'d\<close> of the database.
  The latencies that the methods record are left out.
\<close>

section \<open>Configurations of queues\<close>

definition MongoStorage_EditQueueConfiguration ::
    "('d, 'k) Mongo \<Rightarrow> 'd \<Rightarrow> QueueConfiguration \<Rightarrow> 'd \<times> go_error option" where
  "MongoStorage_EditQueueConfiguration M d cfg =
     (let maxElements = cfg_MaxElements cfg;
          fields = (if maxElements \<noteq> 0
                    then [(''max_elements'', BInt (if maxElements < 0 then 0 else maxElements))] else [])
      in if length fields = 0 then (d, None)
         else let (d', r) = mg_UpdateOne M d queueConfigurationCollection [(''_id'', BString (cfg_Queue cfg))]
                              [(''$set'', BM fields)] True
              in (d', case r of Inl e \<Rightarrow> Some e | Inr _ \<Rightarrow> None))"

definition MongoStorage_ListQueueConfigurations :: "('d, 'k) Mongo \<Rightarrow> 'd \<Rightarrow> QueueConfiguration list result" where
  "MongoStorage_ListQueueConfigurations M d =
     (case mg_Find M d queueConfigurationCollection [] None of
        Inl e \<Rightarrow> Inl (Wrap ''error finding queue configurations'' e)
      | Inr cursor \<Rightarrow>
          (case mg_AllConfigurations M cursor of
             Inl e \<Rightarrow> Inl (Wrap ''error to fetch cursor'' e)
           | Inr configurations \<Rightarrow> Inr configurations))"

definition MongoStorage_GetQueueConfiguration ::
    "('d, 'k) Mongo \<Rightarrow> 'd \<Rightarrow> string \<Rightarrow> QueueConfiguration option result" where
  "MongoStorage_GetQueueConfiguration M d queue =
     (case mg_FindOne M d queueConfigurationCollection [(''_id'', BString queue)] of
        Inl e \<Rightarrow> Inl (Wrap ''error getting queue configuration'' e)
      | Inr cfg \<Rightarrow> Inr cfg)"

section \<open>Filters\<close>

definition getMongoProjection :: "(string \<times> int) list option \<Rightarrow> bson_M" where
  "getMongoProjection projection =
     (case projection of None \<Rightarrow> [] | Some p \<Rightarrow> map (\<lambda>(key, value). (key, BInt value)) p)"

definition getMongoSort :: "(string \<times> int) list option \<Rightarrow> bson_M" where
  "getMongoSort keys = (case keys of None \<Rightarrow> [] | Some s \<Rightarrow> map (\<lambda>(key, value). (key, BInt value)) s)"

definition ids_condition :: "string list option \<Rightarrow> bson_M" where
  "ids_condition ids =
     (case ids of None \<Rightarrow> []
      | Some l \<Rightarrow>
          if length l \<noteq> 0
          then (if length l = 1 then [(''id'', BString (l ! 0))] else [(''id'', BM [(''$in'', BStrings l)])])
          else [])"

definition breakpoint_condition :: "('d, 'k) Mongo \<Rightarrow> string \<Rightarrow> string \<Rightarrow> bson_M result" where
  "breakpoint_condition M op breakpoint =
     (if breakpoint \<noteq> []
      then (case mg_ObjectIDFromHex M breakpoint of
              Inl e \<Rightarrow> Inl (Wrap ''invalid breakpoint to filter'' e)
            | Inr oid \<Rightarrow> Inr [(op, BObjectID oid)])
      else Inr [])"

definition getMongoMessage :: "('d, 'k) Mongo \<Rightarrow> FindOptions \<Rightarrow> bson_M result" where
  "getMongoMessage M opt =
     (case fo_InternalFilter opt of
        None \<Rightarrow> Inr []
      | Some i \<Rightarrow>
          (case breakpoint_condition M ''$gt'' (if_InternalIdBreakpointGt i) of
             Inl e \<Rightarrow> Inl e
           | Inr gt \<Rightarrow>
               (case breakpoint_condition M ''$lte'' (if_InternalIdBreakpointLte i) of
                  Inl e \<Rightarrow> Inl e
                | Inr lte \<Rightarrow>
                    let idFilter = gt @ lte
                    in Inr (ids_condition (if_Ids i) @
                        (if if_Queue i \<noteq> [] then [(''queue'', BString (if_Queue i))] else []) @
                        (if if_QueuePrefix i \<noteq> [] then [(''queue_prefix'', BString (if_QueuePrefix i))] else []) @
                        (if length idFilter > 0 then [(''_id'', BM idFilter)] else []) @
                        (case if_ExpiryDate i of None \<Rightarrow> [] | Some date \<Rightarrow>
                           [(''expiry_date'', BM [(''$lte'', BTime date)])])))))"

section \<open>Reading\<close>

definition MongoStorage_Count ::
    "('d, 'k) Mongo \<Rightarrow> 'd \<Rightarrow> FindOptions option \<Rightarrow> CountOptions option \<Rightarrow> int64 result" where
  "MongoStorage_Count M d findOpt countOpt =
     (case findOpt of
        None \<Rightarrow> Inl (Panic ''nil pointer dereference'')
      | Some fo \<Rightarrow>
          (case getMongoMessage M fo of
             Inl e \<Rightarrow> Inl e
           | Inr mongoFilter \<Rightarrow>
               (case countOpt of
                  None \<Rightarrow> Inl (Panic ''nil pointer dereference'')
                | Some co \<Rightarrow>
                    (case mg_CountDocuments M d messagesCollection mongoFilter (co_Comment co) of
                       Inl e \<Rightarrow> Inl (Wrap ''error counting elements in storage'' e)
                     | Inr n \<Rightarrow> Inr n))))"

definition MongoStorage_distinct :: "('d, 'k) Mongo \<Rightarrow> 'd \<Rightarrow> string \<Rightarrow> string list result" where
  "MongoStorage_distinct M d field =
     (case mg_Distinct M d messagesCollection field [] of
        Inl e \<Rightarrow> Inl (Wrap ''error to fetch distinct elements from storage'' e)
      | Inr data \<Rightarrow> Inr data)"

definition MongoStorage_ListQueueNames :: "('d, 'k) Mongo \<Rightarrow> 'd \<Rightarrow> string list result" where
  "MongoStorage_ListQueueNames M d = MongoStorage_distinct M d ''queue''"

definition MongoStorage_ListQueuePrefixes :: "('d, 'k) Mongo \<Rightarrow> 'd \<Rightarrow> string list result" where
  "MongoStorage_ListQueuePrefixes M d = MongoStorage_distinct M d ''queue_prefix''"

text \<open>The conversion of an \<^verbatim>\<open>int64\<close> to an \<^verbatim>\<open>int32\<close>. A slice with a negative capacity is a panic.\<close>

definition wrap32 :: "int \<Rightarrow> int" where
  "wrap32 x = (x + 2 ^ 31) mod 2 ^ 32 - 2 ^ 31"

definition find_batch_size :: "int64 \<Rightarrow> int" where
  "find_batch_size limit =
     (let batchSize = wrap32 limit
      in if batchSize \<le> 1 then 1000 else if batchSize > 10000 then 10000 else batchSize)"

definition MongoStorage_Find :: "('d, 'k) Mongo \<Rightarrow> 'd \<Rightarrow> FindOptions option \<Rightarrow> Message list result" where
  "MongoStorage_Find M d find_opt =
     (let opt = (case find_opt of None \<Rightarrow> zero_FindOptions | Some fo \<Rightarrow> fo)
      in (case getMongoMessage M opt of
            Inl e \<Rightarrow> Inl e
          | Inr mongoFilter \<Rightarrow>
              let findOptions =
                    \<lparr>mf_Projection = getMongoProjection (fo_Projection opt), mf_Sort = getMongoSort (fo_Sort opt),
                     mf_Limit = fo_Limit opt, mf_BatchSize = find_batch_size (fo_Limit opt),
                     mf_Comment = fo_Comment opt\<rparr>;
                  collection = (if fo_Retry opt then messagesCollectionPrimaryRead else messagesCollection)
              in (case mg_Find M d collection mongoFilter (Some findOptions) of
                    Inl e \<Rightarrow> Inl (Wrap ''error finding storage elements'' e)
                  | Inr cursor \<Rightarrow>
                      if fo_Limit opt < 0 then Inl (Panic ''makeslice: cap out of range'')
                      else (case mg_AllMessages M cursor of
                              Inl e \<Rightarrow> Inl (Wrap ''error to fetch cursor'' e)
                            | Inr messages \<Rightarrow> Inr messages))))"

definition MongoStorage_GetStringInternalId :: "('d, 'k) Mongo \<Rightarrow> Message \<Rightarrow> string result" where
  "MongoStorage_GetStringInternalId M m =
     (case msg_InternalId m of
        IdNil \<Rightarrow> Inr []
      | IdInt n \<Rightarrow> Inl (Panic ''interface conversion: interface is int64, not bson.ObjectID'')
      | IdObject oid \<Rightarrow> Inr (mg_Hex M oid))"

section \<open>Writing\<close>

text \<open>
  \<^verbatim>\<open>Remove\<close> deletes the messages in chunks; the loop goes through the index of the first id of a chunk. The text of its
  error also lists the ids, which is left out.
\<close>

definition deleteChunkSize :: nat where
  "deleteChunkSize = 100"

definition attemptChunkDeletion ::
    "('d, 'k) Mongo \<Rightarrow> 'd \<Rightarrow> nat \<Rightarrow> string list \<Rightarrow> string \<Rightarrow> 'd \<times> int64 result" where
  "attemptChunkDeletion M d i ids queue =
     (let end = i + deleteChunkSize;
          stop = (if end > length ids then length ids else end);
          chunk = take (stop - i) (drop i ids)
      in mg_DeleteMany M d messagesCollection [(''queue'', BString queue), (''id'', BM [(''$in'', BStrings chunk)])])"

text \<open>
  \<^verbatim>\<open>Remove\<close> returns the count so far beside an error. The model leaves it out: its one caller,
  \<^verbatim>\<open>Queue.Remove\<close>, returns 0 in that case. The chunks deleted before the error stay deleted.
\<close>

function remove_chunks ::
    "('d, 'k) Mongo \<Rightarrow> string \<Rightarrow> string list \<Rightarrow> nat \<Rightarrow> int64 \<Rightarrow> 'd \<Rightarrow> 'd \<times> int64 result" where
  "remove_chunks M queue ids i deleted d =
     (if i < length ids
      then (let (d', r) = attemptChunkDeletion M d i ids queue
            in (case r of
                  Inl e \<Rightarrow> (d', Inl (Wrap ''error deleting storage elements'' e))
                | Inr n \<Rightarrow> remove_chunks M queue ids (i + deleteChunkSize) (wrap64 (deleted + n)) d'))
      else (d, Inr deleted))"
  by pat_completeness auto
termination
  by (relation "measure (\<lambda>(M, queue, ids, i, deleted, d). length ids - i)") (auto simp: deleteChunkSize_def)

declare remove_chunks.simps [simp del]

definition MongoStorage_Remove :: "('d, 'k) Mongo \<Rightarrow> 'd \<Rightarrow> string \<Rightarrow> string list \<Rightarrow> 'd \<times> int64 result" where
  "MongoStorage_Remove M d queue ids =
     (if length ids = 0 then (d, Inr 0) else remove_chunks M queue ids 0 0 d)"

definition MongoStorage_Flush :: "('d, 'k) Mongo \<Rightarrow> 'd \<Rightarrow> 'd \<times> int64 result" where
  "MongoStorage_Flush M d =
     (let (d1, r) = mg_DeleteMany M d messagesCollection []
      in (case r of
            Inl e \<Rightarrow> (d1, Inl (Wrap ''error deleting storage elements'' e))
          | Inr deletedMessages \<Rightarrow>
              let (d2, r2) = mg_DeleteMany M d1 queueConfigurationCollection []
              in (case r2 of
                    Inl e \<Rightarrow> (d2, Inl (Wrap ''error deleting queue configurations on storage'' e))
                  | Inr n \<Rightarrow> (d2, Inr (wrap64 (n + deletedMessages))))))"

definition insert_fields :: "Message \<Rightarrow> bson_M" where
  "insert_fields q =
     [(''expiry_date'', BTime (msg_ExpiryDate q))] @
     (if msg_Description q \<noteq> [] then [(''description'', BString (msg_Description q))] else []) @
     (case msg_Metadata q of None \<Rightarrow> [] | Some m \<Rightarrow> [(''metadata'', BMetadata m)]) @
     (case msg_Payload q of None \<Rightarrow> [] | Some m \<Rightarrow> [(''payload'', BPayload m)]) @
     (if msg_StringPayload q \<noteq> [] then [(''string_payload'', BString (msg_StringPayload q))] else []) @
     [(''queue_prefix'', BString (msg_QueuePrefix q))] @
     (if msg_QueueSuffix q \<noteq> [] then [(''queue_suffix'', BString (msg_QueueSuffix q))] else [])"

definition message_filter :: "Message \<Rightarrow> bson_M" where
  "message_filter q = [(''id'', BString (msg_ID q)), (''queue'', BString (msg_Queue q))]"

definition insert_model :: "time \<Rightarrow> Message \<Rightarrow> bson_M \<times> bson_M" where
  "insert_model now q =
     (message_filter q,
      [(''$set'', BM (insert_fields q)),
       (''$setOnInsert'', BM [(''last_usage'', BTime now), (''score'', BFloat (msg_Score q))])])"

fun insert_updates :: "time \<Rightarrow> Message list \<Rightarrow> (bson_M \<times> bson_M) list \<Rightarrow> (bson_M \<times> bson_M) list result" where
  "insert_updates now [] updates = Inr updates"
| "insert_updates now (q # messages) updates =
     (if msg_Queue q = [] then Inl (Err ''message has a invalid queue'')
      else if msg_ID q = [] then Inl (Err ''message has a invalid ID'')
      else insert_updates now messages (updates @ [insert_model now q]))"

definition MongoStorage_Insert ::
    "('d, 'k) Mongo \<Rightarrow> time \<Rightarrow> 'd \<Rightarrow> Message list \<Rightarrow> 'd \<times> (int64 \<times> int64) result" where
  "MongoStorage_Insert M now d messages =
     (case insert_updates now messages [] of
        Inl e \<Rightarrow> (d, Inl e)
      | Inr updates \<Rightarrow>
          let (d', r) = mg_BulkWrite M d messagesCollection updates
          in (case r of
                Inl e \<Rightarrow> (d', Inl (Wrap ''error writing to mongodb storage'' e))
              | Inr (insertedCount, upsertedCount, modifiedCount) \<Rightarrow>
                  (d', Inr (wrap64 (insertedCount + upsertedCount), modifiedCount))))"

definition ack_update :: "Message \<Rightarrow> bson_M" where
  "ack_update m =
     [(''$set'', BM [(''last_usage'', BTimeRef (msg_LastUsage m)),
                     (''last_score_subtract'', BFloat (msg_LastScoreSubtract m)),
                     (''breakpoint'', BString (msg_Breakpoint m)), (''score'', BFloat (msg_Score m)),
                     (''lock_ms'', BInt (msg_LockMs m)), (''diagnostics.consecutive_nacks'', BInt 0)]),
      (''$inc'', BM [(''usage_count'', BInt 1), (''total_score_subtract'', BFloat (msg_LastScoreSubtract m)),
                     (''diagnostics.acks'', BInt 1), (''diagnostics.consecutive_acks'', BInt 1)])]"

definition nack_update :: "Message \<Rightarrow> bson_M" where
  "nack_update m =
     [(''$set'', BM [(''score'', BFloat (msg_Score m)), (''lock_ms'', BInt (msg_LockMs m)),
                     (''diagnostics.consecutive_acks'', BInt 0)]),
      (''$inc'', BM [(''diagnostics.nacks'', BInt 1), (''diagnostics.consecutive_nacks'', BInt 1)])]"

definition update_message :: "('d, 'k) Mongo \<Rightarrow> 'd \<Rightarrow> Message \<Rightarrow> bson_M \<Rightarrow> 'd \<times> int64 result" where
  "update_message M d m update =
     (let (d', r) = mg_UpdateOne M d messagesCollection (message_filter m) update False
      in (d', case r of Inl e \<Rightarrow> Inl (Wrap ''error updating storage element'' e) | Inr n \<Rightarrow> Inr n))"

definition MongoStorage_Ack :: "('d, 'k) Mongo \<Rightarrow> 'd \<Rightarrow> Message \<Rightarrow> 'd \<times> int64 result" where
  "MongoStorage_Ack M d m = update_message M d m (ack_update m)"

definition MongoStorage_Nack :: "('d, 'k) Mongo \<Rightarrow> 'd \<Rightarrow> Message \<Rightarrow> 'd \<times> int64 result" where
  "MongoStorage_Nack M d m = update_message M d m (nack_update m)"

text \<open>The errors of the two clients when they disconnect.\<close>

definition MongoStorage_Close :: "go_error option \<Rightarrow> go_error option \<Rightarrow> go_error option" where
  "MongoStorage_Close err secondErr = (case err of Some e \<Rightarrow> Some e | None \<Rightarrow> secondErr)"

definition mongo_storage :: "('d, 'k) Mongo \<Rightarrow> 'd Storage" where
  "mongo_storage M =
     \<lparr>s_Insert = MongoStorage_Insert M, s_Find = (\<lambda>now. MongoStorage_Find M), s_Remove = MongoStorage_Remove M,
      s_Ack = MongoStorage_Ack M, s_Nack = MongoStorage_Nack M, s_ListQueueNames = MongoStorage_ListQueueNames M,
      s_ListQueuePrefixes = MongoStorage_ListQueuePrefixes M, s_Count = MongoStorage_Count M,
      s_GetStringInternalId = (\<lambda>d. MongoStorage_GetStringInternalId M),
      s_EditQueueConfiguration = MongoStorage_EditQueueConfiguration M,
      s_GetQueueConfiguration = MongoStorage_GetQueueConfiguration M,
      s_ListQueueConfigurations = MongoStorage_ListQueueConfigurations M, s_Flush = MongoStorage_Flush M\<rparr>"

end
