(* ===== verification/Mongo_Contract.thy ===== *)
theory Mongo_Contract
  imports Mongo_Storage
begin

text \<open>
  The invariant of the documents that the MongoDB storage writes, whatever the connection does, and its contract.
  Every document has a queue and an id that no other document has, and fields of the types that the struct
  \<^verbatim>\<open>Message\<close> needs.
\<close>

section \<open>The invariant\<close>

definition doc_key :: "document \<Rightarrow> string \<times> string" where
  "doc_key x = (bson_string (x ''queue''), bson_string (x ''id''))"

definition doc_named :: "document \<Rightarrow> bool" where
  "doc_named x \<longleftrightarrow> (\<exists>q i oid. x ''queue'' = Some (BString q) \<and> x ''id'' = Some (BString i) \<and>
     x ''_id'' = Some (BObjectID oid) \<and> q \<noteq> [] \<and> i \<noteq> [])"

definition docs_ok :: "document list \<Rightarrow> bool" where
  "docs_ok D \<longleftrightarrow> distinct (map doc_key D) \<and> distinct (map (\<lambda>x. x ''_id'') D) \<and>
     (\<forall>x\<in>set D. doc_named x \<and> well_typed x)"

definition mongo_inv :: "('d \<Rightarrow> document list) \<Rightarrow> 'd \<Rightarrow> bool" where
  "mongo_inv docs d \<longleftrightarrow> docs_ok (docs d)"

definition mongo_stored :: "('d \<Rightarrow> document list) \<Rightarrow> 'd \<Rightarrow> stored_ids" where
  "mongo_stored docs d = doc_key ` set (docs d)"

lemma doc_key_decode [simp]: "message_key (decode_message x) = doc_key x"
  by (simp add: message_key_def decode_message_def doc_key_def)

lemma named_key:
  assumes "doc_named x"
  shows "x ''queue'' = Some (BString q) \<longleftrightarrow> fst (doc_key x) = q" "x ''id'' = Some (BString i) \<longleftrightarrow> snd (doc_key x) = i"
    "fst (doc_key x) \<noteq> []" "snd (doc_key x) \<noteq> []"
  using assms by (auto simp: doc_named_def doc_key_def bson_string_def)

lemma field_matches_string [simp]: "field_matches (BString s) v \<longleftrightarrow> v = Some (BString s)"
  by (auto simp: field_matches_def split: option.splits)

lemma matches_message:
  "doc_named x \<Longrightarrow> doc_matches (message_filter m) x \<longleftrightarrow> doc_key x = message_key m"
  by (auto simp: doc_matches_def message_filter_def named_key message_key_def prod_eq_iff)

section \<open>Updates\<close>

lemma set_fields_other: "k \<notin> fst ` set m \<Longrightarrow> set_fields m x k = x k"
  unfolding set_fields_def by (induction m arbitrary: x) auto

lemma inc_fields_other: "k \<notin> fst ` set m \<Longrightarrow> inc_fields m x k = x k"
  unfolding inc_fields_def by (induction m arbitrary: x) auto

lemma typed_field: "well_typed x \<Longrightarrow> field_type k v \<Longrightarrow> well_typed (x(k \<mapsto> v))"
  by (simp add: well_typed_def)

lemma set_fields_typed:
  assumes "well_typed x" "\<forall>(k, v)\<in>set m. field_type k (stored_value v)"
  shows "well_typed (set_fields m x)"
  using assms unfolding set_fields_def
  by (induction m arbitrary: x) (auto simp: typed_field simp del: fun_upd_apply)

text \<open>Values that may be added to whatever a field holds.\<close>

definition inc_typed :: "string \<Rightarrow> bson \<Rightarrow> bool" where
  "inc_typed k v \<longleftrightarrow> field_type k v \<and> (\<forall>w. field_type k w \<longrightarrow> field_type k (bson_plus w v))"

lemma inc_fields_typed:
  assumes "well_typed x" "\<forall>(k, v)\<in>set m. inc_typed k v"
  shows "well_typed (inc_fields m x)"
  using assms unfolding inc_fields_def
proof (induction m arbitrary: x)
  case (Cons a m)
  obtain k v where a: "a = (k, v)" by fastforce
  have "well_typed (x(k \<mapsto> (case x k of None \<Rightarrow> v | Some w \<Rightarrow> bson_plus w v)))"
    using Cons.prems a by (auto simp: well_typed_def inc_typed_def split: option.splits)
  then show ?case using Cons a by (simp del: fun_upd_apply)
qed simp

definition key_fields :: "string set" where
  "key_fields = {''id'', ''queue'', ''_id''}"

text \<open>Updates that keep documents well-formed: the right types, and no field of the key.\<close>

definition update_ok :: "bson_M \<Rightarrow> bool" where
  "update_ok u \<longleftrightarrow> (\<forall>(k, v)\<in>set (update_part ''$set'' u). k \<notin> key_fields \<and> field_type k (stored_value v)) \<and>
     (\<forall>(k, v)\<in>set (update_part ''$inc'' u). k \<notin> key_fields \<and> inc_typed k v) \<and>
     (\<forall>(k, v)\<in>set (update_part ''$setOnInsert'' u). k \<notin> key_fields \<and> field_type k (stored_value v))"

lemma apply_update_key:
  assumes "update_ok u" "k \<in> key_fields"
  shows "apply_update b u x k = x k"
proof -
  have n: "k \<notin> fst ` set (update_part ''$set'' u)" "k \<notin> fst ` set (update_part ''$inc'' u)"
    "k \<notin> fst ` set (update_part ''$setOnInsert'' u)"
    using assms by (auto simp: update_ok_def)
  then show ?thesis by (simp add: apply_update_def Let_def set_fields_other inc_fields_other)
qed

lemma apply_update_keys:
  assumes "update_ok u"
  shows "doc_key (apply_update b u x) = doc_key x" "doc_named (apply_update b u x) = doc_named x"
    "apply_update b u x ''_id'' = x ''_id''"
  using apply_update_key [OF assms] by (simp_all add: doc_key_def doc_named_def key_fields_def)

lemma apply_update_typed:
  assumes "update_ok u" "well_typed x"
  shows "well_typed (apply_update b u x)"
proof -
  have t: "\<forall>(k, v)\<in>set (update_part ''$set'' u). field_type k (stored_value v)"
    "\<forall>(k, v)\<in>set (update_part ''$inc'' u). inc_typed k v"
    "\<forall>(k, v)\<in>set (update_part ''$setOnInsert'' u). field_type k (stored_value v)"
    using assms(1) by (auto simp: update_ok_def)
  show ?thesis
    using set_fields_typed [OF _ t(3)] inc_fields_typed [OF set_fields_typed [OF assms(2) t(1)] t(2)]
    by (simp add: apply_update_def Let_def)
qed

lemma map_update_same: "i < length D \<Longrightarrow> f y = f (D ! i) \<Longrightarrow> map f (D[i := y]) = map f D"
  by (simp add: map_update list_update_same_conv)

lemma updates_one_ok:
  assumes "updates_one f u D D'" "update_ok u" "docs_ok D"
  shows "docs_ok D'" "map doc_key D' = map doc_key D"
proof -
  obtain i where i: "i < length D" "D' = D[i := apply_update False u (D ! i)]"
    using assms(1) by (auto simp: updates_one_def)
  have m: "map doc_key D' = map doc_key D" "map (\<lambda>x. x ''_id'') D' = map (\<lambda>x. x ''_id'') D"
    using i apply_update_keys [OF assms(2)] by (simp_all add: map_update_same)
  have o: "doc_named (D ! i)" "well_typed (D ! i)" using assms(3) i by (simp_all add: docs_ok_def)
  have "doc_named x \<and> well_typed x" if "x \<in> set D'" for x
  proof (cases "x \<in> set D")
    case False
    then have "x = apply_update False u (D ! i)" using that i(2) set_update_subset_insert by fastforce
    then show ?thesis using apply_update_keys(2) [OF assms(2)] apply_update_typed [OF assms(2) o(2)] o(1) by simp
  qed (use assms(3) in \<open>simp add: docs_ok_def\<close>)
  then show "docs_ok D'" "map doc_key D' = map doc_key D" using m assms(3) by (simp_all add: docs_ok_def)
qed

lemma has_kind_plus: "has_kind KInt w \<Longrightarrow> has_kind KInt (bson_plus w (BInt n))"
  "has_kind KFloat w \<Longrightarrow> has_kind KFloat (bson_plus w (BFloat f))"
  by (cases w; simp add: bson_plus_def)+

lemma inc_typed_number:
  "map_of message_fields k = Some KInt \<Longrightarrow> inc_typed k (BInt n)"
  "map_of message_fields k = Some KFloat \<Longrightarrow> inc_typed k (BFloat f)"
  by (simp_all add: inc_typed_def field_type_def has_kind_plus)

lemma stored_ref: "has_kind KTimeRef (stored_value (BTimeRef o'))"
  by (cases o') auto

lemmas update_simps = update_ok_def update_part_def key_fields_def field_type_def inc_typed_number message_fields_def

lemma ack_update_ok: "update_ok (ack_update m)"
  by (simp add: ack_update_def update_simps stored_ref del: stored_value.simps(2,3))

lemma nack_update_ok: "update_ok (nack_update m)"
  by (simp add: nack_update_def update_simps)

lemma insert_fields_typed: "list_all (\<lambda>(k, v). k \<notin> key_fields \<and> field_type k (stored_value v)) (insert_fields m)"
  by (simp add: insert_fields_def update_simps split: option.splits)

lemma insert_update_ok: "update_ok (snd (insert_model now m))"
  using insert_fields_typed [of m] by (simp add: insert_model_def update_ok_def update_part_def list_all_iff)
    (simp add: update_simps)

section \<open>Upserts\<close>

lemma inserted_document_ok:
  fixes m now oid
  assumes "msg_Queue m \<noteq> []" "msg_ID m \<noteq> []"
  defines "x \<equiv> inserted_document (message_filter m) (snd (insert_model now m)) oid"
  shows "doc_key x = message_key m" "doc_named x" "well_typed x" "x ''_id'' = Some (BObjectID oid)"
proof -
  let ?y = "(set_fields (message_filter m) Map.empty)(''_id'' \<mapsto> BObjectID oid)"
  note k = apply_update_keys [OF insert_update_ok, of True now m ?y]
  have y: "?y ''queue'' = Some (BString (msg_Queue m))" "?y ''id'' = Some (BString (msg_ID m))"
    by (simp_all add: set_fields_def message_filter_def)
  show "doc_key x = message_key m" "doc_named x" "x ''_id'' = Some (BObjectID oid)"
    using k y assms(1,2) by (auto simp: x_def inserted_document_def doc_key_def doc_named_def message_key_def bson_string_def)
  have "well_typed (set_fields (message_filter m) Map.empty)"
    by (rule set_fields_typed) (simp_all add: well_typed_def message_filter_def field_type_def message_fields_def)
  then have "well_typed ?y" by (rule typed_field) (simp add: field_type_def message_fields_def)
  then show "well_typed x" unfolding x_def inserted_document_def by (rule apply_update_typed [OF insert_update_ok])
qed

lemma upserts_one_ok:
  assumes "upserts_one (message_filter m) (snd (insert_model now m)) D D'" "docs_ok D"
    and "msg_Queue m \<noteq> []" "msg_ID m \<noteq> []"
  shows "docs_ok D' \<and> doc_key ` set D' = insert (message_key m) (doc_key ` set D)"
proof (cases "updates_one (message_filter m) (snd (insert_model now m)) D D'")
  case True
  note u = updates_one_ok [OF True insert_update_ok assms(2)]
  obtain i where i: "i < length D" "doc_matches (message_filter m) (D ! i)" using True by (auto simp: updates_one_def)
  then have "doc_key (D ! i) = message_key m" using assms(2) matches_message by (simp add: docs_ok_def)
  then have "message_key m \<in> doc_key ` set D" using i(1) by (metis image_eqI nth_mem)
  moreover have "doc_key ` set D' = doc_key ` set D" using u(2) by (metis set_map)
  ultimately show ?thesis using u(1) by auto
next
  case False
  then obtain oid where o: "\<forall>x\<in>set D. \<not> doc_matches (message_filter m) x" "\<forall>x\<in>set D. x ''_id'' \<noteq> Some (BObjectID oid)"
    "D' = D @ [inserted_document (message_filter m) (snd (insert_model now m)) oid]"
    using assms(1) by (auto simp: upserts_one_def)
  note x = inserted_document_ok [OF assms(3,4), of now oid]
  have "message_key m \<notin> doc_key ` set D" using o(1) assms(2) matches_message by (force simp: docs_ok_def)
  then show ?thesis using o(2,3) x assms(2) by (auto simp: docs_ok_def)
qed

lemma upserts_ok:
  assumes "upserts us D D'" "set us \<subseteq> insert_model now ` {m. msg_Queue m \<noteq> [] \<and> msg_ID m \<noteq> []}" "docs_ok D"
  shows "docs_ok D' \<and> doc_key ` set D' = doc_key ` set D \<union> {(q, i). \<exists>u\<in>set us. fst u = [(''id'', BString i), (''queue'', BString q)]}"
  using assms
proof (induction us D D' rule: upserts.induct)
  case (upserts_cons f u D D1 us D2)
  obtain m where m: "f = message_filter m" "u = snd (insert_model now m)" "msg_Queue m \<noteq> []" "msg_ID m \<noteq> []"
    using upserts_cons.prems(1) by (auto simp: insert_model_def)
  note one = upserts_one_ok [OF upserts_cons.hyps(1) [unfolded m(1,2)] upserts_cons.prems(2) m(3,4)]
  have "set us \<subseteq> insert_model now ` {m. msg_Queue m \<noteq> [] \<and> msg_ID m \<noteq> []}" using upserts_cons.prems(1) by simp
  from upserts_cons.IH [OF this] one show ?case by (auto simp: m(1) message_filter_def message_key_def)
qed simp

lemma insert_updates_Inr:
  "insert_updates now ms us = Inr r \<Longrightarrow> r = us @ map (insert_model now) ms \<and> (\<forall>m\<in>set ms. msg_Queue m \<noteq> [] \<and> msg_ID m \<noteq> [])"
  by (induction ms arbitrary: us) (fastforce split: if_splits)+

lemma filter_key_image:
  "{(q, i). \<exists>u\<in>insert_model now ` set ms. fst u = [(''id'', BString i), (''queue'', BString q)]} = message_key ` set ms"
  by (auto simp: insert_model_def message_filter_def message_key_def)

section \<open>Deletions and searches\<close>

lemma docs_ok_filter: "docs_ok D \<Longrightarrow> docs_ok (filter P D)"
  by (simp add: docs_ok_def distinct_map_filter)

lemma matches_chunk:
  "doc_named x \<Longrightarrow> doc_matches [(''queue'', BString q), (''id'', BM [(''$in'', BStrings ids)])] x \<longleftrightarrow> doc_key x \<in> {q} \<times> set ids"
  by (auto simp: doc_matches_def doc_named_def doc_key_def bson_string_def field_matches_def)

lemma matches_ids:
  assumes "doc_named x" "ids \<noteq> []"
  shows "doc_matches (ids_condition (Some ids)) x \<longleftrightarrow> snd (doc_key x) \<in> set ids"
proof (cases "length ids = 1")
  case True
  then obtain i where "ids = [i]" by (cases ids) auto
  then show ?thesis using named_key [OF assms(1)] by (simp add: ids_condition_def doc_matches_def)
next
  case False
  obtain i where "x ''id'' = Some (BString i)" "snd (doc_key x) = i"
    using assms(1) by (auto simp: doc_named_def doc_key_def bson_string_def)
  then show ?thesis using False assms(2) by (auto simp: ids_condition_def doc_matches_def field_matches_def)
qed

lemma project_key: "keeps_key (Some fo) \<Longrightarrow> doc_key (project (getMongoProjection (fo_Projection fo)) x) = doc_key x"
  by (auto simp: doc_key_def project_def getMongoProjection_def keeps_key_def map_of_map Let_def split: option.splits)

lemma project_none [simp]: "project [] x = x"
  by (simp add: project_def fun_eq_iff Let_def)

lemma image_filter:
  assumes "\<And>x. x \<in> set D \<Longrightarrow> P x \<longleftrightarrow> f x \<in> K"
  shows "f ` set (filter P D) = f ` set D \<inter> K" "f ` set (filter (\<lambda>x. \<not> P x) D) = f ` set D - K"
  using assms by auto

context mongo
begin

lemma bulk_any:
  assumes "mg_BulkWrite M d messagesCollection us = (d', r)"
  shows "\<exists>us'. mset us' \<subseteq># mset us \<and> (r \<in> range Inr \<longrightarrow> mset us' = mset us) \<and> upserts us' (docs d) (docs d')"
proof (cases r)
  case (Inl e)
  then show ?thesis using bulk_write_error [of d us d' e] assms by auto
next
  case (Inr n)
  obtain i up m where "n = (i, up, m)" by (rule prod_cases3)
  then obtain us' where "mset us' = mset us" "upserts us' (docs d) (docs d')"
    using bulk_write [of d us d' i up m] assms Inr by auto
  then show ?thesis by (intro exI [of _ us']) simp
qed

lemma Insert_ok:
  assumes "docs_ok (docs d)" "MongoStorage_Insert M now d ms = (d', r)"
  shows "docs_ok (docs d')" "mongo_stored docs d \<subseteq> mongo_stored docs d'"
    "r = Inr n \<Longrightarrow> mongo_stored docs d' = mongo_stored docs d \<union> message_key ` set ms"
proof -
  have "docs_ok (docs d') \<and> mongo_stored docs d \<subseteq> mongo_stored docs d' \<and>
    (r = Inr n \<longrightarrow> mongo_stored docs d' = mongo_stored docs d \<union> message_key ` set ms)"
  proof (cases "insert_updates now ms []")
    case (Inr us)
    have us: "us = map (insert_model now) ms" "\<forall>m\<in>set ms. msg_Queue m \<noteq> [] \<and> msg_ID m \<noteq> []"
      using insert_updates_Inr [OF Inr] by simp_all
    obtain rb where b: "mg_BulkWrite M d messagesCollection us = (d', rb)" and rb: "\<And>k. r = Inr k \<Longrightarrow> rb \<in> range Inr"
      using assms(2) Inr by (auto simp: MongoStorage_Insert_def split: prod.splits sum.splits)
    obtain us' where u: "mset us' \<subseteq># mset us" "rb \<in> range Inr \<longrightarrow> mset us' = mset us" "upserts us' (docs d) (docs d')"
      using bulk_any [OF b] by blast
    have "set us' \<subseteq> set us" using u(1) set_mset_mono by fastforce
    then have sub: "set us' \<subseteq> insert_model now ` {m. msg_Queue m \<noteq> [] \<and> msg_ID m \<noteq> []}" using us by auto
    note k = upserts_ok [OF u(3) sub assms(1)]
    have "set us' = insert_model now ` set ms" if "r = Inr n"
      using u(2) rb [OF that] us(1) by (metis mset_eq_setD set_map)
    then show ?thesis using k filter_key_image [of now ms] by (auto simp: mongo_stored_def)
  qed (use assms in \<open>auto simp: MongoStorage_Insert_def\<close>)
  then show "docs_ok (docs d')" "mongo_stored docs d \<subseteq> mongo_stored docs d'"
    "r = Inr n \<Longrightarrow> mongo_stored docs d' = mongo_stored docs d \<union> message_key ` set ms" by blast+
qed

lemma update_message_ok:
  assumes "docs_ok (docs d)" "update_ok u" "update_message M d m u = (d', r)"
  shows "mongo_stored docs d' = mongo_stored docs d \<and> docs_ok (docs d')"
proof -
  obtain r0 where b: "mg_UpdateOne M d messagesCollection (message_filter m) u False = (d', r0)"
    using assms(3) by (auto simp: update_message_def split: prod.splits)
  have "updates_one (message_filter m) u (docs d) (docs d') \<or> docs d' = docs d"
    using update_one [of d] update_one_error [of d] b by (cases r0) blast+
  then show ?thesis
    using updates_one_ok [OF _ assms(2,1)] assms(1) unfolding mongo_stored_def by (metis set_map)
qed

lemma delete_ok:
  assumes "docs_ok (docs d)" "mg_DeleteMany M d messagesCollection f = (d', r)"
  shows "docs_ok (docs d')" "mongo_stored docs d' \<subseteq> mongo_stored docs d"
    "\<And>k. k \<in> mongo_stored docs d \<Longrightarrow> \<forall>x\<in>set (docs d). doc_key x = k \<longrightarrow> \<not> doc_matches f x \<Longrightarrow> k \<in> mongo_stored docs d'"
proof -
  obtain P where p: "docs d' = filter P (docs d)" "\<forall>x\<in>set (docs d). \<not> doc_matches f x \<longrightarrow> P x"
    using delete_many [of d f d'] delete_many_error [of d f d'] assms(2) by (cases r) fastforce+
  show "docs_ok (docs d')" using docs_ok_filter [OF assms(1)] p by simp
  show "mongo_stored docs d' \<subseteq> mongo_stored docs d" using p by (auto simp: mongo_stored_def)
  show "k \<in> mongo_stored docs d'" if "k \<in> mongo_stored docs d" "\<forall>x\<in>set (docs d). doc_key x = k \<longrightarrow> \<not> doc_matches f x" for k
    using that p by (auto simp: mongo_stored_def)
qed

lemma chunk_deleted:
  assumes "docs_ok (docs d)" "attemptChunkDeletion M d i ids q = (d', Inr n)"
  shows "mongo_stored docs d' = mongo_stored docs d - {q} \<times> set (take deleteChunkSize (drop i ids))"
    "n = int (card (mongo_stored docs d \<inter> {q} \<times> set (take deleteChunkSize (drop i ids))))"
proof -
  let ?chunk = "take deleteChunkSize (drop i ids)"
  let ?f = "[(''queue'', BString q), (''id'', BM [(''$in'', BStrings ?chunk)])]"
  have "take ((if i + deleteChunkSize > length ids then length ids else i + deleteChunkSize) - i) (drop i ids) = ?chunk"
    by simp
  then have d: "mg_DeleteMany M d messagesCollection ?f = (d', Inr n)"
    using assms(2) by (simp add: attemptChunkDeletion_def Let_def)
  have m: "doc_matches ?f x \<longleftrightarrow> doc_key x \<in> {q} \<times> set ?chunk" if "x \<in> set (docs d)" for x
    by (rule matches_chunk) (use assms(1) that in \<open>simp add: docs_ok_def\<close>)
  have l: "docs d' = filter (\<lambda>x. \<not> doc_matches ?f x) (docs d)" "n = int (length (filter (doc_matches ?f) (docs d)))"
    using delete_many [OF d] by blast+
  show "mongo_stored docs d' = mongo_stored docs d - {q} \<times> set ?chunk"
    unfolding mongo_stored_def l(1) by (rule image_filter(2) [OF m])
  have "distinct (map doc_key (filter (doc_matches ?f) (docs d)))"
    using assms(1) by (simp add: docs_ok_def distinct_map_filter)
  from distinct_card [OF this]
  have "length (filter (doc_matches ?f) (docs d)) = card (doc_key ` set (filter (doc_matches ?f) (docs d)))" by simp
  also have "doc_key ` set (filter (doc_matches ?f) (docs d)) = mongo_stored docs d \<inter> {q} \<times> set ?chunk"
    unfolding mongo_stored_def by (rule image_filter(1) [OF m])
  finally show "n = int (card (mongo_stored docs d \<inter> {q} \<times> set ?chunk))" using l(2) by simp
qed

lemma chunk_any:
  assumes "docs_ok (docs d)" "attemptChunkDeletion M d i ids q = (d', r)"
  shows "docs_ok (docs d')" "mongo_stored docs d' \<subseteq> mongo_stored docs d" "mongo_stored docs d - {q} \<times> set ids \<subseteq> mongo_stored docs d'"
proof -
  obtain chunk where c: "set chunk \<subseteq> set ids"
    "mg_DeleteMany M d messagesCollection [(''queue'', BString q), (''id'', BM [(''$in'', BStrings chunk)])] = (d', r)"
    using assms(2) by (auto simp: attemptChunkDeletion_def Let_def dest: in_set_takeD in_set_dropD)
  note a = delete_ok [OF assms(1) c(2)]
  show "docs_ok (docs d')" "mongo_stored docs d' \<subseteq> mongo_stored docs d" by (fact a(1), fact a(2))
  show "mongo_stored docs d - {q} \<times> set ids \<subseteq> mongo_stored docs d'"
  proof
    fix k assume k: "k \<in> mongo_stored docs d - {q} \<times> set ids"
    have "\<not> doc_matches [(''queue'', BString q), (''id'', BM [(''$in'', BStrings chunk)])] x"
      if "x \<in> set (docs d)" "doc_key x = k" for x
      using matches_chunk [of x q chunk] that k c(1) assms(1) by (auto simp: docs_ok_def)
    then show "k \<in> mongo_stored docs d'" using a(3) k by blast
  qed
qed

lemma remove_chunks_ok:
  assumes "docs_ok (docs d)" "remove_chunks M q ids i deleted d = (d', r)"
  shows "docs_ok (docs d')" "mongo_stored docs d' \<subseteq> mongo_stored docs d" "mongo_stored docs d - {q} \<times> set ids \<subseteq> mongo_stored docs d'"
    "r = Inr k \<Longrightarrow> mongo_stored docs d' = mongo_stored docs d - {q} \<times> set (drop i ids)"
proof -
  have "docs_ok (docs d') \<and> mongo_stored docs d' \<subseteq> mongo_stored docs d \<and> mongo_stored docs d - {q} \<times> set ids \<subseteq> mongo_stored docs d' \<and>
    (r = Inr k \<longrightarrow> mongo_stored docs d' = mongo_stored docs d - {q} \<times> set (drop i ids))"
    using assms
  proof (induction "length ids - i" arbitrary: i deleted d rule: less_induct)
    case less
    obtain d1 r1 where c: "attemptChunkDeletion M d i ids q = (d1, r1)" by (meson surj_pair)
    note a = chunk_any [OF less.prems(1) c]
    note eq = remove_chunks.simps [of M q ids i deleted d]
    show ?case
    proof (cases "i < length ids")
      case True
      show ?thesis
      proof (cases r1)
        case (Inl e)
        then show ?thesis using less.prems(2) eq True c a by auto
      next
        case (Inr n)
        have r: "remove_chunks M q ids (i + deleteChunkSize) (wrap64 (deleted + n)) d1 = (d', r)"
          using less.prems(2) eq True c Inr by simp
        have m: "length ids - (i + deleteChunkSize) < length ids - i" using True by (simp add: deleteChunkSize_def)
        note ih = less.hyps [OF m a(1) r]
        have "set (drop i ids) = set (take deleteChunkSize (drop i ids)) \<union> set (drop (i + deleteChunkSize) ids)"
          using append_take_drop_id [of deleteChunkSize "drop i ids"] by (metis add.commute drop_drop set_append)
        then have "mongo_stored docs d' = mongo_stored docs d - {q} \<times> set (drop i ids)" if "r = Inr k"
          using ih that chunk_deleted(1) [OF less.prems(1) c [unfolded Inr]] by auto
        moreover have "mongo_stored docs d - {q} \<times> set ids \<subseteq> mongo_stored docs d'"
          using a(3) ih by blast
        ultimately show ?thesis using ih a(2) by blast
      qed
    qed (use less.prems eq in auto)
  qed
  then show "docs_ok (docs d')" "mongo_stored docs d' \<subseteq> mongo_stored docs d" "mongo_stored docs d - {q} \<times> set ids \<subseteq> mongo_stored docs d'"
    "r = Inr k \<Longrightarrow> mongo_stored docs d' = mongo_stored docs d - {q} \<times> set (drop i ids)" by blast+
qed

lemma Remove_ok:
  assumes "docs_ok (docs d)" "MongoStorage_Remove M d q ids = (d', r)"
  shows "docs_ok (docs d')" "mongo_stored docs d' \<subseteq> mongo_stored docs d" "mongo_stored docs d - {q} \<times> set ids \<subseteq> mongo_stored docs d'"
    "r = Inr k \<Longrightarrow> mongo_stored docs d' = mongo_stored docs d - {q} \<times> set ids"
  using remove_chunks_ok [OF assms(1), of q ids 0 0 d' r] assms by (auto simp: MongoStorage_Remove_def split: if_splits)

lemma Flush_ok:
  assumes "docs_ok (docs d)" "MongoStorage_Flush M d = (d', r)"
  shows "docs_ok (docs d')" "mongo_stored docs d' \<subseteq> mongo_stored docs d" "r = Inr k \<Longrightarrow> mongo_stored docs d' = {}"
proof -
  obtain d1 r1 where a: "mg_DeleteMany M d messagesCollection [] = (d1, r1)" by (meson surj_pair)
  obtain d2 r2 where b: "mg_DeleteMany M d1 queueConfigurationCollection [] = (d2, r2)" by (meson surj_pair)
  have e: "docs d2 = docs d1" by (rule delete_configurations [OF b])
  have "docs d' = docs d1" "r = Inr k \<Longrightarrow> r1 \<in> range Inr"
    using assms(2) a b e by (auto simp: MongoStorage_Flush_def split: sum.splits)
  moreover have "mongo_stored docs d1 = {}" if "r1 = Inr n" for n
    using delete_many [OF a [unfolded that]] by (simp add: mongo_stored_def doc_matches_def)
  ultimately show "docs_ok (docs d')" "mongo_stored docs d' \<subseteq> mongo_stored docs d" "r = Inr k \<Longrightarrow> mongo_stored docs d' = {}"
    using delete_ok(1,2) [OF assms(1) a] by (auto simp: mongo_stored_def)
qed

lemma Edit_ok: "MongoStorage_EditQueueConfiguration M d cfg = (d', e) \<Longrightarrow> docs d' = docs d"
  using update_configuration by (auto simp: MongoStorage_EditQueueConfiguration_def Let_def split: if_splits prod.splits)

lemma Find_Inr:
  assumes "MongoStorage_Find M d opt = Inr ms" "fo = (case opt of None \<Rightarrow> zero_FindOptions | Some fo \<Rightarrow> fo)"
  obtains f found where "getMongoMessage M fo = Inr f"
    "mset found \<subseteq># mset (filter (doc_matches f) (if fo_Retry fo then docs d else seen d))"
    "length found = (let n = length (filter (doc_matches f) (if fo_Retry fo then docs d else seen d))
       in if fo_Limit fo > 0 then min (nat (fo_Limit fo)) n else n)"
    "ms = map (decode_message \<circ> project (getMongoProjection (fo_Projection fo))) found"
proof -
  obtain f where f: "getMongoMessage M fo = Inr f"
    using assms by (auto simp: MongoStorage_Find_def Let_def split: sum.splits)
  let ?o = "\<lparr>mf_Projection = getMongoProjection (fo_Projection fo), mf_Sort = getMongoSort (fo_Sort fo),
     mf_Limit = fo_Limit fo, mf_BatchSize = find_batch_size (fo_Limit fo), mf_Comment = fo_Comment fo\<rparr>"
  let ?c = "if fo_Retry fo then messagesCollectionPrimaryRead else messagesCollection"
  obtain k where k: "mg_Find M d ?c f (Some ?o) = Inr k" "mg_AllMessages M k = Inr ms"
    using assms(1) f by (auto simp: MongoStorage_Find_def Let_def assms(2) [symmetric] split: sum.splits if_splits)
  have "?c \<noteq> queueConfigurationCollection" by simp
  from find [OF k this] show thesis using that [OF f] by (auto simp: Let_def split: if_splits)
qed

end

context mongo_current
begin

lemma Find_current:
  assumes "MongoStorage_Find M d opt = Inr ms" "fo = (case opt of None \<Rightarrow> zero_FindOptions | Some fo \<Rightarrow> fo)"
  obtains f found where "getMongoMessage M fo = Inr f" "mset found \<subseteq># mset (filter (doc_matches f) (docs d))"
    "length found = (let n = length (filter (doc_matches f) (docs d))
       in if fo_Limit fo > 0 then min (nat (fo_Limit fo)) n else n)"
    "ms = map (decode_message \<circ> project (getMongoProjection (fo_Projection fo))) found"
proof -
  have s: "(if fo_Retry fo then docs d else seen d) = docs d" by (simp add: current)
  show thesis by (rule Find_Inr [OF assms, unfolded s]) (rule that)
qed

lemma Find_stored:
  assumes "keeps_key opt" "MongoStorage_Find M d opt = Inr ms"
  shows "message_key ` set ms \<subseteq> mongo_stored docs d"
proof -
  define fo where fo: "fo = (case opt of None \<Rightarrow> zero_FindOptions | Some fo \<Rightarrow> fo)"
  have k: "keeps_key (Some fo)" using assms(1) by (cases opt) (simp_all add: fo keeps_key_def zero_FindOptions_def)
  obtain f found where f: "getMongoMessage M fo = Inr f" "mset found \<subseteq># mset (filter (doc_matches f) (docs d))"
    "length found = (let n = length (filter (doc_matches f) (docs d))
       in if fo_Limit fo > 0 then min (nat (fo_Limit fo)) n else n)"
    "ms = map (decode_message \<circ> project (getMongoProjection (fo_Projection fo))) found"
    by (rule Find_current [OF assms(2) fo])
  have "set found \<subseteq> set (docs d)" using set_mset_mono [OF f(2)] by auto
  then show ?thesis by (auto simp: f(4) mongo_stored_def project_key [OF k])
qed

lemma ids_filter_mongo:
  assumes "ids_filter q ids fo" "ids \<noteq> []" "q \<noteq> []" "getMongoMessage M fo = Inr f" "doc_named x"
  shows "doc_matches f x \<longleftrightarrow> doc_key x \<in> {q} \<times> set ids"
proof -
  have "f = ids_condition (Some ids) @ [(''queue'', BString q)]"
    using assms(1-4) by (simp add: getMongoMessage_def ids_filter_def breakpoint_condition_def zero_InternalFilter_def)
  then have "doc_matches f x \<longleftrightarrow> doc_matches (ids_condition (Some ids)) x \<and> x ''queue'' = Some (BString q)"
    by (auto simp: doc_matches_def)
  then show ?thesis
    using matches_ids [OF assms(5,2)] named_key [OF assms(5)] by (auto simp: mem_Times_iff)
qed

lemma Find_ids:
  assumes "docs_ok (docs d)" "ids \<noteq> []" "q \<noteq> []" "ids_filter q ids fo" "MongoStorage_Find M d (Some fo) = Inr r"
  shows "distinct (map msg_ID r)" "\<forall>m\<in>set r. msg_Queue m = q \<and> msg_ID m \<in> set ids"
    "\<forall>i\<in>set ids. (q, i) \<in> mongo_stored docs d \<longrightarrow> i \<in> msg_ID ` set r"
proof -
  have o: "fo = (case Some fo of None \<Rightarrow> zero_FindOptions | Some fo \<Rightarrow> fo)" by simp
  obtain f found where f: "getMongoMessage M fo = Inr f" and sub: "mset found \<subseteq># mset (filter (doc_matches f) (docs d))"
    and n: "length found = (let n = length (filter (doc_matches f) (docs d))
       in if fo_Limit fo > 0 then min (nat (fo_Limit fo)) n else n)"
    and ms: "r = map (decode_message \<circ> project (getMongoProjection (fo_Projection fo))) found"
    by (rule Find_current [OF assms(5) o])
  have len: "length found = min (length ids) (length (filter (doc_matches f) (docs d)))" and r: "r = map decode_message found"
    using n ms assms(2,4) by (simp_all add: ids_filter_def getMongoProjection_def Let_def comp_def)
  have m: "doc_matches f x \<longleftrightarrow> doc_key x \<in> {q} \<times> set ids" if "x \<in> set (docs d)" for x
    by (rule ids_filter_mongo [OF assms(4,2,3) f]) (use that assms(1) in \<open>simp add: docs_ok_def\<close>)
  let ?h = "filter (doc_matches f) (docs d)"
  have keys: "doc_key ` set ?h = mongo_stored docs d \<inter> {q} \<times> set ids"
    unfolding mongo_stored_def by (rule image_filter(1) [OF m])
  have dh: "distinct (map doc_key ?h)" using assms(1) by (simp add: docs_ok_def distinct_map_filter)
  have "length ?h = card (doc_key ` set ?h)" using distinct_card [OF dh] by simp
  also have "\<dots> \<le> card ({q} \<times> set ids)" unfolding keys by (rule card_mono) auto
  also have "\<dots> \<le> length ids" by (simp add: card_cartesian_product_singleton card_length)
  finally have lf: "length found = length ?h" using len by simp
  have "\<not> mset found \<subset># mset ?h" using mset_subset_size [of "mset found" "mset ?h"] lf by (metis less_irrefl size_mset)
  then have eq: "mset found = mset ?h" using sub subset_mset.le_imp_less_or_eq by blast
  have df: "distinct (map doc_key found)" using dh eq by (metis mset_eq_imp_distinct_iff mset_map)
  have kf: "doc_key ` set found = mongo_stored docs d \<inter> {q} \<times> set ids" using keys mset_eq_setD [OF eq] by simp
  have mk: "map message_key r = map doc_key found" by (simp add: r)
  then have d: "distinct (map message_key r)" using df by simp
  have q: "message_key ` set r = mongo_stored docs d \<inter> {q} \<times> set ids" using kf mk by (metis set_map)
  then show w: "\<forall>m\<in>set r. msg_Queue m = q \<and> msg_ID m \<in> set ids" by (auto simp: message_key_def)
  then have "map message_key r = map (Pair q) (map msg_ID r)" by (simp add: message_key_def)
  then show "distinct (map msg_ID r)" using d by (metis distinct_map)
  have "i \<in> msg_ID ` set r" if "i \<in> set ids" "(q, i) \<in> mongo_stored docs d" for i
  proof -
    have "(q, i) \<in> message_key ` set r" unfolding q using that by simp
    then show ?thesis by (auto simp: message_key_def)
  qed
  then show "\<forall>i\<in>set ids. (q, i) \<in> mongo_stored docs d \<longrightarrow> i \<in> msg_ID ` set r" by blast
qed

end

context mongo_reliable
begin

lemma remove_chunks_sure: "remove_chunks M q ids i deleted d \<noteq> (d', Inl e)"
proof (induction "length ids - i" arbitrary: i deleted d rule: less_induct)
  case less
  obtain d1 r1 where c: "attemptChunkDeletion M d i ids q = (d1, r1)" by (meson surj_pair)
  then obtain n where n: "r1 = Inr n"
    using delete_sure by (cases r1) (auto simp: attemptChunkDeletion_def Let_def)
  show ?case
  proof (cases "i < length ids")
    case True
    then have "length ids - (i + deleteChunkSize) < length ids - i" by (simp add: deleteChunkSize_def)
    from less [OF this] show ?thesis using remove_chunks.simps [of M q ids i deleted d] True c n by simp
  qed (use remove_chunks.simps [of M q ids i deleted d] in simp)
qed

lemma Remove_sure: "MongoStorage_Remove M d q ids \<noteq> (d', Inl e)"
  using remove_chunks_sure by (simp add: MongoStorage_Remove_def)

end

sublocale mongo_reliable \<subseteq> ms: storage_contract "mongo_storage M" "mongo_stored docs" "\<lambda>now d. {}" "\<lambda>i. True" "mongo_inv docs"
proof (unfold_locales, unfold mongo_storage_def Storage.select_convs mongo_inv_def, goal_cases)
  case 1
  then show ?case using Insert_ok(1,3) [OF 1(1,3)] by simp
next
  case 2
  then show ?case using Insert_ok(1,2) [OF 2(1,3)] by simp
next
  case 3
  then show ?case by (intro Find_stored)
next
  case 4
  then show ?case using Find_ids [OF 4] by simp
next
  case 5
  then show ?case using Remove_ok(1,4) [OF 5] by simp
next
  case 6
  then show ?case using Remove_sure by blast
next
  case 7
  then show ?case using update_message_ok [OF 7(1) ack_update_ok] by (simp add: MongoStorage_Ack_def)
next
  case 8
  then show ?case using update_message_ok [OF 8(1) nack_update_ok] by (simp add: MongoStorage_Nack_def)
next
  case 9
  then show ?case using Edit_ok [OF 9(2)] by (simp add: mongo_stored_def)
next
  case 10
  then show ?case using Flush_ok(1,3) [OF 10] by simp
next
  case 11
  then show ?case using Flush_ok(1,2) [OF 11] by simp
next
  case (12 d q i)
  then obtain x where x: "x \<in> set (docs d)" "doc_key x = (q, i)" by (metis imageE mongo_stored_def)
  then have "doc_named x" using 12(1) by (simp add: docs_ok_def)
  from named_key(3,4) [OF this] show ?case by (simp add: x(2))
qed

end
