(* ===== verification/Mongo_Model.thy ===== *)
theory Mongo_Model
  imports Mongo_Client
begin

text \<open>
  A small executable database that keeps the promises of \<open>mongo\<close>: documents as association lists, one server, and
  a connection that loses the answers to some of the writes. The witnesses of the properties about the MongoDB
  storage run on it.
\<close>

record mongo_db =
  db_docs :: "(string, bson) gomap list"
  db_configurations :: "(string, int64) gomap"
  db_writes :: nat

definition db_view :: "mongo_db \<Rightarrow> document list" where
  "db_view d = map map_of (db_docs d)"

definition db_set :: "bson_M \<Rightarrow> (string, bson) gomap \<Rightarrow> (string, bson) gomap" where
  "db_set m x = fold (\<lambda>(k, v) x. AList.update k (stored_value v) x) m x"

definition db_inc :: "bson_M \<Rightarrow> (string, bson) gomap \<Rightarrow> (string, bson) gomap" where
  "db_inc m x = fold (\<lambda>(k, v) x. AList.update k (case map_of x k of None \<Rightarrow> v | Some w \<Rightarrow> bson_plus w v) x) m x"

definition db_apply :: "bool \<Rightarrow> bson_M \<Rightarrow> (string, bson) gomap \<Rightarrow> (string, bson) gomap" where
  "db_apply inserted u x =
     (let y = db_inc (update_part ''$inc'' u) (db_set (update_part ''$set'' u) x)
      in if inserted then db_set (update_part ''$setOnInsert'' u) y else y)"

fun db_update :: "bson_M \<Rightarrow> bson_M \<Rightarrow> (string, bson) gomap list \<Rightarrow> (string, bson) gomap list option" where
  "db_update f u [] = None"
| "db_update f u (x # D) =
     (if doc_matches f (map_of x) then Some (db_apply False u x # D) else map_option ((#) x) (db_update f u D))"

definition db_fresh :: "(string, bson) gomap list \<Rightarrow> string" where
  "db_fresh D =
     replicate (Suc (sum_list (map (\<lambda>x. case map_of x ''_id'' of Some (BObjectID oid) \<Rightarrow> length oid | _ \<Rightarrow> 0) D)))
       (CHR ''0'')"

definition db_upsert :: "bson_M \<Rightarrow> bson_M \<Rightarrow> (string, bson) gomap list \<Rightarrow> (string, bson) gomap list" where
  "db_upsert f u D =
     (case db_update f u D of
        Some D' \<Rightarrow> D'
      | None \<Rightarrow> D @ [db_apply True u (AList.update ''_id'' (BObjectID (db_fresh D)) (db_set f []))])"

text \<open>\<open>lost n\<close> says that the answer to the n-th write gets lost.\<close>

definition db_answer :: "(nat \<Rightarrow> bool) \<Rightarrow> mongo_db \<Rightarrow> (string, bson) gomap list \<Rightarrow> 'a \<Rightarrow> mongo_db \<times> 'a result" where
  "db_answer lost d D r =
     (d\<lparr>db_docs := D, db_writes := Suc (db_writes d)\<rparr>,
      if lost (db_writes d) then Inl (Err ''connection reset'') else Inr r)"

definition db_UpdateOne ::
    "(nat \<Rightarrow> bool) \<Rightarrow> mongo_db \<Rightarrow> collection \<Rightarrow> bson_M \<Rightarrow> bson_M \<Rightarrow> bool \<Rightarrow> mongo_db \<times> int64 result" where
  "db_UpdateOne lost d c f u up =
     (if c = queueConfigurationCollection
      then (case (f, update_part ''$set'' u) of
              ([(_, BString q)], [(_, BInt n)]) \<Rightarrow>
                (d\<lparr>db_configurations := AList.update q n (db_configurations d)\<rparr>, Inr 1)
            | _ \<Rightarrow> (d, Inl (Err ''not supported'')))
      else (case db_update f u (db_docs d) of
              None \<Rightarrow> db_answer lost d (db_docs d) 0
            | Some D \<Rightarrow> db_answer lost d D 1))"

definition mongo_model :: "(nat \<Rightarrow> bool) \<Rightarrow> (mongo_db, Message list \<times> QueueConfiguration list) Mongo" where
  "mongo_model lost =
     \<lparr>mg_UpdateOne = db_UpdateOne lost,
      mg_BulkWrite = (\<lambda>d c us. let D = fold (\<lambda>(f, u). db_upsert f u) us (db_docs d) in
        db_answer lost d D (0, int (length D) - int (length (db_docs d)), 0)),
      mg_DeleteMany = (\<lambda>d c f.
        if c = queueConfigurationCollection then (d\<lparr>db_configurations := []\<rparr>, Inr (int (length (db_configurations d))))
        else db_answer lost d (filter (\<lambda>x. \<not> doc_matches f (map_of x)) (db_docs d))
               (int (length (filter (\<lambda>x. doc_matches f (map_of x)) (db_docs d))))),
      mg_CountDocuments = (\<lambda>d c f comment. Inr (int (length (filter (\<lambda>x. doc_matches f (map_of x)) (db_docs d))))),
      mg_Distinct = (\<lambda>d c field f. Inr (remdups (map (\<lambda>x. bson_string (map_of x field)) (db_docs d)))),
      mg_Find = (\<lambda>d c f opt.
        let hits = filter (\<lambda>x. doc_matches f (map_of x)) (db_docs d);
            found = (case opt of None \<Rightarrow> [] | Some o' \<Rightarrow>
              map (\<lambda>x. decode_message (project (mf_Projection o') (map_of x)))
                (if mf_Limit o' > 0 then take (nat (mf_Limit o')) hits else hits))
        in Inr (found, map (\<lambda>(q, n). \<lparr>cfg_Queue = q, cfg_MaxElements = n\<rparr>) (db_configurations d))),
      mg_AllMessages = (\<lambda>k. Inr (fst k)), mg_AllConfigurations = (\<lambda>k. Inr (snd k)),
      mg_FindOne = (\<lambda>d c f. case f of
        [(_, BString q)] \<Rightarrow> Inr (map_option (\<lambda>n. \<lparr>cfg_Queue = q, cfg_MaxElements = n\<rparr>) (map_of (db_configurations d) q))
      | _ \<Rightarrow> Inr None),
      mg_ObjectIDFromHex = Inr, mg_Hex = (\<lambda>oid. oid)\<rparr>"

definition empty_mongo :: mongo_db where
  "empty_mongo = \<lparr>db_docs = [], db_configurations = [], db_writes = 0\<rparr>"

section \<open>The promises\<close>

lemma map_of_db_set: "map_of (db_set m x) = set_fields m (map_of x)"
  unfolding db_set_def set_fields_def by (induction m arbitrary: x) (auto simp: update_conv')

lemma map_of_db_inc: "map_of (db_inc m x) = inc_fields m (map_of x)"
  unfolding db_inc_def inc_fields_def by (induction m arbitrary: x) (auto simp: update_conv')

lemma map_of_db_apply: "map_of (db_apply b u x) = apply_update b u (map_of x)"
  by (simp add: db_apply_def apply_update_def Let_def map_of_db_set map_of_db_inc)

lemma db_update_None: "db_update f u D = None \<longleftrightarrow> (\<forall>x\<in>set D. \<not> doc_matches f (map_of x))"
  by (induction D) auto

lemma db_update_Some: "db_update f u D = Some D' \<Longrightarrow> updates_one f u (map map_of D) (map map_of D')"
proof (induction D arbitrary: D')
  case (Cons x D)
  show ?case
  proof (cases "doc_matches f (map_of x)")
    case True
    then show ?thesis
      using Cons.prems by (auto simp: updates_one_def map_of_db_apply intro!: exI [of _ 0])
  next
    case False
    then obtain D1 where d: "db_update f u D = Some D1" "D' = x # D1" using Cons.prems by auto
    then obtain i where "i < length (map map_of D)" "doc_matches f (map map_of D ! i)"
      "map map_of D1 = (map map_of D)[i := apply_update False u (map map_of D ! i)]"
      using Cons.IH by (auto simp: updates_one_def)
    then show ?thesis unfolding updates_one_def using d(2) by (intro exI [of _ "Suc i"]) simp
  qed
qed simp

lemma db_fresh_new: "x \<in> set D \<Longrightarrow> map_of x ''_id'' \<noteq> Some (BObjectID (db_fresh D))"
proof
  assume x: "x \<in> set D" "map_of x ''_id'' = Some (BObjectID (db_fresh D))"
  let ?l = "\<lambda>x. case map_of x ''_id'' of Some (BObjectID oid) \<Rightarrow> length oid | _ \<Rightarrow> 0"
  have "?l x \<le> sum_list (map ?l D)" using x(1) by (simp add: member_le_sum_list)
  then show False using x(2) by (simp add: db_fresh_def)
qed

lemma db_upsert_ok: "upserts_one f u (map map_of D) (map map_of (db_upsert f u D))"
proof (cases "db_update f u D")
  case None
  have "map_of (db_apply True u (AList.update ''_id'' (BObjectID (db_fresh D)) (db_set f []))) = inserted_document f u (db_fresh D)"
    by (simp add: inserted_document_def map_of_db_apply update_conv' map_of_db_set)
  then show ?thesis
    using None db_update_None [of f u D] db_fresh_new [of _ D] unfolding upserts_one_def
    by (intro disjI2 conjI exI [of _ "db_fresh D"]) (simp_all add: db_upsert_def)
next
  case (Some D')
  then show ?thesis using db_update_Some by (auto simp: upserts_one_def db_upsert_def)
qed

lemma db_upserts_ok: "upserts us (map map_of D) (map map_of (fold (\<lambda>(f, u). db_upsert f u) us D))"
proof (induction us arbitrary: D)
  case (Cons a us)
  then show ?case using upserts_cons [OF db_upsert_ok] by (cases a) simp
qed (simp add: upserts_nil)

lemma mset_take_subseteq: "mset (take n xs) \<subseteq># mset xs"
  by (metis append_take_drop_id mset_append mset_subset_eq_add_left)

lemma db_answer_simps [simp]:
  "db_answer lost d D r = (d', Inr r') \<longleftrightarrow>
     d' = d\<lparr>db_docs := D, db_writes := Suc (db_writes d)\<rparr> \<and> \<not> lost (db_writes d) \<and> r' = r"
  "db_answer lost d D r = (d', Inl e) \<longleftrightarrow>
     d' = d\<lparr>db_docs := D, db_writes := Suc (db_writes d)\<rparr> \<and> lost (db_writes d) \<and> e = Err ''connection reset''"
  by (auto simp: db_answer_def)

lemma db_UpdateOne_cases:
  assumes "db_UpdateOne lost d messagesCollection f u b = (d', r)"
  shows "updates_one f u (db_view d) (db_view d') \<and> (\<forall>n. r = Inr n \<longrightarrow> n = 1) \<or>
    (\<forall>x\<in>set (db_view d). \<not> doc_matches f x) \<and> db_view d' = db_view d \<and> (\<forall>n. r = Inr n \<longrightarrow> n = 0)"
proof (cases "db_update f u (db_docs d)")
  case None
  then show ?thesis
    using assms db_update_None [of f u "db_docs d"] by (auto simp: db_UpdateOne_def db_view_def db_answer_def split: if_splits)
next
  case (Some D)
  then show ?thesis
    using assms db_update_Some [OF Some] by (auto simp: db_UpdateOne_def db_view_def db_answer_def split: if_splits)
qed

lemma db_configuration_frame: "db_UpdateOne lost d queueConfigurationCollection f u b = (d', r) \<Longrightarrow> db_view d' = db_view d"
  by (auto simp: db_UpdateOne_def db_view_def split: list.splits prod.splits bson.splits)

interpretation mongo_sample: mongo "mongo_model lost" db_view db_view for lost
proof (unfold_locales, unfold mongo_model_def Mongo.select_convs, goal_cases)
  case 1
  then show ?case using db_UpdateOne_cases by blast
next
  case 2
  then show ?case using db_UpdateOne_cases by blast
next
  case (3 d us d' i up m)
  then show ?case using db_upserts_ok [of us "db_docs d"] by (auto simp: Let_def db_view_def)
next
  case (4 d us d' e)
  then show ?case using db_upserts_ok [of us "db_docs d"] by (auto simp: Let_def db_view_def)
next
  case 5
  then show ?case by (auto simp: db_view_def filter_map comp_def)
next
  case (6 d f d' e)
  then show ?case by (auto simp: db_view_def filter_map comp_def intro!: exI [of _ "\<lambda>x. \<not> doc_matches f x"])
next
  case (7 d c f opt k ms)
  let ?h = "filter (\<lambda>x. doc_matches f (map_of x)) (db_docs d)"
  let ?found = "map map_of (if mf_Limit opt > 0 then take (nat (mf_Limit opt)) ?h else ?h)"
  have h: "filter (doc_matches f) (db_view d) = map map_of ?h" by (simp add: db_view_def filter_map comp_def)
  have "mset ?found \<subseteq># mset (map map_of ?h)" 
    using image_mset_subseteq_mono [OF mset_take_subseteq [of "nat (mf_Limit opt)" ?h], of map_of] by simp
  then show ?case using 7 h by (intro exI [of _ ?found]) (auto simp: Let_def)
next
  case 8
  then show ?case by (rule db_configuration_frame)
next
  case 9
  then show ?case by (auto simp: db_view_def)
qed simp

interpretation mongo_sure: mongo_reliable "mongo_model (\<lambda>n. False)" db_view db_view
  by unfold_locales (simp_all add: mongo_model_def)

end
