(* ===== verification/Mongo_Props.thy ===== *)
theory Mongo_Props
  imports Mongo_Contract Mongo_Model Memory_Storage
begin

text \<open>
  The properties of \<^verbatim>\<open>internal/queue/storage/mongo_storage.go\<close>, for every database and connection with the promises
  of \<open>mongo\<close>.
\<close>

section \<open>Documents\<close>

definition mongo_run :: "('d, 'k) Mongo \<Rightarrow> storage_op list \<Rightarrow> 'd \<Rightarrow> 'd" where
  "mongo_run M ops d = fold (storage_exec (mongo_storage M)) ops d"

context mongo
begin

lemma exec_docs_ok:
  assumes "docs_ok (docs d)"
  shows "docs_ok (docs (storage_exec (mongo_storage M) op d))"
proof (cases op)
  case (OpStore now ms)
  then show ?thesis using Insert_ok(1) [OF assms, of now ms] by (simp add: mongo_storage_def prod_eq_iff)
next
  case (OpDelete q ids)
  then show ?thesis using Remove_ok(1) [OF assms, of q ids] by (simp add: mongo_storage_def prod_eq_iff)
next
  case (OpAcked m)
  then show ?thesis
    using update_message_ok [OF assms ack_update_ok, of m] by (simp add: mongo_storage_def MongoStorage_Ack_def prod_eq_iff)
next
  case (OpNacked m)
  then show ?thesis
    using update_message_ok [OF assms nack_update_ok, of m] by (simp add: mongo_storage_def MongoStorage_Nack_def prod_eq_iff)
next
  case (OpConfigure cfg)
  then show ?thesis using Edit_ok [of d cfg] assms by (simp add: mongo_storage_def prod_eq_iff)
next
  case OpDeleteAll
  then show ?thesis using Flush_ok(1) [OF assms] by (simp add: mongo_storage_def prod_eq_iff)
qed

lemma run_docs_ok: "docs_ok (docs d) \<Longrightarrow> docs_ok (docs (mongo_run M ops d))"
  unfolding mongo_run_def by (induction ops arbitrary: d) (simp_all add: exec_docs_ok)

end

text \<open>
  C13: whatever the connection does with the writes of a storage, after any sequence of them every document has a
  non-empty queue and id, no two documents have the same queue and id or the same internal id, and every field has
  the type that the struct \<^verbatim>\<open>Message\<close> expects, so that no later search fails to decode it.
\<close>

theorem mongo_documents_typed:
  assumes "mongo M dv seen" "dv d = []"
  shows "docs_ok (dv (mongo_run M ops d))"
  by (rule mongo.run_docs_ok [OF assms(1)]) (simp add: assms(2) docs_ok_def)

definition mongo_message :: "string \<Rightarrow> float64 \<Rightarrow> Message" where
  "mongo_message i s = zero_Message\<lparr>msg_ID := i, msg_Queue := ''q'', msg_Score := s, msg_Description := ''text''\<rparr>"

definition sample_writes :: "storage_op list" where
  "sample_writes =
     [OpStore 1500000 [mongo_message ''a'' (Fin 1), mongo_message ''b'' (Fin 2)], OpAcked (mongo_message ''a'' (Fin 7)),
      OpStore 0 [mongo_message ''b'' (Fin 9)], OpDelete ''q'' [''b'']]"

theorem mongo_documents_typed_witness:
  "docs_ok (db_view (mongo_run (mongo_model (\<lambda>n. n = 1)) sample_writes empty_mongo)) \<and>
   map (\<lambda>x. (msg_ID (decode_message x), msg_Score (decode_message x), msg_UsageCount (decode_message x)))
     (db_view (mongo_run (mongo_model (\<lambda>n. n = 1)) sample_writes empty_mongo)) = [(''a'', Fin 7, 1)]"
proof
  show "docs_ok (db_view (mongo_run (mongo_model (\<lambda>n. n = 1)) sample_writes empty_mongo))"
    by (rule mongo_documents_typed [OF mongo_sample.mongo_axioms]) (simp add: db_view_def empty_mongo_def)
qed code_simp

section \<open>Acks and nacks\<close>

text \<open>
  The two storages represent a message that was never acked or nacked differently, and MongoDB keeps milliseconds
  only: messages are the same up to the precision of the last use and counters that are nil instead of zero.
\<close>

definition counter :: "int64 option \<Rightarrow> int64" where
  "counter n = (case n of None \<Rightarrow> 0 | Some k \<Rightarrow> k)"

definition counters :: "MessageDiagnostics option \<Rightarrow> int64 list" where
  "counters dg = (case dg of None \<Rightarrow> [0, 0, 0, 0]
     | Some g \<Rightarrow> map counter [dg_Acks g, dg_Nacks g, dg_ConsecutiveAcks g, dg_ConsecutiveNacks g])"

definition same_message :: "Message \<Rightarrow> Message \<Rightarrow> bool" where
  "same_message a b \<longleftrightarrow>
     a\<lparr>msg_LastUsage := None, msg_Diagnostics := None\<rparr> = b\<lparr>msg_LastUsage := None, msg_Diagnostics := None\<rparr> \<and>
     map_option stored_time (msg_LastUsage a) = map_option stored_time (msg_LastUsage b) \<and>
     counters (msg_Diagnostics a) = counters (msg_Diagnostics b)"

text \<open>Adding zero rounds to the next floating point number, so the numbers it keeps are those of 64 bits.\<close>

definition is_float64 :: "float64 \<Rightarrow> bool" where
  "is_float64 x \<longleftrightarrow> fadd (Fin 0) x = x"

lemma typed_kind: "well_typed x \<Longrightarrow> map_of message_fields k = Some K \<Longrightarrow> x k = Some v \<Longrightarrow> has_kind K v"
  by (force simp: well_typed_def field_type_def)

lemma stored_time_twice [simp]: "stored_time (stored_time t) = stored_time t"
  by (simp add: stored_time_def nanosPerMillisecond_def)

lemma typed_int: "well_typed x \<Longrightarrow> map_of message_fields k = Some KInt \<Longrightarrow> x k = None \<or> (\<exists>n. x k = Some (BInt n))"
  by (cases "x k") (auto simp: has_kind_def split: bson.splits dest: typed_kind)

lemma typed_float: "well_typed x \<Longrightarrow> map_of message_fields k = Some KFloat \<Longrightarrow> x k = None \<or> (\<exists>f. x k = Some (BFloat f))"
  by (cases "x k") (auto simp: has_kind_def split: bson.splits dest: typed_kind)

lemma inc_int:
  assumes "well_typed x" "map_of message_fields k = Some KInt"
  shows "(case x k of None \<Rightarrow> BInt 1 | Some w \<Rightarrow> bson_plus w (BInt 1)) = BInt (wrap64 (bson_int (x k) + 1))"
  using typed_int [OF assms] by (auto simp: bson_int_def bson_plus_def wrap64_def)

lemma inc_float:
  assumes "well_typed x" "map_of message_fields k = Some KFloat" "is_float64 v"
  shows "(case x k of None \<Rightarrow> BFloat v | Some w \<Rightarrow> bson_plus w (BFloat v)) = BFloat (fadd (bson_float (x k)) v)"
  using typed_float [OF assms(1,2)] assms(3) by (auto simp: bson_float_def bson_plus_def is_float64_def)

lemmas update_defs = apply_update_def update_part_def set_fields_def inc_fields_def

lemma apply_ack:
  assumes "well_typed x" "is_float64 (msg_LastScoreSubtract m)"
  shows "apply_update False (ack_update m) x =
    x(''last_usage'' \<mapsto> stored_value (BTimeRef (msg_LastUsage m)), ''last_score_subtract'' \<mapsto> BFloat (msg_LastScoreSubtract m),
      ''breakpoint'' \<mapsto> BString (msg_Breakpoint m), ''score'' \<mapsto> BFloat (msg_Score m), ''lock_ms'' \<mapsto> BInt (msg_LockMs m),
      ''diagnostics.consecutive_nacks'' \<mapsto> BInt 0, ''usage_count'' \<mapsto> BInt (wrap64 (bson_int (x ''usage_count'') + 1)),
      ''total_score_subtract'' \<mapsto> BFloat (fadd (bson_float (x ''total_score_subtract'')) (msg_LastScoreSubtract m)),
      ''diagnostics.acks'' \<mapsto> BInt (wrap64 (bson_int (x ''diagnostics.acks'') + 1)),
      ''diagnostics.consecutive_acks'' \<mapsto> BInt (wrap64 (bson_int (x ''diagnostics.consecutive_acks'') + 1)))"
  by (simp add: update_defs ack_update_def inc_int [OF assms(1)] inc_float [OF assms(1) _ assms(2)] message_fields_def
      del: stored_value.simps(2,3))

lemma apply_nack:
  assumes "well_typed x"
  shows "apply_update False (nack_update m) x =
    x(''score'' \<mapsto> BFloat (msg_Score m), ''lock_ms'' \<mapsto> BInt (msg_LockMs m), ''diagnostics.consecutive_acks'' \<mapsto> BInt 0,
      ''diagnostics.nacks'' \<mapsto> BInt (wrap64 (bson_int (x ''diagnostics.nacks'') + 1)),
      ''diagnostics.consecutive_nacks'' \<mapsto> BInt (wrap64 (bson_int (x ''diagnostics.consecutive_nacks'') + 1)))"
  by (simp add: update_defs nack_update_def inc_int [OF assms] message_fields_def)

lemma counter_bson [simp]: "counter (bson_counter v) = bson_int v"
  by (simp add: counter_def bson_counter_def bson_int_def split: option.splits bson.splits)

lemma counters_decode: "counters (msg_Diagnostics (decode_message x)) = map (\<lambda>k. bson_int (x k)) diagnostic_fields"
  by (simp add: counters_def decode_message_def diagnostic_fields_def) (simp add: bson_int_def)

lemma counters_ack:
  "counters (msg_Diagnostics v) = [a, n, ca, cn] \<Longrightarrow>
   counters (msg_Diagnostics (ack_doc v m)) = [wrap64 (a + 1), n, wrap64 (ca + 1), 0]"
  by (auto simp: counters_def ack_doc_def setDiagnosticsStruct_def incr_def counter_def Let_def split: option.splits)

lemma counters_nack:
  "counters (msg_Diagnostics v) = [a, n, ca, cn] \<Longrightarrow>
   counters (msg_Diagnostics (nack_doc v m)) = [a, wrap64 (n + 1), 0, wrap64 (cn + 1)]"
  by (auto simp: counters_def nack_doc_def setDiagnosticsStruct_def incr_def counter_def Let_def split: option.splits)

lemma ack_same:
  assumes "well_typed x" "is_float64 (msg_LastScoreSubtract m)"
  shows "same_message (decode_message (apply_update False (ack_update m) x)) (ack_doc (decode_message x) m)"
proof -
  let ?y = "apply_update False (ack_update m) x"
  note y = apply_ack [OF assms]
  have l: "msg_LastUsage (decode_message ?y) = map_option stored_time (msg_LastUsage m)"
    unfolding y by (cases "msg_LastUsage m") (simp_all add: decode_message_def)
  have c: "counters (msg_Diagnostics (decode_message ?y)) = counters (msg_Diagnostics (ack_doc (decode_message x) m))"
    unfolding counters_ack [OF counters_decode [of x, unfolded diagnostic_fields_def list.map]] counters_decode y
    by (simp add: diagnostic_fields_def bson_int_def)
  have "(decode_message ?y)\<lparr>msg_LastUsage := None, msg_Diagnostics := None\<rparr> =
      (ack_doc (decode_message x) m)\<lparr>msg_LastUsage := None, msg_Diagnostics := None\<rparr>"
    unfolding y by (simp add: decode_message_def ack_doc_def setDiagnosticsStruct_def Let_def bson_string_def
        bson_int_def bson_float_def split: option.splits)
  moreover have "msg_LastUsage (ack_doc (decode_message x) m) = msg_LastUsage m"
    by (simp add: ack_doc_def setDiagnosticsStruct_def Let_def split: option.splits)
  ultimately show ?thesis using l c by (simp add: same_message_def option.map_comp comp_def)
qed

lemma nack_same:
  assumes "well_typed x"
  shows "same_message (decode_message (apply_update False (nack_update m) x)) (nack_doc (decode_message x) m)"
proof -
  let ?y = "apply_update False (nack_update m) x"
  note y = apply_nack [OF assms, of m]
  have c: "counters (msg_Diagnostics (decode_message ?y)) = counters (msg_Diagnostics (nack_doc (decode_message x) m))"
    unfolding counters_nack [OF counters_decode [of x, unfolded diagnostic_fields_def list.map]] counters_decode y
    by (simp add: diagnostic_fields_def bson_int_def)
  have "(decode_message ?y)\<lparr>msg_LastUsage := None, msg_Diagnostics := None\<rparr> =
      (nack_doc (decode_message x) m)\<lparr>msg_LastUsage := None, msg_Diagnostics := None\<rparr>"
    unfolding y by (simp add: decode_message_def nack_doc_def setDiagnosticsStruct_def Let_def bson_string_def
        bson_int_def bson_float_def split: option.splits)
  moreover have "msg_LastUsage (decode_message ?y) = msg_LastUsage (nack_doc (decode_message x) m)"
    unfolding y by (simp add: decode_message_def nack_doc_def setDiagnosticsStruct_def Let_def split: option.splits)
  ultimately show ?thesis using c by (simp add: same_message_def)
qed

context mongo
begin

lemma update_message_one:
  assumes "docs_ok (docs d)" "update_message M d m u = (d', Inr n)" "x \<in> set (docs d)" "doc_key x = message_key m"
  shows "set (docs d') = insert (apply_update False u x) (set (docs d) - {x})"
proof -
  obtain r where b: "mg_UpdateOne M d messagesCollection (message_filter m) u False = (d', r)" "r = Inr n"
    using assms(2) by (auto simp: update_message_def split: prod.splits sum.splits)
  have ok: "doc_named y" if "y \<in> set (docs d)" for y using assms(1) that by (simp add: docs_ok_def)
  have "doc_matches (message_filter m) x" using matches_message [OF ok [OF assms(3)]] assms(4) by simp
  then have "updates_one (message_filter m) u (docs d) (docs d')" using update_one [OF b(1) [unfolded b(2)]] assms(3) by blast
  then obtain i where i: "i < length (docs d)" "doc_matches (message_filter m) (docs d ! i)"
    "docs d' = (docs d)[i := apply_update False u (docs d ! i)]"
    by (auto simp: updates_one_def)
  have "doc_key (docs d ! i) = doc_key x" using i(1,2) matches_message ok assms(4) by (metis nth_mem)
  moreover have dist: "distinct (docs d)" "inj_on doc_key (set (docs d))"
    using assms(1) by (simp_all add: docs_ok_def distinct_map)
  ultimately have "docs d ! i = x" using assms(3) i(1) by (meson inj_onD nth_mem)
  then show ?thesis using set_update_distinct [OF dist(1) i(1)] i(3) by simp
qed

end

text \<open>
  C14: an ack or a nack of a stored message changes its document to one that reads as the message which the memory
  storage makes of it, up to milliseconds and counters that are nil instead of zero, and leaves the other
  documents as they are. The two storages keep the same history of a message.
\<close>

theorem mongo_ack_as_memory:
  assumes "mongo M dv seen" "docs_ok (dv d)" "x \<in> set (dv d)" "doc_key x = message_key m"
    and "is_float64 (msg_LastScoreSubtract m)"
    and "MongoStorage_Ack M d m = (d1, Inr n1)" "MongoStorage_Nack M d m = (d2, Inr n2)"
  shows "(\<exists>y. set (dv d1) = insert y (set (dv d) - {x}) \<and> same_message (decode_message y) (ack_doc (decode_message x) m)) \<and>
    (\<exists>y. set (dv d2) = insert y (set (dv d) - {x}) \<and> same_message (decode_message y) (nack_doc (decode_message x) m))"
proof -
  have w: "well_typed x" using assms(2,3) by (simp add: docs_ok_def)
  note one = mongo.update_message_one [OF assms(1,2) _ assms(3,4)]
  show ?thesis
    using one [OF assms(6) [unfolded MongoStorage_Ack_def]] one [OF assms(7) [unfolded MongoStorage_Nack_def]]
      ack_same [OF w assms(5)] nack_same [OF w] by blast
qed

definition stored_sample :: mongo_db where
  "stored_sample = mongo_run (mongo_model (\<lambda>n. False)) sample_writes empty_mongo"

definition sample_document :: document where
  "sample_document = map_of (db_docs stored_sample ! 0)"

theorem mongo_ack_as_memory_witness:
  "\<exists>y. set (db_view (fst (MongoStorage_Ack (mongo_model (\<lambda>n. False)) stored_sample (mongo_message ''a'' (Fin 3))))) =
      insert y (set (db_view stored_sample) - {sample_document}) \<and>
    same_message (decode_message y) (ack_doc (decode_message sample_document) (mongo_message ''a'' (Fin 3)))"
proof -
  let ?M = "mongo_model (\<lambda>n. False)"
  let ?m = "mongo_message ''a'' (Fin 3)"
  have ok: "docs_ok (db_view stored_sample)"
    unfolding stored_sample_def
    by (rule mongo.run_docs_ok [OF mongo_sample.mongo_axioms]) (simp add: db_view_def empty_mongo_def docs_ok_def)
  have l: "length (db_docs stored_sample) = 1" by code_simp
  then have x: "sample_document \<in> set (db_view stored_sample)"
    by (cases "db_docs stored_sample") (simp_all add: sample_document_def db_view_def)
  have k: "doc_key sample_document = message_key ?m" by code_simp
  have f: "is_float64 (msg_LastScoreSubtract ?m)" by code_simp
  have a: "map_sum (\<lambda>e. ()) id (snd (MongoStorage_Ack ?M stored_sample ?m)) = Inr 1"
    "map_sum (\<lambda>e. ()) id (snd (MongoStorage_Nack ?M stored_sample ?m)) = Inr 1" by code_simp+
  obtain d1 r1 where d1: "MongoStorage_Ack ?M stored_sample ?m = (d1, r1)" by (meson surj_pair)
  obtain d2 r2 where d2: "MongoStorage_Nack ?M stored_sample ?m = (d2, r2)" by (meson surj_pair)
  have r: "r1 = Inr 1" "r2 = Inr 1" using a d1 d2 by (cases r1; cases r2; simp)+
  from mongo_ack_as_memory [OF mongo_sample.mongo_axioms ok x k f d1 [unfolded r] d2 [unfolded r]]
  show ?thesis using d1 by simp
qed

end
