(* ===== verification/Production.thy ===== *)
theory Production
  imports Redis_Props Mongo_Props Deckard_Props
begin

text \<open>
  The installation with Redis and MongoDB: the queue over the Redis cache and the MongoDB storage keeps the laws of
  \<open>queue_env\<close> under the conditions of the locale \<open>production\<close>, and so what holds for the memory instance
  holds for it, without a restriction of the ids. The conditions are those of \<open>redis_reliable\<close> (every call is
  executed once and answered) and \<open>mongo_reliable\<close> (finds see the current documents, as on a single server, and
  no deletion fails); inserts and updates of MongoDB may still fail in part.
\<close>

locale production = cache: redis_reliable R zset str on_node glob + storage: mongo_reliable M dv seen
  for R :: "('r, 'n) Redis" and zset :: "'r \<Rightarrow> string \<Rightarrow> zset" and str :: "'r \<Rightarrow> string \<Rightarrow> string option"
    and on_node :: "'r \<Rightarrow> nat \<Rightarrow> string \<Rightarrow> bool" and glob :: "string \<Rightarrow> string \<Rightarrow> bool"
    and M :: "('d, 'k) Mongo" and dv :: "'d \<Rightarrow> document list" and seen :: "'d \<Rightarrow> document list"

sublocale production \<subseteq> pq: queue_env "redis_cache R" "redis_ids zset" "redis_inv zset str" redis_amount
  "mongo_storage M" "mongo_stored dv" "\<lambda>now d. {}" "\<lambda>i. True" "mongo_inv dv" False
proof
  show "known_ids (redis_ids zset c) q \<inter> set ids = {}"
    if "redis_inv zset str c" "c_Remove (redis_cache R) c q ids = (c', n, Some e)" for c q ids c' n e
  proof -
    have "\<not> valid_queue q" using cache.remove_sure that by (simp add: redis_cache_def)
    then show ?thesis by (simp add: known_ids_def redis_ids_def del: not_None_eq)
  qed
qed simp

interpretation sample_production: production "redis_model sure_link" srv_zset srv_str "\<lambda>r node k. True" srv_glob
  "mongo_model (\<lambda>n. False)" db_view db_view
  by unfold_locales

text \<open>The service on an empty database and an unused prefix.\<close>

definition production_deckard ::
    "AuditorImpl \<Rightarrow> 'l LocalCache \<Rightarrow> 'd \<Rightarrow> ('r, 'n) RedisCache \<Rightarrow> (('r, 'n) RedisCache, 'd, 'l) Deckard" where
  "production_deckard auditor LC db c =
     NewDeckardService (NewQueue auditor db c) (NewQueueConfigurationService LC)"

definition production_run ::
    "('r, 'n) Redis \<Rightarrow> ('d, 'k) Mongo \<Rightarrow> 'l LocalCache \<Rightarrow> (string list \<Rightarrow> string list) \<Rightarrow> (Message list \<Rightarrow> Message list) \<Rightarrow>
     deckard_op list \<Rightarrow> (('r, 'n) RedisCache, 'd, 'l) Deckard \<Rightarrow> (('r, 'n) RedisCache, 'd, 'l) Deckard" where
  "production_run R M LC ord sord ops d = deckard_run (redis_cache R) (mongo_storage M) LC ord sord ops d"

definition production_pull ::
    "('r, 'n) Redis \<Rightarrow> ('d, 'k) Mongo \<Rightarrow> (Message list \<Rightarrow> Message list) \<Rightarrow> time \<Rightarrow> clock \<Rightarrow>
     (('r, 'n) RedisCache, 'd, 'l) Deckard \<Rightarrow> PullRequest \<Rightarrow>
     (('r, 'n) RedisCache, 'd, 'l) Deckard \<times> PbMessage list result" where
  "production_pull R M sord now clk d req = Deckard_Pull (redis_cache R) (mongo_storage M) sord now clk d req"

lemma production_deckard_ok:
  assumes "fresh_redis zset str c" "dv db = []"
  shows "queue_ok (redis_ids zset) (redis_inv zset str) (mongo_stored dv) (mongo_inv dv) (d_queue (production_deckard a LC db c))"
  using fresh_redis_inv [OF assms(1)] assms(2)
  by (simp add: production_deckard_def NewDeckardService_def NewDeckardInstance_def NewQueue_def queue_ok_def
      mongo_inv_def docs_ok_def cached_in_def known_ids_def)

lemma production_not_memory: "\<not> d_memoryInstance (production_deckard a LC db c)"
  by (simp add: production_deckard_def NewDeckardService_def NewDeckardInstance_def)

lemma adds_anything: "list_all (adds_only (\<lambda>i. True)) ops"
proof -
  have "adds_only (\<lambda>i. True) op" for op by (cases op) (simp_all add: list_all_iff)
  then show ?thesis by (simp add: list_all_iff)
qed

context production
begin

lemma good_production: "any_order ord \<Longrightarrow> any_order sord \<Longrightarrow> \<not> d_memoryInstance d \<Longrightarrow> pq.good_run ord sord ops d"
  by (simp add: pq.good_run_def adds_anything)

lemmas production_laws = pq.service_run_ok pq.pull_exclusive pq.pull_keeps pq.service_run_stored

end

lemma run_memoryInstance: "d_memoryInstance (deckard_run C S LC ord sord ops d) = d_memoryInstance d"
  unfolding deckard_run_def by (induction ops arbitrary: d) (simp_all add: exec_memoryInstance)

lemma pull_memoryInstance: "Deckard_Pull C S sord now clk d req = (d', r) \<Longrightarrow> d_memoryInstance d' = d_memoryInstance d"
  using exec_memoryInstance [of C S undefined "\<lambda>x. x" sord "ReqPull now clk req" d] by simp

section \<open>Properties\<close>

text \<open>
  C3: on Redis and MongoDB too, a message that a pull delivered is not delivered again before a request or a task
  releases it, whatever requests and tasks come in between. This is so for servers with the documented behaviour,
  connections that lose nothing, deletions of MongoDB that do not fail, and finds that read current data (a single
  server; a secondary that lags is not covered).
\<close>

theorem production_exclusive:
  fixes M :: "('d, 'k) Mongo" and c :: "('r, 'n) RedisCache"
  assumes "production R zset str on_node glob M dv seen" "fresh_redis zset str c" "dv db = []"
    and "any_order ord" "any_order sord"
    and "production_pull R M sord now clk (production_run R M LC ord sord ops (production_deckard a LC db c)) req = (d, Inr ms)"
    and "m \<in> set ms" "\<forall>op\<in>set ops'. (pm_Queue m, pm_Id m) \<notin> releases op"
    and "production_pull R M sord now' clk' (production_run R M LC ord sord ops' d) req' = (d', Inr ms')" "m' \<in> set ms'"
  shows "(pm_Queue m', pm_Id m') \<noteq> (pm_Queue m, pm_Id m)"
proof -
  note law = production.production_laws [OF assms(1)]
  note good = production.good_production [OF assms(1,4,5)]
  let ?d = "production_run R M LC ord sord ops (production_deckard a LC db c)"
  note start = production_deckard_ok [where dv = dv and db = db, OF assms(2,3)]
  note ok = law(1) [OF good [OF production_not_memory] start]
  have "\<not> d_memoryInstance d"
    using pull_memoryInstance [OF assms(6) [unfolded production_pull_def]] production_not_memory
    by (simp add: production_run_def run_memoryInstance)
  from law(2) [OF ok assms(6) [unfolded production_pull_def production_run_def] assms(7) good [OF this] assms(8)
      assms(9) [unfolded production_pull_def production_run_def] assms(10)]
  show ?thesis .
qed

abbreviation sample_production_run where
  "sample_production_run \<equiv> production_run (redis_model sure_link) (mongo_model (\<lambda>n. False)) sample_cache (\<lambda>x. x) (\<lambda>x. x)"

abbreviation sample_production_pull where
  "sample_production_pull \<equiv> production_pull (redis_model sure_link) (mongo_model (\<lambda>n. False)) (\<lambda>x. x) 0 sample_clock"

definition sample_start ::
    "((redis_db, unit) RedisCache, mongo_db, (string, QueueConfiguration) gomap) Deckard" where
  "sample_start = production_deckard sample_auditor sample_cache empty_mongo (sample_redis ())"

definition sample_pulls :: "string list result \<times> string list result" where
  "sample_pulls =
     (let (d1, r) = sample_production_pull (sample_production_run [sample_adding] sample_start) (sample_pull 1);
          (d2, r') = sample_production_pull (sample_production_run [] d1) (sample_pull 2)
      in (map_sum (\<lambda>e. e) (map pm_Id) r, map_sum (\<lambda>e. e) (map pm_Id) r'))"

lemma sample_pulls_eq: "sample_pulls = (Inr [''a''], Inr [''b''])"
  by code_simp

theorem production_exclusive_witness:
  "let (d1, r) = sample_production_pull (sample_production_run [sample_adding] sample_start) (sample_pull 1);
       (d2, r') = sample_production_pull (sample_production_run [] d1) (sample_pull 2)
   in map pm_Id (projr r) = [''a''] \<and> map pm_Id (projr r') = [''b''] \<and>
      (\<forall>m\<in>set (projr r). \<forall>m'\<in>set (projr r'). (pm_Queue m', pm_Id m') \<noteq> (pm_Queue m, pm_Id m))"
proof -
  obtain d1 r where p: "sample_production_pull (sample_production_run [sample_adding] sample_start) (sample_pull 1) = (d1, r)"
    by (meson surj_pair)
  obtain d2 r' where p': "sample_production_pull (sample_production_run [] d1) (sample_pull 2) = (d2, r')"
    by (meson surj_pair)
  have i: "map_sum (\<lambda>e. e) (map pm_Id) r = Inr [''a'']" "map_sum (\<lambda>e. e) (map pm_Id) r' = Inr [''b'']"
    using sample_pulls_eq by (simp_all add: sample_pulls_def p p')
  obtain ms where ms: "r = Inr ms" "map pm_Id ms = [''a'']" using i(1) by (cases r) auto
  obtain ms' where ms': "r' = Inr ms'" "map pm_Id ms' = [''b'']" using i(2) by (cases r') auto
  have o: "any_order (\<lambda>x :: string list. x)" "any_order (\<lambda>x :: Message list. x)" by simp_all
  have e: "db_view empty_mongo = []" by (simp add: db_view_def empty_mongo_def)
  have n: "\<forall>op\<in>set []. (pm_Queue m, pm_Id m) \<notin> releases op" for m by simp
  have "(pm_Queue m', pm_Id m') \<noteq> (pm_Queue m, pm_Id m)" if "m \<in> set ms" "m' \<in> set ms'" for m m'
    using production_exclusive [where dv = db_view and db = empty_mongo, OF sample_production.production_axioms sample_fresh e o
        p [unfolded ms sample_start_def] that(1) n p' [unfolded ms'] that(2)] .
  then show ?thesis using p p' ms ms' by simp
qed

text \<open>
  C4: on Redis and MongoDB, if no call of Redis loses a request or an answer, no deletion of MongoDB fails and
  its finds read current data (a single server, not a secondary that lags), then after any sequence of requests and tasks
  from an empty installation every id in the cache belongs to a stored message, no id is in two pools of its queue, and a message that was
  stored before some of them is still stored unless one of these deletes it. Without these conditions the first part can fail: a
  deletion that fails after its first chunk leaves the ids of that chunk in the cache.
\<close>

theorem production_consistent:
  fixes M :: "('d, 'k) Mongo" and c :: "('r, 'n) RedisCache"
  assumes "production R zset str on_node glob M dv seen" "fresh_redis zset str c" "dv db = []"
    and "any_order ord" "any_order sord"
  shows "let d = production_run R M LC ord sord ops (production_deckard a LC db c);
        d' = production_run R M LC ord sord ops' d in
    (\<forall>q i. i \<in> known_ids (redis_ids zset (q_cache (d_queue d))) q \<longrightarrow> (q, i) \<in> mongo_stored dv (q_storage (d_queue d))) \<and>
    pool_disjoint (redis_ids zset (q_cache (d_queue d))) \<and>
    (\<forall>k\<in>mongo_stored dv (q_storage (d_queue d)). (\<forall>op\<in>set ops'. k \<notin> deletes op) \<longrightarrow>
       k \<in> mongo_stored dv (q_storage (d_queue d')))"
proof -
  define d where d_def: "d = production_run R M LC ord sord ops (production_deckard a LC db c)"
  define d' where d'_def: "d' = production_run R M LC ord sord ops' d"
  note law = production.production_laws [OF assms(1)]
  note good = production.good_production [OF assms(1,4,5)]
  note start = production_deckard_ok [where dv = dv and db = db, OF assms(2,3)]
  have ok: "queue_ok (redis_ids zset) (redis_inv zset str) (mongo_stored dv) (mongo_inv dv) (d_queue d)"
    unfolding d_def production_run_def by (rule law(1) [OF good [OF production_not_memory] start])
  have n: "\<not> d_memoryInstance d" by (simp add: d_def production_run_def run_memoryInstance production_not_memory)
  have "k \<in> mongo_stored dv (q_storage (d_queue d'))"
    if k: "k \<in> mongo_stored dv (q_storage (d_queue d))" "\<forall>op\<in>set ops'. k \<notin> deletes op" for k
  proof -
    obtain q i where qi: "k = (q, i)" by fastforce
    show ?thesis
      unfolding d'_def production_run_def qi by (rule law(4) [OF good [OF n] ok]) (use k qi in simp_all)
  qed
  then show ?thesis
    using ok unfolding Let_def d_def [symmetric] d'_def [symmetric] by (simp add: queue_ok_def cached_in_def redis_inv_def)
qed

theorem production_consistent_witness:
  "(''q'', ''a'') \<in> mongo_stored db_view (q_storage (d_queue (sample_production_run
      [ReqPull 0 sample_clock (sample_pull 2), ReqAck 0 0 sample_clock (sample_ack ''a'' 0), ReqRemove 0 [''b''] ''q'']
      (sample_production_run [sample_adding] sample_start))))"
proof -
  let ?ops = "[ReqPull 0 sample_clock (sample_pull 2), ReqAck 0 0 sample_clock (sample_ack ''a'' 0), ReqRemove 0 [''b''] ''q'']"
  have o: "any_order (\<lambda>x :: string list. x)" "any_order (\<lambda>x :: Message list. x)" by simp_all
  have e: "db_view empty_mongo = []" by (simp add: db_view_def empty_mongo_def)
  have eq: "map doc_key (db_view (q_storage (d_queue (sample_production_run [sample_adding] sample_start)))) =
      [(''q'', ''a''), (''q'', ''b'')]" by code_simp
  have m: "(''q'', ''a'') \<in> mongo_stored db_view (q_storage (d_queue (sample_production_run [sample_adding] sample_start)))"
    unfolding mongo_stored_def set_map [symmetric] eq by simp
  have n: "\<forall>op\<in>set ?ops. (''q'', ''a'') \<notin> deletes op" by (simp add: sample_ack_def)
  note all = production_consistent [where dv = db_view and db = empty_mongo, OF sample_production.production_axioms sample_fresh [of "()"] e o,
        where ops = "[sample_adding]" and ops' = ?ops and LC = sample_cache and a = sample_auditor,
        unfolded Let_def, folded sample_start_def, THEN conjunct2, THEN conjunct2]
  show ?thesis by (rule mp [OF bspec [OF all m] n])
qed

end
