(* ===== verification/Recovery_Page.thy ===== *)
theory Recovery_Page
  imports Housekeeper Memory_Storage_Props
begin

text \<open>
  The pages of \<^verbatim>\<open>RecoveryMessagesPool\<close> (\<^verbatim>\<open>internal/queue/queue_housekeeper.go\<close>) over the memory storage: what its find
  returns between two breakpoints, which the cache keeps as the texts of internal ids.
\<close>

abbreviation doc_id :: "Message \<Rightarrow> int64" where
  "doc_id m \<equiv> id_int64 (msg_InternalId m)"

lemma find_loop_total:
  "\<forall>d\<in>set ds. \<not> isl (messageMatchesFilter d opt) \<Longrightarrow> find_loop now opt ds acc = Inr (acc @ filter (find_match now opt) ds)"
proof (induction now opt ds acc rule: find_loop.induct)
  case (2 now opt d ds acc)
  then obtain b where b: "messageMatchesFilter d opt = Inr b" by (cases "messageMatchesFilter d opt") auto
  then show ?case using 2 by (cases b) (auto simp: find_match_def)
qed simp

lemma beyond_breakpoint_text:
  assumes "msg_InternalId x = IdInt n" "MemoryStorage_GetStringInternalId s m = Inr bp"
    "msg_InternalId m = IdNil \<or> (\<exists>b. msg_InternalId m = IdInt b \<and> int64_range b)"
  shows "beyond_breakpoint ex x bp = Inr (msg_InternalId m = IdNil \<or> \<not> ex n (doc_id m))"
  using assms by (auto simp: beyond_breakpoint_def MemoryStorage_GetStringInternalId_def StrToInt64_FormatInt)

lemma distinct_ids:
  assumes "any_order ord" "ids_inv s"
  shows "distinct (map doc_id (range_values ord (docs s)))"
proof -
  have wf: "gomap_wf (docs s)" using assms(2) by (simp add: ids_inv_def)
  have "inj_on (\<lambda>p. doc_id (snd p)) (set (docs s))"
  proof (rule inj_onI)
    fix p p' assume p: "p \<in> set (docs s)" "p' \<in> set (docs s)" "doc_id (snd p) = doc_id (snd p')"
    have m: "map_of (docs s) (fst p) = Some (snd p)" "map_of (docs s) (fst p') = Some (snd p')"
      using p(1,2) wf by (simp_all add: gomap_wf_def)
    then have "msg_InternalId (snd p) = msg_InternalId (snd p')"
      using p(3) assms(2) unfolding ids_inv_def by (metis id_int64.simps(1))
    then have "fst p = fst p'" using m assms(2) unfolding ids_inv_def by blast
    then show "p = p'" using m by (simp add: prod_eq_iff)
  qed
  moreover have "distinct (docs s)" using wf by (simp add: gomap_wf_def distinct_map)
  ultimately have "distinct (map doc_id (map snd (docs s)))" by (simp add: distinct_map comp_def)
  moreover have "mset (map doc_id (range_values ord (docs s))) = mset (map doc_id (map snd (docs s)))"
    using mset_range_values [OF assms(1) wf] by (simp add: multiset.map_comp comp_def)
  ultimately show ?thesis using mset_eq_imp_distinct_iff by blast
qed

lemma weak_order_ids: "weak_order (\<lambda>a b. doc_id a < doc_id b) A"
  by (auto simp: weak_order_def)

lemma sort_ids_strict:
  assumes "distinct (map doc_id ms)"
  shows "sorted_wrt (\<lambda>a b. doc_id a < doc_id b) (stable_sort (\<lambda>a b. doc_id a < doc_id b) ms)"
proof -
  let ?l = "stable_sort (\<lambda>a b. doc_id a < doc_id b) ms"
  have "sorted (map doc_id ?l)"
    using stable_sort_sorted [OF weak_order_ids, of ms] by (simp add: sorted_wrt_map not_less)
  moreover have "mset (map doc_id ?l) = mset (map doc_id ms)" by simp
  then have "distinct (map doc_id ?l)" using assms mset_eq_imp_distinct_iff by blast
  ultimately have "sorted_wrt (<) (map doc_id ?l)" by (simp add: strict_sorted_iff)
  then show ?thesis by (simp add: sorted_wrt_map)
qed

lemma recovery_match:
  assumes "ids_inv s" "x \<in> ran (map_of (docs s))"
    and "msg_InternalId m = IdNil \<or> (\<exists>b. msg_InternalId m = IdInt b \<and> int64_range b)" "MemoryStorage_GetStringInternalId s0 m = Inr bp"
    and "msg_InternalId z = IdInt c" "int64_range c" "MemoryStorage_GetStringInternalId s1 z = Inr rb"
  shows "messageMatchesFilter x (Some (recovery_find bp rb)) = Inr ((msg_InternalId m = IdNil \<or> doc_id m < doc_id x) \<and> doc_id x \<le> c)"
proof -
  obtain n where n: "msg_InternalId x = IdInt n" using assms(1,2) unfolding ids_inv_def ran_def by blast
  have "msg_InternalId z = IdNil \<or> (\<exists>b. msg_InternalId z = IdInt b \<and> int64_range b)" using assms(5,6) by simp
  note b = beyond_breakpoint_text [OF n assms(4,3)] beyond_breakpoint_text [OF n assms(7) this]
  show ?thesis
    using b n assms(5)
    by (auto simp: messageMatchesFilter_def matchesInternalFilter_def recovery_find_def zero_InternalFilter_def not_le
        split: bool.splits)
qed

definition recovery_window :: "time \<Rightarrow> Message \<Rightarrow> Message \<Rightarrow> MemoryStorage \<Rightarrow> Message set" where
  "recovery_window now m z s =
     {x \<in> ran (map_of (docs s)). \<not> isExpired now x \<and> (msg_InternalId m = IdNil \<or> doc_id m < doc_id x) \<and> doc_id x \<le> doc_id z}"

text \<open>
  C26: a page of the recovery over the memory storage is right. In every storage reached by writes, with the texts of the internal ids
  of two messages as the breakpoints (the first one possibly still empty), the find of the recovery succeeds. It returns documents that have not expired and whose
  internal ids lie after the first and up to the second breakpoint, in strictly ascending order of their ids; it returns all of them or 4000 of them,
  and then the ids of the others are greater. The next page therefore goes on where this one ends, and a page with
  fewer than 4000 messages is the last one.
\<close>

theorem recovery_page:
  fixes ops :: "storage_op list"
  assumes "any_order ord" "int (sum_list (map op_size ops)) < 2 ^ 63" "s = memory_storage_run ops NewMemoryStorage"
    and "msg_InternalId m = IdNil \<or> (\<exists>b. msg_InternalId m = IdInt b \<and> int64_range b)" "MemoryStorage_GetStringInternalId s0 m = Inr bp"
    and "msg_InternalId z = IdInt c" "int64_range c" "MemoryStorage_GetStringInternalId s1 z = Inr rb"
  shows "\<exists>r. MemoryStorage_Find ord now s (Some (recovery_find bp rb)) = Inr r \<and>
    sorted_wrt (\<lambda>a b. doc_id a < doc_id b) r \<and> set r \<subseteq> recovery_window now m z s \<and>
    length r = min 4000 (card (recovery_window now m z s)) \<and>
    (\<forall>x\<in>recovery_window now m z s - set r. \<forall>y\<in>set r. doc_id y < doc_id x)"
proof -
  let ?fo = "recovery_find bp rb"
  let ?ms = "filter (find_match now (Some ?fo)) (range_values ord (docs s))"
  define l where "l = stable_sort (\<lambda>a b. doc_id a < doc_id b) ?ms"
  have inv: "ids_inv s" using ids_run_new [OF assms(2)] assms(3) by simp
  then have sv: "set (range_values ord (docs s)) = ran (map_of (docs s))"
    using set_range_values [OF assms(1), of "docs s"] unfolding ids_inv_def by blast
  note match = recovery_match [OF inv _ assms(4-8)]
  have "sort_less [(''_id'', 1)] = (\<lambda>a b. doc_id a < doc_id b)" by (simp add: fun_eq_iff)
  moreover have "find_loop now (Some ?fo) (range_values ord (docs s)) [] = Inr ?ms"
    using find_loop_total [of "range_values ord (docs s)" "Some ?fo" now "[]"] match sv by simp
  ultimately have f: "MemoryStorage_Find ord now s (Some ?fo) = Inr (take 4000 l)"
    by (simp add: MemoryStorage_Find_def recovery_find_def l_def Let_def)
  have e: "fo_InternalFilter ?fo \<noteq> None" "if_ExpiryDate (the (fo_InternalFilter ?fo)) = None"
    by (simp_all add: recovery_find_def zero_InternalFilter_def)
  have "find_match now (Some ?fo) x \<longleftrightarrow> x \<in> recovery_window now m z s" if "x \<in> ran (map_of (docs s))" for x
    using match [OF that] e that assms(6) by (auto simp: recovery_window_def find_match_def)
  then have sl: "set l = recovery_window now m z s"
    unfolding l_def set_stable_sort set_filter sv by (auto simp: recovery_window_def)
  have strict: "sorted_wrt (\<lambda>a b. doc_id a < doc_id b) l"
    unfolding l_def using distinct_ids [OF assms(1) inv] by (intro sort_ids_strict) (simp add: distinct_map_filter)
  then have "sorted_wrt (\<lambda>a b. doc_id a < doc_id b) (take 4000 l @ drop 4000 l)" by simp
  then have parts: "\<forall>y\<in>set (take 4000 l). \<forall>x\<in>set (drop 4000 l). doc_id y < doc_id x"
    and st: "sorted_wrt (\<lambda>a b. doc_id a < doc_id b) (take 4000 l)" unfolding sorted_wrt_append by simp_all
  have "distinct l" using strict by (induction l) auto
  then have len: "length l = card (recovery_window now m z s)" using sl by (metis distinct_card)
  have un: "recovery_window now m z s = set (take 4000 l) \<union> set (drop 4000 l)"
    unfolding sl [symmetric] set_append [symmetric] by simp
  have "length (take 4000 l) = min 4000 (card (recovery_window now m z s))" by (simp add: len min.commute)
  then show ?thesis using f parts st unfolding un by (intro exI [of _ "take 4000 l"] conjI) blast+
qed

theorem recovery_page_witness:
  "\<exists>r. MemoryStorage_Find (\<lambda>ks. ks) 0 sample_storage (Some (recovery_find ''1'' ''2'')) = Inr r \<and> length r = 1"
proof -
  let ?ops = "[OpStore 0 [sample_doc ''q'' ''a'' 5, sample_doc ''q'' ''b'' 3]]"
  let ?a = "sample_stored ''q'' ''a'' 5 1" and ?b = "sample_stored ''q'' ''b'' 3 2"
  have s: "memory_storage_run ?ops NewMemoryStorage = sample_storage"
    using sample_storage_insert by (simp add: memory_storage_run_def memory_storage_def)
  have t: "MemoryStorage_GetStringInternalId sample_storage ?a = Inr ''1''"
    "MemoryStorage_GetStringInternalId sample_storage ?b = Inr ''2''" by code_simp+
  have i: "msg_InternalId ?a = IdInt 1" "msg_InternalId ?b = IdInt 2" by (simp_all add: sample_stored_def)
  have w: "recovery_window 0 ?a ?b sample_storage = {?b}"
    by (auto simp: recovery_window_def sample_storage_def sample_stored_def sample_doc_def isExpired_def ran_def split: if_splits)
  show ?thesis
    using recovery_page [where now = 0, OF any_order_id(1) _ s [symmetric] _ t(1) i(2) _ t(2)] i(1) w
    by (auto simp: int64_range_def)
qed

end
