(* ===== verification/Spec2Isabelle.thy ===== *)
theory Spec2Isabelle
  imports Configuration_Props Production Recovery_Page
begin

text \<open>
  \<^bold>\<open>A verification development of Deckard\<close>, the priority queue server of \<^verbatim>\<open>takenet/deckard\<close>. Paths are relative
  to \<^verbatim>\<open>src/internal/\<close>.

  \<^bold>\<open>The program.\<close> A gRPC service (\<^verbatim>\<open>service/deckard_service.go\<close>) turns requests into operations of a queue
  (\<^verbatim>\<open>queue/queue.go\<close>). The queue combines a cache, which knows in which pool of which queue every id is and with
  which priority score (\<^verbatim>\<open>queue/cache\<close>: in memory or in Redis), a storage, which holds the messages
  (\<^verbatim>\<open>queue/storage\<close>: in memory or in MongoDB), and an auditor (\<^verbatim>\<open>audit\<close>). A message waits in the primary pool, moves
  to the processing pool when it is pulled, and comes back by an ack, a nack or the end of its deadline, directly
  or through one of the two lock pools. The housekeeper (\<^verbatim>\<open>queue/queue_housekeeper.go\<close>) returns messages whose
  deadline or lock is over, removes expired and exceeding ones, repairs the cache from the storage, and fills the
  gauges. Configurations of queues are read through a local cache (\<^verbatim>\<open>queue/queue_configuration_service.go\<close>).

  \<^bold>\<open>How code becomes definitions.\<close> A struct is a record, an enumeration a datatype, an interface a record of
  functions over the state of an implementation (\<open>Cache\<close>, \<open>Storage\<close>, \<open>LocalCache\<close>, \<open>Redis\<close>, \<open>Mongo\<close>), a method a function
  that returns the new state with its results, and a Go error a value of \<open>go_error\<close>, so \<open>'a result\<close> is a sum; a
  panic is an error as well. An \<^verbatim>\<open>int64\<close> is an \<open>int\<close>, with \<open>wrap64\<close> where the code computes with values it has not
  bounded; a \<^verbatim>\<open>float64\<close> is \<open>NaN\<close>, an infinity or the rational it denotes, with rounding to 53 bits in sums and
  conversions; an instant is a number of nanoseconds. An operation that reads the clock takes the instants it
  reads as an argument (\<open>PullMessages\<close> and \<open>UnlockMessages\<close> of the memory cache read it several times in one
  critical section and take one instant). A Go map is an association list and every loop over it takes an order of its keys, so the
  theorems hold for all orders. Definitions keep the names of the source.

  \<^bold>\<open>The theories.\<close>
  \<^item> \<open>Deckard_Prelude\<close>, \<open>Go_Float\<close>, \<open>Go_Time\<close>, \<open>Strconv\<close>: errors, integers, maps, stable sorting, floating point
    numbers, \<^verbatim>\<open>dtime\<close>, and decimal text.
  \<^item> \<open>Score\<close>, \<open>Message\<close>: \<^verbatim>\<open>queue/score\<close>, \<^verbatim>\<open>queue/message\<close>, \<^verbatim>\<open>queue/pool\<close>, \<^verbatim>\<open>queue/configuration\<close>,
    \<^verbatim>\<open>queue/utils\<close>.
  \<^item> \<open>Cache_Interface\<close>, \<open>Cache_Contract\<close>: the interface of \<^verbatim>\<open>cache.go\<close> and the locale \<open>cache_contract\<close>, which says
    what each method does to the ids of the pools; the lemmas on sequences of calls are proved there once.
  \<^item> \<open>Memory_Cache\<close>: every method of \<^verbatim>\<open>memory_cache.go\<close>. \<open>Memory_Cache_View\<close>, \<open>_Moves\<close>, \<open>_Contract\<close> show that it
    keeps the contract (an interpretation), \<open>_Order\<close> that its lists stay sorted, \<open>_Props\<close> has the properties.
  \<^item> \<open>Redis_Client\<close>: the commands of a Redis server and the connection, which are not part of the sources, as a
    parameter. The locale \<open>redis\<close> states the documented effect of the commands under any connection, \<open>redis_once\<close>
    excludes repeated commands and \<open>redis_reliable\<close> lost ones. \<open>Redis_Model\<close> is an executable server that
    satisfies them. \<open>Redis_Scripts\<close> and \<open>Redis_Cache\<close> are \<^verbatim>\<open>redis_cache_scripts.go\<close> and \<^verbatim>\<open>redis_cache.go\<close>;
    \<open>Redis_Keys\<close>, \<open>_Script_Laws\<close>, \<open>_Move_Laws\<close>, \<open>_Views\<close>, \<open>_Contract\<close>, \<open>_Faults\<close> show what the scripts do and that
    the cache keeps its invariant and the contract, \<open>Redis_Props\<close> has the properties.
  \<^item> \<open>Storage_Interface\<close>, \<open>Memory_Storage\<close>, \<open>Memory_Storage_Contract\<close>, \<open>Memory_Storage_Props\<close>: \<^verbatim>\<open>storage.go\<close> and
    \<^verbatim>\<open>memory_storage.go\<close> in the same way, with the locale \<open>storage_contract\<close>. \<open>Recovery_Page\<close> is about the finds of
    the recovery over this storage.
  \<^item> \<open>Mongo_Client\<close>: documents, filters, updates and projections, and the driver with its servers as a parameter. The
    locale \<open>mongo\<close> states their documented behaviour: writes may fail in part, and finds read what a secondary
    has, which may lag. \<open>mongo_current\<close> adds that finds read current data, which holds on a single server, and
    \<open>mongo_reliable\<close> that deletions do not fail. \<open>Mongo_Storage\<close> is \<^verbatim>\<open>mongo_storage.go\<close>, \<open>Mongo_Contract\<close> shows its
    invariant and, under \<open>mongo_reliable\<close>, the contract, \<open>Mongo_Model\<close> is an executable database that satisfies
    the locales, and \<open>Mongo_Props\<close> has the properties.
  \<^item> \<open>Auditing\<close>: \<^verbatim>\<open>audit.go\<close>; the loop of the sender and the goroutines that store entries are an inductive step
    relation with labels, over a channel of 10000 entries.
  \<^item> \<open>Queue_Core\<close>, \<open>Queue_Configuration\<close>, \<open>Housekeeper\<close>, \<open>Service\<close>: the four clients of the interfaces, over any
    implementation. \<open>Queue_Laws\<close> and \<open>Deckard_Laws\<close> prove in the locale \<open>queue_env\<close> what every operation, task and
    request does to a queue whose cache and storage agree; \<open>Memory_Queue\<close> and \<open>Redis_Queue\<close> interpret the locale.
  \<^item> \<open>Deckard_Run\<close>, \<open>Deckard_Props\<close>, \<open>Configuration_Props\<close>: runs of a whole instance, that is sequences of requests
    and housekeeper tasks in any order, and their properties for the memory instance.
  \<^item> \<open>Production\<close>: the same for the queue over Redis and MongoDB, in the locale \<open>production\<close>, which joins
    \<open>redis_reliable\<close> and \<open>mongo_reliable\<close> and is interpreted on the two sample servers.

  \<^bold>\<open>What the theorems show.\<close> Over any run of the memory instance: a pulled message is not given to another consumer
  before it comes back, the cache never knows a message that the storage has lost, messages that nobody removes
  stay stored, and the results of pull, ack, nack (with and without removal) and remove are the ones the protocol
  promises. Over Redis and MongoDB the first three hold as well, if no call of Redis loses a request or an answer, no deletion of MongoDB
  fails and its finds read current data. For both caches: an id is in one pool of a queue at most, for Redis even
  under lost and repeated commands as long as nothing is flushed. For the memory cache: messages move along the life cycle only, none
  is lost, pulls take the lowest scores first, and limits, locks and deadlines are observed as far as the code
  does. For the memory storage: finds are sorted and limited as asked, a batch of messages updates each document as
  its last message says, internal ids are unique and grow, a page of the recovery misses nothing, acks
  and nacks count. For MongoDB: whatever the connection does, the documents keep their types and keys, and acks and nacks
  leave what the memory storage would hold. The auditor puts each stored entry that JSON can express into one request, in
  order, except for those that wait in its channel at the shutdown; failed requests are not repeated. Further: scores stay in their
  range, the parts of queue names give the names back, configurations are read as written.

  \<^bold>\<open>Bounds and fuel.\<close> The loops of the housekeeper that go on while a round finds work, and the cursor loops over
  Redis, take fuel; the theorems about them hold for every fuel or say how much is enough. A pull from Redis is
  bounded by 4000 messages, because Lua cannot unpack lists of arbitrary length (\<open>redis_amount\<close>); the service asks
  for at most 1000.

  \<^bold>\<open>Not modelled.\<close> The creation of the Redis, MongoDB and Elasticsearch clients, of which only the errors appear, the
  gRPC server with its TLS and keepalive settings, the text of the requests to Elasticsearch (the model has the entries
  in them and their outcome), the exporters of metrics and traces, the logger, the configuration by viper, the signal
  handling and the scheduling of \<^verbatim>\<open>main.go\<close>: they are calls of third-party packages with little logic of their own. The code generated from the protocol
  buffers is left out. Mutexes make every method of the memory cache one atomic step, and the runs interleave
  whole requests and tasks; data races inside of an operation are outside of the model. In the runs the auditor's \<^verbatim>\<open>Store\<close>
  does not wait, while its channel is bounded in \<open>Auditing\<close>.
\<close>

end
